(* ===== verification/Bl_Prelude.thy ===== *)
theory Bl_Prelude
  imports Main "HOL-Library.Word"
begin

text \<open>
  Shared vocabulary of the development: the fixed-width integers of the C sources,
  the little-endian byte access the code performs on them, byte ranges of a memory
  and in-place buffer updates, together with the lemmas every component uses on
  them.

  The collections:
  \<^item> \<open>le_simps\<close>: round trips and lengths of little-endian encodings;
  \<^item> \<open>mem_simps\<close>: reading byte ranges out of an updated memory.
\<close>

unbundle bit_operations_syntax

named_theorems le_simps \<open>little-endian encodings: lengths and round trips\<close>
named_theorems mem_simps \<open>byte ranges of updated memories\<close>

type_synonym u8 = "8 word"
type_synonym u16 = "16 word"
type_synonym u32 = "32 word"

section \<open>Little-endian access\<close>

text \<open>
  \<open>put_u32_le\<close> and \<open>get_u32_le\<close> are the two helpers of \<open>bl_core.c\<close>; the 16-bit
  variants are the byte pairs written and read by the frame code, the struct layouts
  and the HELLO response.
\<close>

definition put_u32_le :: "u32 \<Rightarrow> u8 list" where
  "put_u32_le value =
     [ucast (value AND 0xFF),
      ucast (drop_bit 8 value AND 0xFF),
      ucast (drop_bit 16 value AND 0xFF),
      ucast (drop_bit 24 value AND 0xFF)]"

definition get_u32_le :: "u8 list \<Rightarrow> u32" where
  "get_u32_le src =
     ucast (src ! 0) OR
     push_bit 8 (ucast (src ! 1)) OR
     push_bit 16 (ucast (src ! 2)) OR
     push_bit 24 (ucast (src ! 3))"

definition put_u16_le :: "u16 \<Rightarrow> u8 list" where
  "put_u16_le value = [ucast (value AND 0xFF), ucast (drop_bit 8 value AND 0xFF)]"

definition get_u16_le :: "u8 list \<Rightarrow> u16" where
  "get_u16_le src = ucast (src ! 0) OR push_bit 8 (ucast (src ! 1))"

lemma length_put_u32_le [simp, le_simps]: "length (put_u32_le v) = 4"
  by (simp add: put_u32_le_def)

lemma length_put_u16_le [simp, le_simps]: "length (put_u16_le v) = 2"
  by (simp add: put_u16_le_def)

lemma and_0xFF_eq_take_bit: "x AND 0xFF = take_bit 8 x" for x :: "'a :: len word"
proof -
  have "(mask 8 :: 'a word) = 0xFF" by (simp add: mask_eq_exp_minus_1)
  then show ?thesis by (metis take_bit_eq_mask)
qed

lemma ucast_and_0xFF [simp]: "(ucast (x AND 0xFF) :: u8) = ucast x" for x :: "'a :: len word"
  unfolding and_0xFF_eq_take_bit by (rule bit_word_eqI) (auto simp: bit_simps)

lemma bit_push_bit_word: "bit (push_bit m w) n \<longleftrightarrow> m \<le> n \<and> n < LENGTH('a) \<and> bit w (n - m)"
  for w :: "'a :: len word"
  by (simp add: bit_simps)

lemma bit_u8_beyond [simp]: "8 \<le> n \<Longrightarrow> \<not> bit w n" for w :: u8
  using bit_imp_le_length [of w n] by auto

lemma get_put_u32_le [simp, le_simps]: "get_u32_le (put_u32_le v) = v"
proof (rule bit_word_eqI)
  fix n
  assume "n < LENGTH(32)"
  then consider "n < 8" | "8 \<le> n" "n < 16" | "16 \<le> n" "n < 24" | "24 \<le> n" "n < 32"
    by fastforce
  then show "bit (get_u32_le (put_u32_le v)) n \<longleftrightarrow> bit v n"
    by cases (auto simp: get_u32_le_def put_u32_le_def bit_simps)
qed

lemma get_put_u16_le [simp, le_simps]: "get_u16_le (put_u16_le v) = v"
  unfolding get_u16_le_def put_u16_le_def
  by (rule bit_word_eqI) (auto simp: bit_simps)

lemma ucast_get_u32_le:
  "ucast (get_u32_le [a, b, c, d]) = a"
  "ucast (drop_bit 8 (get_u32_le [a, b, c, d])) = b"
  "ucast (drop_bit 16 (get_u32_le [a, b, c, d])) = c"
  "ucast (drop_bit 24 (get_u32_le [a, b, c, d])) = d"
  unfolding get_u32_le_def
  by (rule bit_word_eqI; simp add: bit_simps)+

lemma put_get_u32_le_list: "put_u32_le (get_u32_le [a, b, c, d]) = [a, b, c, d]"
  by (simp add: put_u32_le_def ucast_get_u32_le)

lemma length_4_list:
  assumes "length xs = 4"
  shows "xs = [xs ! 0, xs ! 1, xs ! 2, xs ! 3]"
  using assms by (auto simp: numeral_eq_Suc length_Suc_conv)

lemma put_get_u32_le [simp, le_simps]: "length bs = 4 \<Longrightarrow> put_u32_le (get_u32_le bs) = bs"
  using put_get_u32_le_list length_4_list by metis

lemma put_get_u16_le [simp, le_simps]: "length bs = 2 \<Longrightarrow> put_u16_le (get_u16_le bs) = bs"
proof -
  assume "length bs = 2"
  then obtain a b where bs: "bs = [a, b]"
    by (auto simp: numeral_eq_Suc length_Suc_conv)
  have "ucast (get_u16_le [a, b]) = a" "ucast (drop_bit 8 (get_u16_le [a, b])) = b"
    unfolding get_u16_le_def by (rule bit_word_eqI; simp add: bit_simps)+
  then show ?thesis by (simp add: bs put_u16_le_def)
qed

lemma word_less_add_one: "x + 1 \<noteq> 0 \<Longrightarrow> x < x + 1" for x :: "'a :: len word"
proof -
  assume nz: "x + 1 \<noteq> 0"
  have eq: "unat (x + 1) = Suc (unat x) mod 2 ^ LENGTH('a)"
    by (simp add: unat_word_ariths)
  have "unat x < 2 ^ LENGTH('a)" by simp
  moreover have "Suc (unat x) \<noteq> 2 ^ LENGTH('a)"
    using eq nz by (metis mod_self unat_eq_0)
  ultimately have "Suc (unat x) < 2 ^ LENGTH('a)" by linarith
  then show "x < x + 1"
    using eq by (simp add: word_less_nat_alt)
qed

section \<open>Byte ranges of a memory\<close>

text \<open>
  A byte memory is a function from (absolute) addresses to bytes. \<open>bytes_at\<close> is what
  a read returns, \<open>mem_upd\<close> what a \<open>memcpy\<close> into the memory leaves, \<open>mem_fill\<close> what
  a \<open>memset\<close> leaves.
\<close>

definition bytes_at :: "(nat \<Rightarrow> 'a) \<Rightarrow> nat \<Rightarrow> nat \<Rightarrow> 'a list" where
  "bytes_at m a n = map m [a..<a + n]"

definition mem_upd :: "(nat \<Rightarrow> 'a) \<Rightarrow> nat \<Rightarrow> 'a list \<Rightarrow> nat \<Rightarrow> 'a" where
  "mem_upd m a bs = (\<lambda>x. if a \<le> x \<and> x < a + length bs then bs ! (x - a) else m x)"

definition mem_fill :: "(nat \<Rightarrow> 'a) \<Rightarrow> nat \<Rightarrow> nat \<Rightarrow> 'a \<Rightarrow> nat \<Rightarrow> 'a" where
  "mem_fill m a n v = (\<lambda>x. if a \<le> x \<and> x < a + n then v else m x)"

lemma length_bytes_at [simp]: "length (bytes_at m a n) = n"
  by (simp add: bytes_at_def)

lemma nth_bytes_at [simp]: "i < n \<Longrightarrow> bytes_at m a n ! i = m (a + i)"
  by (simp add: bytes_at_def)

lemma bytes_at_0 [simp]: "bytes_at m a 0 = []"
  by (simp add: bytes_at_def)

lemma mem_fill_0 [simp]: "mem_fill m a 0 v = m"
  by (auto simp: mem_fill_def fun_eq_iff)

lemma mem_upd_Nil [simp]: "mem_upd m a [] = m"
  by (auto simp: mem_upd_def fun_eq_iff)

lemma bytes_at_cong:
  assumes "\<And>x. a \<le> x \<Longrightarrow> x < a + n \<Longrightarrow> m x = m' x"
  shows "bytes_at m a n = bytes_at m' a n"
  using assms by (simp add: bytes_at_def)

lemma bytes_at_append: "bytes_at m a n @ bytes_at m (a + n) k = bytes_at m a (n + k)"
  by (rule nth_equalityI) (auto simp: nth_append)

lemma bytes_at_mem_upd_same [simp, mem_simps]: "bytes_at (mem_upd m a bs) a (length bs) = bs"
  by (rule nth_equalityI) (auto simp: mem_upd_def)

lemma bytes_at_mem_upd_other [mem_simps]:
  "b + n \<le> a \<or> a + length bs \<le> b \<Longrightarrow> bytes_at (mem_upd m a bs) b n = bytes_at m b n"
  by (rule nth_equalityI) (auto simp: mem_upd_def)

lemma bytes_at_mem_fill_other [mem_simps]:
  "b + n \<le> a \<or> a + k \<le> b \<Longrightarrow> bytes_at (mem_fill m a k v) b n = bytes_at m b n"
  by (rule nth_equalityI) (auto simp: mem_fill_def)

lemma bytes_at_mem_fill_same [mem_simps]:
  "a \<le> b \<Longrightarrow> b + n \<le> a + k \<Longrightarrow> bytes_at (mem_fill m a k v) b n = replicate n v"
  by (rule nth_equalityI) (auto simp: mem_fill_def)

section \<open>Buffers\<close>

text \<open>\<open>memcpy_at out off src n\<close>: the first \<open>n\<close> bytes of \<open>src\<close> copied to \<open>out + off\<close>.\<close>

definition memcpy_at :: "'a list \<Rightarrow> nat \<Rightarrow> 'a list \<Rightarrow> nat \<Rightarrow> 'a list" where
  "memcpy_at out off src n = take off out @ take n src @ drop (off + n) out"

lemma length_memcpy_at [simp]:
  "off + n \<le> length out \<Longrightarrow> n \<le> length src \<Longrightarrow> length (memcpy_at out off src n) = length out"
  by (simp add: memcpy_at_def)

section \<open>Sequencing\<close>

lemma bind_SomeE:
  assumes "Option.bind m f = Some y" obtains x where "m = Some x" and "f x = Some y"
  using assms by (auto simp: bind_eq_Some_conv)

end
