(* ===== verification/Bl_Proto.thy ===== *)
theory Bl_Proto
  imports Bl_Prelude
begin

text \<open>
  The wire and storage protocol of \<open>core/include/bl_proto.h\<close>: its constants, the
  result codes, the command codes and the image header with its on-flash layout.
  A C struct that the code reads from or writes to flash is a record together with
  the function to its bytes (\<open>hdr_bytes\<close>) and the one from its bytes
  (\<open>hdr_of_bytes\<close>); both targets are little-endian and the header's static
  assertions rule out padding.
\<close>

section \<open>Constants\<close>

definition BL_PROTO_VERSION :: u8 where [simp]: "BL_PROTO_VERSION = 1"
definition BL_MAX_PAYLOAD :: u16 where [simp]: "BL_MAX_PAYLOAD = 512"
definition BL_SOF :: u8 where [simp]: "BL_SOF = 0x7E"
definition BL_MAX_WRITE_DATA :: u16 where
  "BL_MAX_WRITE_DATA = ((BL_MAX_PAYLOAD - 4) div 8) * 8"
definition BL_IMG_MAGIC :: u32 where [simp]: "BL_IMG_MAGIC = 0x4D494C42"
definition BL_IMG_HDR_VERSION :: u16 where [simp]: "BL_IMG_HDR_VERSION = 1"
definition BL_SLOT_A :: u8 where [simp]: "BL_SLOT_A = 0"
definition BL_SLOT_B :: u8 where [simp]: "BL_SLOT_B = 1"
definition BL_SLOT_COUNT :: u8 where [simp]: "BL_SLOT_COUNT = 2"
definition BL_META_COUNT :: nat where [simp]: "BL_META_COUNT = 2"
definition BL_SLOT_NONE :: u8 where [simp]: "BL_SLOT_NONE = 0xFF"
definition BL_BOOT_STATE_NONE :: u8 where [simp]: "BL_BOOT_STATE_NONE = 0xFF"
definition BL_IMG_HDR_REGION :: u32 where [simp]: "BL_IMG_HDR_REGION = 512"

lemma BL_MAX_WRITE_DATA_eq [simp]: "BL_MAX_WRITE_DATA = 504"
  by (simp add: BL_MAX_WRITE_DATA_def)

section \<open>Result and command codes\<close>

datatype bl_result =
    BL_OK
  | BL_ERR_MAGIC | BL_ERR_HDR_VERSION | BL_ERR_HDR_CRC
  | BL_ERR_IMAGE_SIZE | BL_ERR_IMAGE_CRC | BL_ERR_ENTRY_OFFSET
  | BL_ERR_NO_VALID_IMAGE | BL_ERR_JUMP_REFUSED | BL_ERR_NO_METADATA
  | BL_ERR_FLASH_UNLOCK | BL_ERR_FLASH_ERASE | BL_ERR_FLASH_PROGRAM
  | BL_ERR_FLASH_VERIFY | BL_ERR_NOT_ERASED
  | BL_ERR_TIMEOUT | BL_ERR_INVALID_PACKET | BL_ERR_CRC
  | BL_ERR_NULL_POINTER | BL_ERR_INVALID_ARGUMENT | BL_ERR_UNKNOWN | BL_ERR_NOT_SUPPORTED

fun result_code :: "bl_result \<Rightarrow> u8" where
  "result_code BL_OK = 0"
| "result_code BL_ERR_MAGIC = 0x10"
| "result_code BL_ERR_HDR_VERSION = 0x11"
| "result_code BL_ERR_HDR_CRC = 0x12"
| "result_code BL_ERR_IMAGE_SIZE = 0x20"
| "result_code BL_ERR_IMAGE_CRC = 0x21"
| "result_code BL_ERR_ENTRY_OFFSET = 0x22"
| "result_code BL_ERR_NO_VALID_IMAGE = 0x23"
| "result_code BL_ERR_JUMP_REFUSED = 0x24"
| "result_code BL_ERR_NO_METADATA = 0x25"
| "result_code BL_ERR_FLASH_UNLOCK = 0x30"
| "result_code BL_ERR_FLASH_ERASE = 0x31"
| "result_code BL_ERR_FLASH_PROGRAM = 0x32"
| "result_code BL_ERR_FLASH_VERIFY = 0x33"
| "result_code BL_ERR_NOT_ERASED = 0x34"
| "result_code BL_ERR_TIMEOUT = 0x40"
| "result_code BL_ERR_INVALID_PACKET = 0x41"
| "result_code BL_ERR_CRC = 0x42"
| "result_code BL_ERR_NULL_POINTER = 0x50"
| "result_code BL_ERR_INVALID_ARGUMENT = 0x51"
| "result_code BL_ERR_UNKNOWN = 0x52"
| "result_code BL_ERR_NOT_SUPPORTED = 0x53"

text \<open>The status byte of a response identifies the result.\<close>

lemma result_code_inject [simp]: "result_code r = result_code r' \<longleftrightarrow> r = r'"
  by (cases r; cases r') simp_all

definition BL_CMD_HELLO :: u8 where [simp]: "BL_CMD_HELLO = 1"
definition BL_CMD_ERASE_SLOT :: u8 where [simp]: "BL_CMD_ERASE_SLOT = 2"
definition BL_CMD_WRITE :: u8 where [simp]: "BL_CMD_WRITE = 3"
definition BL_CMD_VERIFY :: u8 where [simp]: "BL_CMD_VERIFY = 4"
definition BL_CMD_SET_ACTIVE :: u8 where [simp]: "BL_CMD_SET_ACTIVE = 5"
definition BL_CMD_RESET :: u8 where [simp]: "BL_CMD_RESET = 6"

section \<open>The image header\<close>

record bl_img_hdr =
  hdr_magic :: u32
  hdr_version :: u16
  hdr_flags :: u16
  img_size :: u32
  img_crc32 :: u32
  fw_version :: u32
  entry_offset :: u32
  hdr_reserved :: "u8 list"
  hdr_crc32 :: u32

definition SIZEOF_IMG_HDR :: nat where [simp]: "SIZEOF_IMG_HDR = 40"
definition OFFSETOF_HDR_CRC32 :: nat where [simp]: "OFFSETOF_HDR_CRC32 = 36"

definition hdr_bytes :: "bl_img_hdr \<Rightarrow> u8 list" where
  "hdr_bytes h =
     put_u32_le (hdr_magic h) @ put_u16_le (hdr_version h) @ put_u16_le (hdr_flags h) @
     put_u32_le (img_size h) @ put_u32_le (img_crc32 h) @ put_u32_le (fw_version h) @
     put_u32_le (entry_offset h) @ hdr_reserved h @ put_u32_le (hdr_crc32 h)"

definition hdr_of_bytes :: "u8 list \<Rightarrow> bl_img_hdr" where
  "hdr_of_bytes bs =
     \<lparr>hdr_magic = get_u32_le (take 4 bs),
      hdr_version = get_u16_le (take 2 (drop 4 bs)),
      hdr_flags = get_u16_le (take 2 (drop 6 bs)),
      img_size = get_u32_le (take 4 (drop 8 bs)),
      img_crc32 = get_u32_le (take 4 (drop 12 bs)),
      fw_version = get_u32_le (take 4 (drop 16 bs)),
      entry_offset = get_u32_le (take 4 (drop 20 bs)),
      hdr_reserved = take 12 (drop 24 bs),
      hdr_crc32 = get_u32_le (take 4 (drop 36 bs))\<rparr>"

definition hdr_wf :: "bl_img_hdr \<Rightarrow> bool" where
  "hdr_wf h \<longleftrightarrow> length (hdr_reserved h) = 12"

lemma length_hdr_bytes [le_simps]: "hdr_wf h \<Longrightarrow> length (hdr_bytes h) = SIZEOF_IMG_HDR"
  by (simp add: hdr_bytes_def hdr_wf_def)

lemma hdr_of_bytes_wf [le_simps]: "length bs = SIZEOF_IMG_HDR \<Longrightarrow> hdr_wf (hdr_of_bytes bs)"
  by (simp add: hdr_wf_def hdr_of_bytes_def)

lemma hdr_of_hdr_bytes [le_simps]: "hdr_wf h \<Longrightarrow> hdr_of_bytes (hdr_bytes h) = h"
  by (simp add: hdr_of_bytes_def hdr_bytes_def hdr_wf_def take_Cons')

text \<open>Cutting a byte string into consecutive fields loses nothing.\<close>

lemma take_append_take_drop: "take n (drop k xs) @ drop (k + n) xs = drop k xs"
  by (metis append_take_drop_id drop_drop add.commute)

lemma hdr_bytes_of_bytes [le_simps]:
  assumes "length bs = SIZEOF_IMG_HDR"
  shows "hdr_bytes (hdr_of_bytes bs) = bs"
proof -
  have "hdr_bytes (hdr_of_bytes bs) =
     take 4 bs @ take 2 (drop 4 bs) @ take 2 (drop 6 bs) @ take 4 (drop 8 bs) @
     take 4 (drop 12 bs) @ take 4 (drop 16 bs) @ take 4 (drop 20 bs) @
     take 12 (drop 24 bs) @ take 4 (drop 36 bs)"
    using assms by (simp add: hdr_bytes_def hdr_of_bytes_def)
  also have "take 4 (drop 36 bs) = drop 36 bs"
    using assms by simp
  finally show ?thesis
    using take_append_take_drop [of 12 24 bs] take_append_take_drop [of 4 20 bs]
      take_append_take_drop [of 4 16 bs] take_append_take_drop [of 4 12 bs]
      take_append_take_drop [of 4 8 bs] take_append_take_drop [of 2 6 bs]
      take_append_take_drop [of 2 4 bs] take_append_take_drop [of 4 0 bs]
    by simp
qed

end
