(* ===== verification/Bl_Crc32.thy ===== *)
theory Bl_Crc32
  imports Bl_Prelude
begin

text \<open>
  The checksum of \<open>core/src/bl_crc32.c\<close>, bit-serial and reflected as the code
  computes it, and what the rest of the bootloader relies on:
  \<^item> it is CRC-32/ISO-HDLC: equal to the catalogue's parametrised algorithm
    (polynomial \<open>0x04C11DB7\<close>, reflected input and output);
  \<^item> the running value composes over concatenation, so a checksum accumulated byte by
    byte (the frame parser) or chunk by chunk (image validation) is the checksum of
    the whole;
  \<^item> it detects every change confined to four consecutive bytes.
\<close>

section \<open>The code\<close>

text \<open>One iteration of the inner loop, the inner loop, one iteration of the outer loop.\<close>

definition crc_bit :: "u32 \<Rightarrow> u32" where
  "crc_bit crc = (if crc AND 1 \<noteq> 0 then drop_bit 1 crc XOR 0xEDB88320 else drop_bit 1 crc)"

primrec crc_bits :: "nat \<Rightarrow> u32 \<Rightarrow> u32" where
  "crc_bits 0 crc = crc"
| "crc_bits (Suc n) crc = crc_bits n (crc_bit crc)"

definition crc_byte :: "u32 \<Rightarrow> u8 \<Rightarrow> u32" where
  "crc_byte crc b = crc_bits 8 (crc XOR ucast b)"

text \<open>\<open>data\<close> holds exactly the \<open>len\<close> bytes the C function is given.\<close>

definition bl_crc32 :: "u32 \<Rightarrow> u8 list \<Rightarrow> u32" where
  "bl_crc32 crc data = NOT (foldl crc_byte (NOT crc) data)"

section \<open>Running values\<close>

lemma bl_crc32_Nil [simp]: "bl_crc32 crc [] = crc"
  by (simp add: bl_crc32_def)

lemma bl_crc32_append: "bl_crc32 (bl_crc32 crc xs) ys = bl_crc32 crc (xs @ ys)"
  by (simp add: bl_crc32_def)

lemma bl_crc32_snoc: "bl_crc32 (bl_crc32 crc xs) [y] = bl_crc32 crc (xs @ [y])"
  by (rule bl_crc32_append)

section \<open>Linearity and injectivity of the shift register\<close>

lemma and_1_iff_bit0: "crc AND 1 \<noteq> 0 \<longleftrightarrow> bit crc 0" for crc :: u32
  by (simp add: and_one_eq bit_0 odd_iff_mod_2_eq_one)

lemma bit_crc_bit:
  "bit (crc_bit c) n \<longleftrightarrow> (bit c (Suc n) \<noteq> (bit c 0 \<and> bit (0xEDB88320 :: u32) n))"
  by (simp add: crc_bit_def and_1_iff_bit0 bit_xor_iff bit_drop_bit_eq)

lemma crc_bit_xor: "crc_bit (a XOR b) = crc_bit a XOR crc_bit b"
  by (rule bit_word_eqI) (auto simp: bit_crc_bit bit_xor_iff)

lemma crc_bits_xor: "crc_bits n (a XOR b) = crc_bits n a XOR crc_bits n b"
  by (induction n arbitrary: a b) (simp_all add: crc_bit_xor)

lemma crc_bit_0 [simp]: "crc_bit 0 = 0"
  by (simp add: crc_bit_def)

lemma crc_bits_0 [simp]: "crc_bits n 0 = 0"
  by (induction n) simp_all

lemma crc_bit_eq_0: "crc_bit c = 0 \<Longrightarrow> c = 0"
proof -
  assume c: "crc_bit c = 0"
  then have eq: "bit c (Suc n) \<longleftrightarrow> bit c 0 \<and> bit (0xEDB88320 :: u32) n" for n
    using bit_crc_bit [of c n] by auto
  have "bit (0xEDB88320 :: u32) 31" by simp
  moreover have "\<not> bit c 32" using bit_imp_le_length [of c 32] by auto
  ultimately have "\<not> bit c 0" using eq [of 31] by simp
  with eq have "\<not> bit c n" for n by (cases n) simp_all
  then show "c = 0" by (simp add: bit_eq_iff)
qed

lemma crc_bits_eq_0: "crc_bits n c = 0 \<Longrightarrow> c = 0"
  by (induction n arbitrary: c) (auto dest: crc_bit_eq_0)

lemma xor_eq_0_iff: "a XOR b = 0 \<longleftrightarrow> a = b" for a b :: "'a :: len word"
  by (auto simp: bit_eq_iff bit_xor_iff)

lemma crc_bits_inject: "crc_bits n a = crc_bits n b \<longleftrightarrow> a = b"
proof -
  have "crc_bits n a = crc_bits n b \<longleftrightarrow> crc_bits n (a XOR b) = 0"
    by (simp add: crc_bits_xor xor_eq_0_iff)
  also have "\<dots> \<longleftrightarrow> a = b"
    using crc_bits_eq_0 [of n "a XOR b"] by (auto simp: xor_eq_0_iff)
  finally show ?thesis .
qed

lemma crc_byte_inject_state: "crc_byte a b = crc_byte a' b \<longleftrightarrow> a = a'"
proof -
  have "a XOR ucast b = a' XOR ucast b \<longleftrightarrow> a = a'"
    by (auto simp: bit_eq_iff bit_xor_iff)
  then show ?thesis by (simp add: crc_byte_def crc_bits_inject)
qed

lemma foldl_crc_byte_inject_state: "foldl crc_byte a xs = foldl crc_byte a' xs \<longleftrightarrow> a = a'"
  by (induction xs arbitrary: a a') (simp_all add: crc_byte_inject_state)

section \<open>Bursts of up to four bytes\<close>

text \<open>
  Up to four message bytes amount to one exclusive-or with the 32-bit register,
  followed by as many shifts as there are message bits.
\<close>

fun le_word :: "u8 list \<Rightarrow> u32" where
  "le_word [] = 0"
| "le_word (b # bs) = ucast b XOR push_bit 8 (le_word bs)"

lemma bit_le_word_beyond: "8 * length bs \<le> n \<Longrightarrow> \<not> bit (le_word bs) n"
  by (induction bs arbitrary: n) (auto simp: bit_simps)

lemma crc_bits_add: "crc_bits m (crc_bits n c) = crc_bits (n + m) c"
  by (induction n arbitrary: c) simp_all

lemma crc_bit_shift: "\<not> bit y 0 \<Longrightarrow> (\<And>k. bit y (Suc k) = bit x k) \<Longrightarrow> crc_bit y = x"
  by (simp add: bit_eq_iff bit_crc_bit)

lemma crc_bits_push_bit:
  "(\<And>k. 32 - n \<le> k \<Longrightarrow> \<not> bit x k) \<Longrightarrow> n \<le> 32 \<Longrightarrow> crc_bits n (push_bit n x) = x"
proof (induction n arbitrary: x)
  case 0
  then show ?case by simp
next
  case (Suc n)
  have "bit (push_bit (Suc n) x) (Suc k) = bit (push_bit n x) k" for k
  proof -
    have "bit x (k - n) \<longrightarrow> k - n < 32 - Suc n"
      using Suc.prems(1) [of "k - n"] by (metis linorder_not_less)
    then show ?thesis
      using Suc.prems(2) by (auto simp only: bit_push_bit_word) auto
  qed
  then have "crc_bit (push_bit (Suc n) x) = push_bit n x"
    by (intro crc_bit_shift) (simp_all only: bit_push_bit_word, simp)
  then have "crc_bits (Suc n) (push_bit (Suc n) x) = crc_bits n (push_bit n x)"
    by (simp only: crc_bits.simps)
  also have "\<dots> = x"
    using Suc.prems by (intro Suc.IH) auto
  finally show ?case .
qed

lemma foldl_crc_byte_le_word:
  "length bs \<le> 4 \<Longrightarrow> foldl crc_byte c bs = crc_bits (8 * length bs) (c XOR le_word bs)"
proof (induction bs arbitrary: c)
  case Nil
  then show ?case by simp
next
  case (Cons b bs)
  have le: "crc_bits 8 (push_bit 8 (le_word bs)) = le_word bs"
    using Cons.prems by (intro crc_bits_push_bit) (auto simp: bit_le_word_beyond)
  have "foldl crc_byte c (b # bs) = crc_bits (8 * length bs) (crc_byte c b XOR le_word bs)"
    using Cons by simp
  also have "crc_byte c b XOR le_word bs = crc_bits 8 ((c XOR ucast b) XOR push_bit 8 (le_word bs))"
    using le by (simp only: crc_byte_def crc_bits_xor [of 8 "c XOR ucast b" "push_bit 8 (le_word bs)"])
  finally show ?case
    by (simp add: crc_bits_add xor.assoc)
qed

lemma le_word_Cons_inject:
  assumes "length bs \<le> 3" and "length bs' \<le> 3"
  shows "le_word (b # bs) = le_word (b' # bs') \<longleftrightarrow> b = b' \<and> le_word bs = le_word bs'"
proof
  assume eq: "le_word (b # bs) = le_word (b' # bs')"
  have "bit b n \<longleftrightarrow> bit b' n" if "n < 8" for n
    using arg_cong [OF eq, of "\<lambda>w. bit w n"] that by (simp add: bit_simps)
  moreover have "bit (le_word bs) n \<longleftrightarrow> bit (le_word bs') n" if "n < 24" for n
    using arg_cong [OF eq, of "\<lambda>w. bit w (n + 8)"] that by (simp add: bit_simps)
  moreover have "\<not> bit (le_word bs) n \<and> \<not> bit (le_word bs') n" if "24 \<le> n" for n
    using that assms by (simp add: bit_le_word_beyond)
  ultimately show "b = b' \<and> le_word bs = le_word bs'"
    by (metis bit_eq_iff bit_u8_beyond linorder_not_less)
qed simp

lemma le_word_inject:
  "length bs = length bs' \<Longrightarrow> length bs' \<le> 4 \<Longrightarrow> le_word bs = le_word bs' \<longleftrightarrow> bs = bs'"
proof (induction bs bs' rule: list_induct2)
  case Nil
  then show ?case by simp
next
  case (Cons b bs b' bs')
  then show ?case
    by (simp only: le_word_Cons_inject length_Cons) simp
qed

lemma bl_crc32_burst:
  assumes "length ds = length es" and "length es \<le> 4" and "ds \<noteq> es"
  shows "bl_crc32 crc (xs @ ds @ ys) \<noteq> bl_crc32 crc (xs @ es @ ys)"
proof
  let ?c = "foldl crc_byte (NOT crc) xs"
  assume "bl_crc32 crc (xs @ ds @ ys) = bl_crc32 crc (xs @ es @ ys)"
  then have "foldl crc_byte ?c ds = foldl crc_byte ?c es"
    by (simp add: bl_crc32_def foldl_crc_byte_inject_state)
  then have "?c XOR le_word ds = ?c XOR le_word es"
    using assms by (simp add: foldl_crc_byte_le_word crc_bits_inject)
  then have "le_word ds = le_word es"
    by (auto simp: bit_eq_iff bit_xor_iff)
  with assms show False by (simp add: le_word_inject)
qed

text \<open>A message followed by its own checksum leaves a constant in the register.\<close>

lemma le_word_put_u32_le: "le_word (put_u32_le w) = w"
proof (rule bit_word_eqI)
  fix n assume "n < LENGTH(32)"
  then show "bit (le_word (put_u32_le w)) n = bit w n"
    by (simp add: put_u32_le_def bit_xor_iff bit_push_bit_word bit_unsigned_iff bit_drop_bit_eq)
      (cases "n < 8"; cases "n < 16"; cases "n < 24"; auto)
qed

lemma foldl_crc_byte_residue: "foldl crc_byte c (put_u32_le (NOT c)) = crc_bits 32 (- 1)"
proof -
  have "foldl crc_byte c (put_u32_le (NOT c)) = crc_bits 32 (c XOR NOT c)"
    using foldl_crc_byte_le_word [of "put_u32_le (NOT c)" c] by (simp add: le_word_put_u32_le)
  also have "c XOR NOT c = - 1" by (simp add: bit_eq_iff bit_simps)
  finally show ?thesis .
qed

lemma bl_crc32_residue: "bl_crc32 0 (xs @ put_u32_le (bl_crc32 0 xs)) = bl_crc32 0 (ys @ put_u32_le (bl_crc32 0 ys))"
  by (simp add: bl_crc32_def foldl_crc_byte_residue)

section \<open>CRC-32/ISO-HDLC\<close>

text \<open>
  The catalogue algorithm: a most-significant-bit-first shift register over the
  polynomial \<open>0x04C11DB7\<close>, initialised to all ones, fed with reflected message bytes;
  the register is reflected and complemented at the end.
\<close>

definition reflect :: "'a :: len word \<Rightarrow> 'a word" where
  "reflect w = horner_sum of_bool 2 (map (\<lambda>n. bit w (LENGTH('a) - Suc n)) [0..<LENGTH('a)])"

definition iso_hdlc_bit :: "u32 \<Rightarrow> u32" where
  "iso_hdlc_bit r = (if bit r 31 then push_bit 1 r XOR 0x04C11DB7 else push_bit 1 r)"

definition iso_hdlc_byte :: "u32 \<Rightarrow> u8 \<Rightarrow> u32" where
  "iso_hdlc_byte r b = (iso_hdlc_bit ^^ 8) (r XOR push_bit 24 (ucast (reflect b)))"

definition crc32_iso_hdlc :: "u8 list \<Rightarrow> u32" where
  "crc32_iso_hdlc data = reflect (foldl iso_hdlc_byte 0xFFFFFFFF data) XOR 0xFFFFFFFF"

lemma bit_reflect: "bit (reflect w) n \<longleftrightarrow> n < LENGTH('a) \<and> bit w (LENGTH('a) - Suc n)"
  for w :: "'a :: len word"
  by (auto simp: reflect_def bit_horner_sum_bit_word_iff)

lemma reflect_reflect [simp]: "reflect (reflect w) = w"
  by (rule bit_word_eqI) (simp add: bit_reflect)

lemma reflect_xor: "reflect (a XOR b) = reflect a XOR reflect b"
  by (rule bit_word_eqI) (auto simp: bit_reflect bit_xor_iff)

lemma reflect_ucast_u8: "reflect (ucast b :: u32) = push_bit 24 (ucast (reflect b))" for b :: u8
proof (rule bit_word_eqI)
  fix n
  assume n: "n < LENGTH(32)"
  show "bit (reflect (ucast b :: u32)) n \<longleftrightarrow> bit (push_bit 24 (ucast (reflect b)) :: u32) n"
  proof (cases "24 \<le> n")
    case True
    with n have "7 - (n - 24) = 31 - n" by simp
    with True n show ?thesis by (auto simp: bit_reflect bit_simps)
  next
    case False
    then show ?thesis by (simp add: bit_reflect bit_simps)
  qed
qed

lemma reflect_polynomial: "reflect (0xEDB88320 :: u32) = 0x04C11DB7"
  by (simp add: reflect_def upt_conv_Cons)

lemma bit_iso_hdlc_bit:
  "n < 32 \<Longrightarrow> bit (iso_hdlc_bit r) n \<longleftrightarrow>
     ((n \<noteq> 0 \<and> bit r (n - 1)) \<noteq> (bit r 31 \<and> bit (0x04C11DB7 :: u32) n))"
  unfolding iso_hdlc_bit_def
  by (simp add: bit_xor_iff bit_push_bit_word del: push_bit_Suc bit_numeral_word_iff) auto

lemma reflect_crc_bit: "reflect (crc_bit c) = iso_hdlc_bit (reflect c)"
proof (rule bit_word_eqI)
  fix n
  assume n: "n < LENGTH(32)"
  have "bit (0xEDB88320 :: u32) (31 - n) \<longleftrightarrow> bit (0x04C11DB7 :: u32) n"
    using arg_cong [OF reflect_polynomial, of "\<lambda>w. bit w n"] n by (simp only: bit_reflect) simp
  moreover have "bit c (Suc (31 - n)) \<longleftrightarrow> n \<noteq> 0 \<and> bit (reflect c) (n - 1)"
    using n bit_imp_le_length [of c 32] by (cases n) (auto simp: bit_reflect Suc_diff_le [symmetric])
  moreover have "bit (reflect c) 31 \<longleftrightarrow> bit c 0"
    by (simp add: bit_reflect)
  moreover have "bit (reflect (crc_bit c)) n \<longleftrightarrow> bit (crc_bit c) (31 - n)"
    using n by (simp add: bit_reflect)
  ultimately show "bit (reflect (crc_bit c)) n \<longleftrightarrow> bit (iso_hdlc_bit (reflect c)) n"
    using n by (simp only: bit_crc_bit bit_iso_hdlc_bit len_num1 len_bit0 len_bit1)
qed

lemma reflect_crc_bits: "reflect (crc_bits n c) = (iso_hdlc_bit ^^ n) (reflect c)"
  by (induction n arbitrary: c) (simp_all add: reflect_crc_bit funpow_swap1)

lemma reflect_crc_byte: "reflect (crc_byte c b) = iso_hdlc_byte (reflect c) b"
  by (simp only: crc_byte_def iso_hdlc_byte_def reflect_crc_bits reflect_xor reflect_ucast_u8)

lemma reflect_foldl_crc_byte: "reflect (foldl crc_byte c xs) = foldl iso_hdlc_byte (reflect c) xs"
  by (induction xs arbitrary: c) (simp_all add: reflect_crc_byte)

lemma bl_crc32_iso_hdlc: "bl_crc32 0 xs = crc32_iso_hdlc xs"
proof -
  have r1: "reflect (- 1 :: u32) = - 1" by (rule bit_word_eqI) (simp add: bit_reflect)
  have "reflect (foldl crc_byte (- 1) xs) = foldl iso_hdlc_byte (- 1) xs"
    by (simp only: reflect_foldl_crc_byte r1)
  then have "foldl crc_byte (- 1) xs = reflect (foldl iso_hdlc_byte (- 1) xs)" by (metis reflect_reflect)
  moreover have "(0xFFFFFFFF :: u32) = - 1" by simp
  ultimately show ?thesis by (simp only: bl_crc32_def crc32_iso_hdlc_def) simp
qed

section \<open>Correctness of the checksum\<close>

text \<open>
  C31. The bitwise routine computes CRC-32/ISO-HDLC as the catalogue defines it (most
  significant bit first over \<open>0x04C11DB7\<close>, reflected in and out, complemented), for
  every message; the catalogue's check value is what it returns on the digits 1 to 9.
\<close>

theorem crc32_is_iso_hdlc:
  "bl_crc32 0 xs = crc32_iso_hdlc xs \<and>
   bl_crc32 0 [0x31, 0x32, 0x33, 0x34, 0x35, 0x36, 0x37, 0x38, 0x39] = 0xCBF43926"
proof (rule conjI [OF bl_crc32_iso_hdlc])
  show "bl_crc32 0 [0x31, 0x32, 0x33, 0x34, 0x35, 0x36, 0x37, 0x38, 0x39] = 0xCBF43926"
    by code_simp
qed

text \<open>
  C32. Error detection: changing any one to four consecutive bytes of a message of any
  length changes its checksum, from any running value.
\<close>

theorem crc32_detects_bursts:
  assumes "length ds = length es" and "length es \<le> 4" and "ds \<noteq> es"
  shows "bl_crc32 crc (xs @ ds @ ys) \<noteq> bl_crc32 crc (xs @ es @ ys)"
  using assms by (rule bl_crc32_burst)

theorem crc32_detects_bursts_witness:
  "bl_crc32 0 ([1, 2] @ [0, 0, 0, 0] @ [3]) \<noteq> bl_crc32 0 ([1, 2] @ [0xFF, 0, 0, 0x80] @ [3])"
  by (rule crc32_detects_bursts) simp_all

end
