(* ===== verification/Bl_Frame.thy ===== *)
theory Bl_Frame
  imports Bl_Proto Bl_Crc32 "HOL-Library.Sublist"
begin

text \<open>
  The framing layer, \<open>core/include/bl_frame.h\<close> and \<open>core/src/bl_frame.c\<close>: the
  incremental parser as a state machine over a record that mirrors
  \<open>bl_frame_parser_t\<close>, and the encoder writing into a caller-supplied buffer.

  \<open>frame_bytes\<close> is the frame format itself. The lemmas relate the parser's state to
  the bytes consumed since the start-of-frame marker (\<open>frame_consumed\<close>), from which
  follow that the parser accepts exactly the frames of the format and that it never
  indexes outside its payload buffer.
\<close>

section \<open>Data\<close>

datatype bl_frame_status = BL_FRAME_INCOMPLETE | BL_FRAME_COMPLETE | BL_FRAME_ERROR

datatype bl_frame_state =
  BL_FRAME_WAIT_SOF | BL_FRAME_CMD | BL_FRAME_LEN | BL_FRAME_PAYLOAD | BL_FRAME_CRC

record bl_frame =
  frame_cmd :: u8
  frame_len :: u16
  frame_payload :: "u8 list"

record bl_frame_parser =
  byte_count :: u16
  running_crc :: u32
  received_crc :: u32
  parser_state :: bl_frame_state
  parser_frame :: bl_frame

text \<open>A parser in static storage, before \<open>bl_frame_parser_init\<close>.\<close>

definition parser_zero :: bl_frame_parser where
  "parser_zero = \<lparr>byte_count = 0, running_crc = 0, received_crc = 0, parser_state = BL_FRAME_WAIT_SOF,
     parser_frame = \<lparr>frame_cmd = 0, frame_len = 0, frame_payload = replicate 512 0\<rparr>\<rparr>"

section \<open>The parser\<close>

definition bl_frame_parser_init :: "bl_frame_parser \<Rightarrow> bl_frame_parser" where
  "bl_frame_parser_init p =
     p\<lparr>parser_state := BL_FRAME_WAIT_SOF,
       byte_count := 0,
       received_crc := 0,
       running_crc := 0,
       parser_frame := (parser_frame p)\<lparr>frame_len := 0\<rparr>\<rparr>"

definition bl_frame_feed :: "bl_frame_parser \<Rightarrow> u8 \<Rightarrow> bl_frame_status \<times> bl_frame_parser" where
  "bl_frame_feed p byte =
     (case parser_state p of
        BL_FRAME_WAIT_SOF \<Rightarrow>
          if byte = BL_SOF
          then (BL_FRAME_INCOMPLETE,
                p\<lparr>parser_state := BL_FRAME_CMD,
                  byte_count := 0,
                  parser_frame := (parser_frame p)\<lparr>frame_len := 0\<rparr>,
                  running_crc := 0,
                  received_crc := 0\<rparr>)
          else (BL_FRAME_INCOMPLETE, p)
      | BL_FRAME_CMD \<Rightarrow>
          (BL_FRAME_INCOMPLETE,
           p\<lparr>parser_frame := (parser_frame p)\<lparr>frame_cmd := byte\<rparr>,
             running_crc := bl_crc32 (running_crc p) [byte],
             parser_state := BL_FRAME_LEN\<rparr>)
      | BL_FRAME_LEN \<Rightarrow>
          let p = p\<lparr>running_crc := bl_crc32 (running_crc p) [byte]\<rparr> in
          if byte_count p = 0
          then (BL_FRAME_INCOMPLETE,
                p\<lparr>parser_frame := (parser_frame p)\<lparr>frame_len := ucast byte\<rparr>,
                  byte_count := byte_count p + 1\<rparr>)
          else
            let len = frame_len (parser_frame p) OR push_bit 8 (ucast byte);
                p = p\<lparr>parser_frame := (parser_frame p)\<lparr>frame_len := len\<rparr>\<rparr> in
            if len > BL_MAX_PAYLOAD
            then (BL_FRAME_ERROR, bl_frame_parser_init p)
            else (BL_FRAME_INCOMPLETE,
                  p\<lparr>byte_count := 0,
                    parser_state := (if len = 0 then BL_FRAME_CRC else BL_FRAME_PAYLOAD)\<rparr>)
      | BL_FRAME_PAYLOAD \<Rightarrow>
          let f = parser_frame p;
              p = p\<lparr>running_crc := bl_crc32 (running_crc p) [byte],
                    parser_frame := f\<lparr>frame_payload :=
                      (frame_payload f)[unat (byte_count p) := byte]\<rparr>,
                    byte_count := byte_count p + 1\<rparr> in
          if byte_count p = frame_len f
          then (BL_FRAME_INCOMPLETE, p\<lparr>parser_state := BL_FRAME_CRC, byte_count := 0\<rparr>)
          else (BL_FRAME_INCOMPLETE, p)
      | BL_FRAME_CRC \<Rightarrow>
          let p = p\<lparr>received_crc :=
                      received_crc p OR push_bit (8 * unat (byte_count p)) (ucast byte),
                    byte_count := byte_count p + 1\<rparr> in
          if byte_count p = 4
          then if running_crc p = received_crc p
               then (BL_FRAME_COMPLETE, p\<lparr>parser_state := BL_FRAME_WAIT_SOF, byte_count := 0\<rparr>)
               else (BL_FRAME_ERROR, bl_frame_parser_init p)
          else (BL_FRAME_INCOMPLETE, p))"

text \<open>Feeding a byte sequence: the statuses of the single calls and the final state.\<close>

primrec feed_all :: "bl_frame_parser \<Rightarrow> u8 list \<Rightarrow> bl_frame_status list \<times> bl_frame_parser" where
  "feed_all p [] = ([], p)"
| "feed_all p (b # bs) =
     (case bl_frame_feed p b of (st, p1) \<Rightarrow> case feed_all p1 bs of (sts, p2) \<Rightarrow> (st # sts, p2))"

section \<open>The encoder\<close>

text \<open>
  \<open>out\<close> is the caller's buffer, \<open>out_size\<close> the capacity the caller states; \<open>payload\<close> is
  \<open>None\<close> for the null pointer. The result is the returned count and the buffer after
  the call. The sum \<open>len + 8\<close> is computed in \<open>int\<close> from a 16-bit value, so a \<open>nat\<close>
  stands for it and for \<open>size_t\<close>.
\<close>

definition bl_frame_encode ::
    "u8 \<Rightarrow> u8 list option \<Rightarrow> u16 \<Rightarrow> u8 list \<Rightarrow> nat \<Rightarrow> nat \<times> u8 list" where
  "bl_frame_encode cmd payload len out out_size =
     (if len > BL_MAX_PAYLOAD then (0, out)
      else if unat len + 8 > out_size then (0, out)
      else if payload = None \<and> len \<noteq> 0 then (0, out)
      else
        let n = unat len;
            out = out[0 := BL_SOF];
            out = out[1 := cmd];
            out = out[2 := ucast (len AND 0xFF)];
            out = out[3 := ucast (drop_bit 8 len AND 0xFF)];
            out = (if len > 0 then memcpy_at out 4 (the payload) n else out);
            crc = bl_crc32 0 (take (n + 3) (drop 1 out));
            out = out[4 + n := ucast (crc AND 0xFF)];
            out = out[5 + n := ucast (drop_bit 8 crc AND 0xFF)];
            out = out[6 + n := ucast (drop_bit 16 crc AND 0xFF)];
            out = out[7 + n := ucast (drop_bit 24 crc AND 0xFF)]
        in (8 + n, out))"

section \<open>The frame format\<close>

text \<open>\<open>SOF | CMD | LEN[0] | LEN[1] | PAYLOAD | CRC[0..3]\<close>, the checksum over command, length and payload.\<close>

definition frame_body :: "u8 \<Rightarrow> u8 list \<Rightarrow> u8 list" where
  "frame_body cmd payload = cmd # put_u16_le (of_nat (length payload)) @ payload"

definition frame_bytes :: "u8 \<Rightarrow> u8 list \<Rightarrow> u8 list" where
  "frame_bytes cmd payload =
     BL_SOF # frame_body cmd payload @ put_u32_le (bl_crc32 0 (frame_body cmd payload))"

lemma length_frame_bytes [simp]: "length (frame_bytes cmd payload) = 8 + length payload"
  by (simp add: frame_bytes_def frame_body_def)

lemma unat_of_nat_payload [simp]: "n \<le> 512 \<Longrightarrow> unat (of_nat n :: u16) = n"
  by (simp add: unat_of_nat)

lemma length_8_split:
  assumes "8 + n \<le> length xs"
  obtains a b c d mid e f g h rest
  where "xs = [a, b, c, d] @ mid @ [e, f, g, h] @ rest" and "length mid = n"
proof -
  have "xs = take 4 xs @ take n (drop 4 xs) @ take 4 (drop (4 + n) xs) @ drop (8 + n) xs"
    using take_append_take_drop [of 4 "4 + n" xs] take_append_take_drop [of n 4 xs]
      take_append_take_drop [of 4 0 xs] by (simp add: add.commute add.left_commute)
  moreover have "length (take 4 xs) = 4" "length (take 4 (drop (4 + n) xs)) = 4"
      "length (take n (drop 4 xs)) = n"
    using assms by simp_all
  ultimately show ?thesis
    using that length_4_list by metis
qed

lemma bl_frame_encode_ok:
  assumes len: "length pl = unat len" "unat len \<le> 512"
    and size: "unat len + 8 \<le> out_size" "out_size \<le> length out"
  shows "bl_frame_encode cmd (Some pl) len out out_size =
         (8 + unat len, frame_bytes cmd pl @ drop (8 + unat len) out)"
proof -
  from size have "8 + unat len \<le> length out" by simp
  then obtain a b c d mid e f g h rest where
    out: "out = [a, b, c, d] @ mid @ [e, f, g, h] @ rest" and mid: "length mid = unat len"
    by (rule length_8_split)
  have guard: "\<not> len > BL_MAX_PAYLOAD"
    using len(2) by (simp add: word_less_nat_alt)
  have nz: "len > 0 \<longleftrightarrow> pl \<noteq> []"
    by (simp add: word_less_nat_alt flip: len(1))
  let ?hd = "[BL_SOF, cmd, ucast (len AND 0xFF), ucast (drop_bit 8 len AND 0xFF)]"
  have hd: "out[0 := BL_SOF, 1 := cmd, 2 := ucast (len AND 0xFF),
      3 := ucast (drop_bit 8 len AND 0xFF)] = ?hd @ mid @ [e, f, g, h] @ rest"
    by (simp add: out numeral_eq_Suc)
  have cp: "(if len > 0 then memcpy_at (?hd @ mid @ [e, f, g, h] @ rest) 4 pl (unat len)
      else ?hd @ mid @ [e, f, g, h] @ rest) = (?hd @ pl) @ e # f # g # h # rest"
    using mid len(1) nz by (auto simp: memcpy_at_def numeral_eq_Suc)
  have body: "take (unat len + 3) (drop 1 ((?hd @ pl) @ e # f # g # h # rest)) = frame_body cmd pl"
    using len(1) by (simp add: frame_body_def put_u16_le_def numeral_eq_Suc)
  have upd: "((?hd @ pl) @ e # f # g # h # rest)
      [4 + unat len := v0, 5 + unat len := v1, 6 + unat len := v2, 7 + unat len := v3] =
      ?hd @ pl @ v0 # v1 # v2 # v3 # rest" for v0 v1 v2 v3
    using len(1) by (simp add: list_update_append numeral_eq_Suc)
  have "bl_frame_encode cmd (Some pl) len out out_size =
      (8 + unat len, ?hd @ pl @ put_u32_le (bl_crc32 0 (frame_body cmd pl)) @ rest)"
    using guard size(1) unfolding bl_frame_encode_def Let_def option.sel hd cp body upd put_u32_le_def
    by simp
  also have "\<dots> = (8 + unat len, frame_bytes cmd pl @ drop (8 + unat len) out)"
    using len mid by (simp add: out frame_bytes_def frame_body_def put_u16_le_def numeral_eq_Suc)
  finally show ?thesis .
qed

section \<open>What the parser has consumed\<close>

text \<open>The bytes from the start-of-frame marker up to now, read off the parser's state.\<close>

definition frame_consumed :: "bl_frame_parser \<Rightarrow> u8 list" where
  "frame_consumed p =
     (let f = parser_frame p;
          hdr = BL_SOF # frame_cmd f # put_u16_le (frame_len f) in
      case parser_state p of
        BL_FRAME_WAIT_SOF \<Rightarrow> []
      | BL_FRAME_CMD \<Rightarrow> [BL_SOF]
      | BL_FRAME_LEN \<Rightarrow>
          BL_SOF # frame_cmd f # (if byte_count p = 0 then [] else [ucast (frame_len f)])
      | BL_FRAME_PAYLOAD \<Rightarrow> hdr @ take (unat (byte_count p)) (frame_payload f)
      | BL_FRAME_CRC \<Rightarrow> hdr @ take (unat (frame_len f)) (frame_payload f)
                          @ take (unat (byte_count p)) (put_u32_le (received_crc p)))"

text \<open>The parser's invariant; \<open>frame_payload\<close> is an array of \<open>BL_MAX_PAYLOAD\<close> bytes.\<close>

definition parser_inv :: "bl_frame_parser \<Rightarrow> bool" where
  "parser_inv p \<longleftrightarrow>
     length (frame_payload (parser_frame p)) = 512 \<and>
     (let n = byte_count p; f = parser_frame p; len = frame_len f in
      case parser_state p of
        BL_FRAME_WAIT_SOF \<Rightarrow> True
      | BL_FRAME_CMD \<Rightarrow> n = 0 \<and> running_crc p = 0 \<and> received_crc p = 0
      | BL_FRAME_LEN \<Rightarrow>
          received_crc p = 0 \<and> (n = 0 \<or> n = 1 \<and> len = ucast (ucast len :: u8)) \<and>
          running_crc p = bl_crc32 0 (tl (frame_consumed p))
      | BL_FRAME_PAYLOAD \<Rightarrow>
          received_crc p = 0 \<and> n < len \<and> len \<le> 512 \<and>
          running_crc p = bl_crc32 0 (tl (frame_consumed p))
      | BL_FRAME_CRC \<Rightarrow>
          n < 4 \<and> len \<le> 512 \<and>
          running_crc p = bl_crc32 0 (frame_body (frame_cmd f) (take (unat len) (frame_payload f))) \<and>
          received_crc p = take_bit (8 * unat n) (received_crc p))"

lemma parser_inv_init [intro]:
  "length (frame_payload (parser_frame p)) = 512 \<Longrightarrow> parser_inv (bl_frame_parser_init p)"
  by (simp add: parser_inv_def bl_frame_parser_init_def)

lemma u16_less_4_cases:
  assumes "n < (4 :: u16)"
  obtains "n = 0" | "n = 1" | "n = 2" | "n = 3"
proof -
  have "unat n < 4" using assms by (simp add: word_less_nat_alt)
  then have "unat n = 0 \<or> unat n = 1 \<or> unat n = 2 \<or> unat n = 3" by auto
  then have "n = 0 \<or> n = 1 \<or> n = 2 \<or> n = 3"
    by (auto simp: unat_eq_0 dest!: arg_cong [of _ _ "of_nat :: nat \<Rightarrow> u16"])
  then show ?thesis using that by blast
qed

text \<open>The checksum accumulates from its low byte upwards.\<close>

lemma ucast_or_push_bit:
  "k \<le> 24 \<Longrightarrow> ucast (drop_bit k (w OR push_bit k (ucast b :: u32))) =
     (ucast (drop_bit k w) OR b :: u8)"
  by (rule bit_word_eqI) (auto simp: bit_simps)

lemma ucast_or_push_bit_low:
  "j + 8 \<le> k \<Longrightarrow> ucast (drop_bit j (w OR push_bit k (ucast b :: u32))) = (ucast (drop_bit j w) :: u8)"
  by (rule bit_word_eqI) (auto simp: bit_simps)

lemma ucast_drop_bit_take_bit: "(ucast (drop_bit k (take_bit k w)) :: u8) = 0" for w :: u32
  by (simp add: drop_bit_take_bit)

lemma take_put_u32_le_accumulate:
  assumes "n < (4 :: u16)" and "w = take_bit (8 * unat n) w"
  shows "take (unat (n + 1)) (put_u32_le (w OR push_bit (8 * unat n) (ucast b))) =
         take (unat n) (put_u32_le w) @ [b]"
  using assms(1)
proof (cases rule: u16_less_4_cases)
  case 1
  with assms(2) show ?thesis using ucast_or_push_bit [of 0 w b] by (simp add: put_u32_le_def)
next
  case 2
  with assms(2) show ?thesis
    using ucast_or_push_bit [of 8 w b] ucast_or_push_bit_low [of 0 8 w b]
      ucast_drop_bit_take_bit [of 8 w]
    by (simp add: put_u32_le_def)
next
  case 3
  with assms(2) show ?thesis
    using ucast_or_push_bit [of 16 w b] ucast_or_push_bit_low [of 0 16 w b]
      ucast_or_push_bit_low [of 8 16 w b] ucast_drop_bit_take_bit [of 16 w]
    by (simp add: put_u32_le_def)
next
  case 4
  with assms(2) show ?thesis
    using ucast_or_push_bit [of 24 w b] ucast_or_push_bit_low [of 0 24 w b]
      ucast_or_push_bit_low [of 8 24 w b] ucast_or_push_bit_low [of 16 24 w b]
      ucast_drop_bit_take_bit [of 24 w]
    by (simp add: put_u32_le_def)
qed

section \<open>One byte at a time\<close>

lemma feed_wait_sof:
  assumes "parser_inv p" and "parser_state p = BL_FRAME_WAIT_SOF"
  obtains p' where "bl_frame_feed p b = (BL_FRAME_INCOMPLETE, p')" and "parser_inv p'"
    and "parser_state p' = (if b = BL_SOF then BL_FRAME_CMD else BL_FRAME_WAIT_SOF)"
    and "frame_consumed p' = (if b = BL_SOF then [BL_SOF] else [])"
  using assms
  by (cases "b = BL_SOF") (auto simp: bl_frame_feed_def parser_inv_def frame_consumed_def)

lemma feed_cmd:
  assumes "parser_inv p" and "parser_state p = BL_FRAME_CMD"
  obtains p' where "bl_frame_feed p b = (BL_FRAME_INCOMPLETE, p')" and "parser_inv p'"
    and "parser_state p' = BL_FRAME_LEN" and "frame_consumed p' = frame_consumed p @ [b]"
  using assms by (auto simp: bl_frame_feed_def parser_inv_def frame_consumed_def Let_def)

lemma ucast_ucast_u8 [simp]: "(ucast (ucast b :: u16) :: u8) = b" for b :: u8
  by (rule bit_word_eqI) (simp add: bit_simps)

lemma feed_len_low:
  assumes "parser_inv p" and "parser_state p = BL_FRAME_LEN" and "byte_count p = 0"
  obtains p' where "bl_frame_feed p b = (BL_FRAME_INCOMPLETE, p')" and "parser_inv p'"
    and "parser_state p' = BL_FRAME_LEN" and "frame_consumed p' = frame_consumed p @ [b]"
  using assms
  by (auto simp: bl_frame_feed_def parser_inv_def frame_consumed_def Let_def bl_crc32_append)

lemma get_u16_le_pair:
  "l = ucast (ucast l :: u8) \<Longrightarrow> l OR push_bit 8 (ucast b) = get_u16_le [ucast l, b]"
  by (simp add: get_u16_le_def)

lemma feed_len_high:
  fixes b :: u8
  assumes inv: "parser_inv p" and st: "parser_state p = BL_FRAME_LEN" and n: "byte_count p \<noteq> 0"
  defines "len \<equiv> get_u16_le [ucast (frame_len (parser_frame p)), b]"
  shows "len > 512 \<Longrightarrow> \<exists>p'. bl_frame_feed p b = (BL_FRAME_ERROR, p') \<and> parser_inv p' \<and>
      parser_state p' = BL_FRAME_WAIT_SOF"
    and "len \<le> 512 \<Longrightarrow> \<exists>p'. bl_frame_feed p b = (BL_FRAME_INCOMPLETE, p') \<and> parser_inv p' \<and>
      parser_state p' = (if len = 0 then BL_FRAME_CRC else BL_FRAME_PAYLOAD) \<and>
      frame_consumed p' = frame_consumed p @ [b]"
proof -
  let ?l = "frame_len (parser_frame p)"
  have l: "?l = ucast (ucast ?l :: u8)"
    and crc: "running_crc p = bl_crc32 0 [frame_cmd (parser_frame p), ucast ?l]"
    using inv st n by (auto simp: parser_inv_def Let_def frame_consumed_def)
  have len: "?l OR push_bit 8 (ucast b) = len"
    unfolding len_def by (rule get_u16_le_pair [OF l])
  have put: "put_u16_le len = [ucast ?l, b]"
    by (simp add: len_def)
  show "len > 512 \<Longrightarrow> \<exists>p'. bl_frame_feed p b = (BL_FRAME_ERROR, p') \<and> parser_inv p' \<and>
      parser_state p' = BL_FRAME_WAIT_SOF"
    using inv st n by (simp add: bl_frame_feed_def Let_def len bl_frame_parser_init_def parser_inv_def)
  show "len \<le> 512 \<Longrightarrow> \<exists>p'. bl_frame_feed p b = (BL_FRAME_INCOMPLETE, p') \<and> parser_inv p' \<and>
      parser_state p' = (if len = 0 then BL_FRAME_CRC else BL_FRAME_PAYLOAD) \<and>
      frame_consumed p' = frame_consumed p @ [b]"
    using inv st n crc put
    by (auto simp: bl_frame_feed_def Let_def len parser_inv_def frame_consumed_def frame_body_def
        bl_crc32_append word_gt_0)
qed

lemma unat_less_512: "n < len \<Longrightarrow> len \<le> (512 :: u16) \<Longrightarrow> unat n < 512"
  by (simp add: word_less_nat_alt word_le_nat_alt)

lemma feed_payload:
  assumes inv: "parser_inv p" and st: "parser_state p = BL_FRAME_PAYLOAD"
  obtains p' where "bl_frame_feed p b = (BL_FRAME_INCOMPLETE, p')" and "parser_inv p'"
    and "parser_state p' = BL_FRAME_PAYLOAD \<or> parser_state p' = BL_FRAME_CRC"
    and "frame_consumed p' = frame_consumed p @ [b]"
    and "parser_frame p' = (parser_frame p)\<lparr>frame_payload :=
           (frame_payload (parser_frame p))[unat (byte_count p) := b]\<rparr>"
proof -
  let ?n = "byte_count p" and ?f = "parser_frame p"
  let ?p' = "snd (bl_frame_feed p b)"
  from inv st have n: "?n < frame_len ?f" "frame_len ?f \<le> 512"
    and l: "length (frame_payload ?f) = 512" and rc: "received_crc p = 0"
    and crc: "running_crc p = bl_crc32 0 (tl (frame_consumed p))"
    by (simp_all add: parser_inv_def Let_def)
  have n512: "unat ?n < 512" using n by (rule unat_less_512)
  have inc: "unat (?n + 1) = Suc (unat ?n)"
    using n512 by (simp add: unat_word_ariths)
  have tk: "take (Suc (unat ?n)) ((frame_payload ?f)[unat ?n := b]) =
      take (unat ?n) (frame_payload ?f) @ [b]"
    using n512 l by (simp add: take_Suc_conv_app_nth)
  have run: "bl_crc32 (running_crc p) [b] = bl_crc32 0 (tl (frame_consumed p) @ [b])"
    by (simp add: crc bl_crc32_append)
  have le: "?n + 1 \<noteq> frame_len ?f \<Longrightarrow> ?n + 1 < frame_len ?f"
    using n(1) inc by (simp add: word_less_nat_alt word_unat_eq_iff)
  have len_eq: "?n + 1 = frame_len ?f \<Longrightarrow> unat (frame_len ?f) = Suc (unat ?n)"
    using inc by simp
  have "bl_frame_feed p b = (BL_FRAME_INCOMPLETE, ?p')"
    using st by (simp add: bl_frame_feed_def Let_def)
  moreover have "parser_inv ?p' \<and> frame_consumed ?p' = frame_consumed p @ [b]"
  proof (cases "?n + 1 = frame_len ?f")
    case True
    have tk': "take (unat (frame_len ?f)) ((frame_payload ?f)[unat ?n := b]) =
        take (unat ?n) (frame_payload ?f) @ [b]"
      unfolding len_eq [OF True] by (rule tk)
    from True n512 have le_len: "min 512 (unat (frame_len ?f)) = unat (frame_len ?f)"
      using len_eq by simp
    show ?thesis
      using st True n(2) l rc run tk' le_len
      by (simp add: bl_frame_feed_def Let_def parser_inv_def frame_consumed_def frame_body_def
          del: take_update_cancel)
  next
    case False
    then show ?thesis
      using st n l rc run tk inc le
      by (simp add: bl_frame_feed_def Let_def parser_inv_def frame_consumed_def)
  qed
  moreover have "parser_state ?p' = BL_FRAME_PAYLOAD \<or> parser_state ?p' = BL_FRAME_CRC"
    "parser_frame ?p' = ?f\<lparr>frame_payload := (frame_payload ?f)[unat ?n := b]\<rparr>"
    using st by (auto simp: bl_frame_feed_def Let_def)
  ultimately show ?thesis using that by blast
qed

lemma feed_crc:
  fixes b :: u8
  assumes inv: "parser_inv p" and st: "parser_state p = BL_FRAME_CRC"
  defines "f \<equiv> parser_frame p" and "n \<equiv> byte_count p"
  defines "rc \<equiv> received_crc p OR push_bit (8 * unat n) (ucast b)"
  shows "n \<noteq> 3 \<Longrightarrow> \<exists>p'. bl_frame_feed p b = (BL_FRAME_INCOMPLETE, p') \<and> parser_inv p' \<and>
      parser_state p' = BL_FRAME_CRC \<and> frame_consumed p' = frame_consumed p @ [b]"
    and "n = 3 \<Longrightarrow> \<exists>p'. bl_frame_feed p b =
        (if running_crc p = rc then BL_FRAME_COMPLETE else BL_FRAME_ERROR, p') \<and> parser_inv p' \<and>
      parser_state p' = BL_FRAME_WAIT_SOF \<and>
      (running_crc p = rc \<longrightarrow> parser_frame p' = f)"
    and "n = 3 \<Longrightarrow> frame_consumed p @ [b] =
      BL_SOF # frame_cmd f # put_u16_le (frame_len f) @
      take (unat (frame_len f)) (frame_payload f) @ put_u32_le rc"
proof -
  from inv st have n4: "n < 4" and len: "frame_len f \<le> 512"
    and l: "length (frame_payload f) = 512"
    and tb: "received_crc p = take_bit (8 * unat n) (received_crc p)"
    and crc: "running_crc p =
        bl_crc32 0 (frame_body (frame_cmd f) (take (unat (frame_len f)) (frame_payload f)))"
    by (simp_all add: parser_inv_def Let_def f_def n_def)
  have acc: "take (unat (n + 1)) (put_u32_le rc) = take (unat n) (put_u32_le (received_crc p)) @ [b]"
    unfolding rc_def by (rule take_put_u32_le_accumulate [OF n4 tb])
  have rc_tb: "n \<noteq> 3 \<Longrightarrow> rc = take_bit (8 * unat (n + 1)) rc"
  proof -
    assume "n \<noteq> 3"
    with n4 have n1: "unat (n + 1) = Suc (unat n)"
      by (cases rule: u16_less_4_cases) simp_all
    have "\<not> bit (received_crc p) k" if "8 * unat n \<le> k" for k
      using that by (subst tb) (simp add: bit_take_bit_iff)
    then show ?thesis
      by (intro bit_word_eqI) (auto simp: n1 rc_def bit_simps)
  qed
  show "n \<noteq> 3 \<Longrightarrow> \<exists>p'. bl_frame_feed p b = (BL_FRAME_INCOMPLETE, p') \<and> parser_inv p' \<and>
      parser_state p' = BL_FRAME_CRC \<and> frame_consumed p' = frame_consumed p @ [b]"
  proof -
    assume n3: "n \<noteq> 3"
    with n4 have "n + 1 < 4" "n + 1 \<noteq> 4"
      by (cases rule: u16_less_4_cases, simp_all)+
    then show ?thesis
      using st len l crc acc rc_tb [OF n3]
      by (auto simp: bl_frame_feed_def Let_def parser_inv_def frame_consumed_def
          simp flip: n_def rc_def f_def)
  qed
  show "n = 3 \<Longrightarrow> \<exists>p'. bl_frame_feed p b =
        (if running_crc p = rc then BL_FRAME_COMPLETE else BL_FRAME_ERROR, p') \<and> parser_inv p' \<and>
      parser_state p' = BL_FRAME_WAIT_SOF \<and> (running_crc p = rc \<longrightarrow> parser_frame p' = f)"
    using st l by (auto simp: bl_frame_feed_def Let_def parser_inv_def bl_frame_parser_init_def
        rc_def f_def n_def)
  show "n = 3 \<Longrightarrow> frame_consumed p @ [b] =
      BL_SOF # frame_cmd f # put_u16_le (frame_len f) @
      take (unat (frame_len f)) (frame_payload f) @ put_u32_le rc"
    using st acc by (simp add: frame_consumed_def Let_def flip: n_def f_def)
qed

section \<open>The parser accepts exactly the frames\<close>

lemma frame_bytes_header:
  assumes "prefix (BL_SOF # c # l0 # l1 # xs) (frame_bytes cmd pl)"
  shows "c = cmd" and "[l0, l1] = put_u16_le (of_nat (length pl))"
    and "prefix xs (pl @ put_u32_le (bl_crc32 0 (frame_body cmd pl)))"
  using assms by (simp_all add: frame_bytes_def frame_body_def put_u16_le_def)

lemma prefix_same_length: "prefix xs ys \<Longrightarrow> length ys \<le> length xs \<Longrightarrow> xs = ys"
  by (auto simp: prefix_def)

lemma put_u16_le_inject [simp]: "put_u16_le a = put_u16_le b \<longleftrightarrow> a = b"
  by (metis get_put_u16_le)

lemma put_u32_le_inject [simp]: "put_u32_le a = put_u32_le b \<longleftrightarrow> a = b"
  by (metis get_put_u32_le)

text \<open>The outcome of feeding one byte, for every state of the parser.\<close>

definition feed_outcome :: "bl_frame_parser \<Rightarrow> u8 \<Rightarrow> bool" where
  "feed_outcome p b \<longleftrightarrow>
     (let (st, p') = bl_frame_feed p b; f = parser_frame p'; seen = frame_consumed p @ [b] in
      parser_inv p' \<and>
      (case st of
         BL_FRAME_INCOMPLETE \<Rightarrow>
           frame_consumed p' =
             (if parser_state p = BL_FRAME_WAIT_SOF \<and> b \<noteq> BL_SOF then [] else seen)
       | BL_FRAME_COMPLETE \<Rightarrow>
           parser_state p' = BL_FRAME_WAIT_SOF \<and> unat (frame_len f) \<le> 512 \<and>
           seen = frame_bytes (frame_cmd f) (take (unat (frame_len f)) (frame_payload f))
       | BL_FRAME_ERROR \<Rightarrow>
           parser_state p' = BL_FRAME_WAIT_SOF \<and>
           (\<nexists>cmd pl. length pl \<le> 512 \<and> prefix seen (frame_bytes cmd pl))))"

lemma feed_outcome_len_high:
  assumes inv: "parser_inv p" and st: "parser_state p = BL_FRAME_LEN" and n: "byte_count p \<noteq> 0"
  shows "feed_outcome p b"
proof -
  let ?l = "ucast (frame_len (parser_frame p))"
  let ?len = "get_u16_le [?l, b]"
  have seen: "frame_consumed p @ [b] = [BL_SOF, frame_cmd (parser_frame p), ?l, b]"
    using st n by (simp add: frame_consumed_def Let_def)
  show ?thesis
  proof (cases "?len \<le> 512")
    case True
    then show ?thesis
      using feed_len_high(2) [OF inv st n, of b] st by (auto simp: feed_outcome_def)
  next
    case False
    have "\<nexists>cmd pl. length pl \<le> 512 \<and> prefix [BL_SOF, frame_cmd (parser_frame p), ?l, b] (frame_bytes cmd pl)"
    proof clarify
      fix cmd and pl :: "u8 list"
      assume pl: "length pl \<le> 512"
        and pre: "prefix [BL_SOF, frame_cmd (parser_frame p), ?l, b] (frame_bytes cmd pl)"
      have "?len = of_nat (length pl)"
        using frame_bytes_header(2) [OF pre] by simp
      with pl False show "False" by (simp add: word_le_nat_alt)
    qed
    then show ?thesis
      using feed_len_high(1) [OF inv st n, of b] False seen by (auto simp: feed_outcome_def)
  qed
qed

lemma feed_outcome_crc:
  assumes inv: "parser_inv p" and st: "parser_state p = BL_FRAME_CRC"
  shows "feed_outcome p b"
proof (cases "byte_count p = 3")
  case False
  then show ?thesis
    using feed_crc(1) [OF inv st, of b] st by (auto simp: feed_outcome_def)
next
  case True
  let ?f = "parser_frame p"
  let ?pl = "take (unat (frame_len ?f)) (frame_payload ?f)"
  let ?rc = "received_crc p OR push_bit (8 * unat (byte_count p)) (ucast b)"
  have len: "unat (frame_len ?f) \<le> 512" and l: "length (frame_payload ?f) = 512"
    and crc: "running_crc p = bl_crc32 0 (frame_body (frame_cmd ?f) ?pl)"
    using inv st by (simp_all add: parser_inv_def Let_def word_le_nat_alt)
  note seen = feed_crc(3) [OF inv st True]
  have whole: "frame_bytes (frame_cmd ?f) ?pl =
      BL_SOF # frame_cmd ?f # put_u16_le (frame_len ?f) @ ?pl @ put_u32_le (running_crc p)"
    using len l by (simp add: crc frame_bytes_def frame_body_def)
  obtain p' where p': "bl_frame_feed p b =
      (if running_crc p = ?rc then BL_FRAME_COMPLETE else BL_FRAME_ERROR, p')" "parser_inv p'"
      "parser_state p' = BL_FRAME_WAIT_SOF" "running_crc p = ?rc \<longrightarrow> parser_frame p' = ?f"
    using feed_crc(2) [OF inv st True, of b] by blast
  have "running_crc p = ?rc"
    if pre: "prefix (frame_consumed p @ [b]) (frame_bytes cmd pl)" and pl: "length pl \<le> 512" for cmd pl
  proof -
    have pre': "prefix (BL_SOF # frame_cmd ?f # ucast (frame_len ?f AND 0xFF) #
        ucast (drop_bit 8 (frame_len ?f) AND 0xFF) # ?pl @ put_u32_le ?rc) (frame_bytes cmd pl)"
      using pre unfolding seen by (simp add: put_u16_le_def)
    have "put_u16_le (frame_len ?f) = put_u16_le (of_nat (length pl))"
      using frame_bytes_header(2) [OF pre'] by (simp only: put_u16_le_def)
    then have n: "unat (frame_len ?f) = length pl" using pl by simp
    have "prefix (?pl @ put_u32_le ?rc) (pl @ put_u32_le (bl_crc32 0 (frame_body cmd pl)))"
      by (rule frame_bytes_header(3) [OF pre'])
    then have "?pl @ put_u32_le ?rc = pl @ put_u32_le (bl_crc32 0 (frame_body cmd pl))"
      by (rule prefix_same_length) (use n l pl in simp)
    then have "?pl = pl" "?rc = bl_crc32 0 (frame_body cmd pl)"
      using n l pl by simp_all
    then show ?thesis using crc frame_bytes_header(1) [OF pre'] by simp
  qed
  then show ?thesis
    using p' seen whole len by (auto simp: feed_outcome_def Let_def)
qed

lemma feed_outcome_always: "parser_inv p \<Longrightarrow> feed_outcome p b"
proof (cases "parser_state p")
  case BL_FRAME_WAIT_SOF
  assume inv: "parser_inv p"
  show ?thesis
    by (rule feed_wait_sof [OF inv BL_FRAME_WAIT_SOF, of b])
      (use BL_FRAME_WAIT_SOF in \<open>auto simp: feed_outcome_def frame_consumed_def\<close>)
next
  case BL_FRAME_CMD
  assume inv: "parser_inv p"
  show ?thesis
    by (rule feed_cmd [OF inv BL_FRAME_CMD, of b]) (use BL_FRAME_CMD in \<open>auto simp: feed_outcome_def\<close>)
next
  case BL_FRAME_LEN
  assume inv: "parser_inv p"
  show ?thesis
  proof (cases "byte_count p = 0")
    case True
    show ?thesis
      by (rule feed_len_low [OF inv BL_FRAME_LEN True, of b])
        (use BL_FRAME_LEN in \<open>auto simp: feed_outcome_def\<close>)
  qed (rule feed_outcome_len_high [OF inv BL_FRAME_LEN])
next
  case BL_FRAME_PAYLOAD
  assume inv: "parser_inv p"
  show ?thesis
    by (rule feed_payload [OF inv BL_FRAME_PAYLOAD, of b])
      (use BL_FRAME_PAYLOAD in \<open>auto simp: feed_outcome_def\<close>)
qed (rule feed_outcome_crc)

lemma parser_inv_feed: "parser_inv p \<Longrightarrow> parser_inv (snd (bl_frame_feed p b))"
  using feed_outcome_always [of p b] by (auto simp: feed_outcome_def Let_def split: prod.splits)

lemma frame_bytes_prefix_free:
  assumes "prefix (frame_bytes cmd pl) (frame_bytes cmd' pl')" and "length pl \<le> 512" "length pl' \<le> 512"
  shows "cmd = cmd' \<and> pl = pl'"
proof -
  have pre: "prefix (BL_SOF # cmd # ucast (of_nat (length pl) AND 0xFF :: u16) #
      ucast (drop_bit 8 (of_nat (length pl) :: u16) AND 0xFF) #
      pl @ put_u32_le (bl_crc32 0 (frame_body cmd pl))) (frame_bytes cmd' pl')"
    using assms(1) by (simp only: frame_bytes_def frame_body_def put_u16_le_def append_Cons append_Nil)
  have "put_u16_le (of_nat (length pl)) = put_u16_le (of_nat (length pl'))"
    using frame_bytes_header(2) [OF pre] by (simp only: put_u16_le_def)
  then have "unat (of_nat (length pl) :: u16) = unat (of_nat (length pl') :: u16)" by simp
  then have "length pl = length pl'" using assms(2,3) by simp
  with frame_bytes_header(3) [OF pre] have "pl = pl'"
    by (auto simp: prefix_def)
  with frame_bytes_header(1) [OF pre] show ?thesis by simp
qed

section \<open>Frame-shaped input with any checksum\<close>

text \<open>
  The parser on input that has the shape of a frame, whatever its last four bytes: it
  asks for more until the last byte, where the checksum decides.
\<close>

definition frame_shape :: "u8 \<Rightarrow> u8 list \<Rightarrow> u8 list \<Rightarrow> u8 list" where
  "frame_shape cmd pl crc = BL_SOF # frame_body cmd pl @ crc"

lemma frame_bytes_shape: "frame_bytes cmd pl = frame_shape cmd pl (put_u32_le (bl_crc32 0 (frame_body cmd pl)))"
  by (simp add: frame_bytes_def frame_shape_def)

lemma length_frame_shape [simp]: "length (frame_shape cmd pl crc) = 4 + length pl + length crc"
  by (simp add: frame_shape_def frame_body_def)

lemma frame_shape_header:
  assumes "prefix (BL_SOF # c # l0 # l1 # xs) (frame_shape cmd pl crc)"
  shows "c = cmd" and "[l0, l1] = put_u16_le (of_nat (length pl))" and "prefix xs (pl @ crc)"
  using assms by (simp_all add: frame_shape_def frame_body_def put_u16_le_def)

text \<open>What a parser in the payload or checksum phase has consumed, and how much is missing.\<close>

lemma consumed_late:
  assumes inv: "parser_inv p" and st: "parser_state p = BL_FRAME_PAYLOAD \<or> parser_state p = BL_FRAME_CRC"
    and pre: "prefix (frame_consumed p) (frame_shape cmd pl crc)" and pl: "length pl \<le> 512"
  shows "frame_len (parser_frame p) = of_nat (length pl)"
    and "length (frame_consumed p) = 4 + unat (byte_count p) + (if parser_state p = BL_FRAME_CRC then length pl else 0)"
proof -
  let ?f = "parser_frame p"
  from st obtain xs where xs: "frame_consumed p =
      BL_SOF # frame_cmd ?f # ucast (frame_len ?f AND 0xFF) # ucast (drop_bit 8 (frame_len ?f) AND 0xFF) # xs"
    by (auto simp: frame_consumed_def Let_def put_u16_le_def)
  have "put_u16_le (frame_len ?f) = put_u16_le (of_nat (length pl))"
    using frame_shape_header(2) [OF pre [unfolded xs]] by (simp only: put_u16_le_def)
  then show len: "frame_len ?f = of_nat (length pl)" by simp
  then have "unat (frame_len ?f) = length pl" using pl by simp
  with inv st pl show "length (frame_consumed p) =
      4 + unat (byte_count p) + (if parser_state p = BL_FRAME_CRC then length pl else 0)"
    by (auto simp: parser_inv_def frame_consumed_def Let_def word_less_nat_alt)
qed

lemma feed_error_state:
  assumes "bl_frame_feed p b = (BL_FRAME_ERROR, p')"
  shows "parser_state p = BL_FRAME_LEN \<or> parser_state p = BL_FRAME_CRC \<and> byte_count p + 1 = 4"
  using assms by (auto simp: bl_frame_feed_def Let_def split: bl_frame_state.splits if_splits)

lemma feed_frame_shape:
  assumes inv: "parser_inv p" and pl: "length pl \<le> 512" and crc: "length crc = 4"
    and seen: "frame_consumed p @ b # rest = frame_shape cmd pl crc"
  shows "fst (bl_frame_feed p b) =
    (if rest \<noteq> [] then BL_FRAME_INCOMPLETE
     else if crc = put_u32_le (bl_crc32 0 (frame_body cmd pl)) then BL_FRAME_COMPLETE
     else BL_FRAME_ERROR)"
proof -
  obtain st p' where feed: "bl_frame_feed p b = (st, p')" by (cases "bl_frame_feed p b")
  have pre: "prefix (frame_consumed p @ [b]) (frame_shape cmd pl crc)"
    unfolding seen [symmetric] by simp
  have len: "length (frame_consumed p) + 1 + length rest = 8 + length pl"
    using arg_cong [OF seen, of length] crc by simp
  have sof: "parser_state p = BL_FRAME_WAIT_SOF \<Longrightarrow> b = BL_SOF"
    using seen by (auto simp: frame_consumed_def frame_shape_def Let_def)
  note out = feed_outcome_always [OF inv, of b, unfolded feed_outcome_def feed Let_def prod.case]
  show ?thesis
  proof (cases st)
    case BL_FRAME_INCOMPLETE
    with out sof have c: "frame_consumed p' = frame_consumed p @ [b]" "parser_inv p'" by auto
    have "rest \<noteq> []"
    proof
      assume "rest = []"
      with len c have l: "length (frame_consumed p') = 8 + length pl" by simp
      then have s: "parser_state p' = BL_FRAME_PAYLOAD \<or> parser_state p' = BL_FRAME_CRC"
        by (cases "parser_state p'") (auto simp: frame_consumed_def Let_def split: if_splits)
      from consumed_late [OF c(2) s pre [folded c(1)] pl] l c(2) s pl show False
        by (auto simp: parser_inv_def Let_def word_less_nat_alt split: if_splits)
    qed
    then show ?thesis by (simp add: feed BL_FRAME_INCOMPLETE)
  next
    case BL_FRAME_COMPLETE
    let ?f = "parser_frame p'"
    let ?pl = "take (unat (frame_len ?f)) (frame_payload ?f)"
    from BL_FRAME_COMPLETE out have fr: "frame_consumed p @ [b] = frame_bytes (frame_cmd ?f) ?pl"
      and l: "unat (frame_len ?f) \<le> 512" "parser_inv p'" by auto
    have pl': "length ?pl = unat (frame_len ?f)" using l by (simp add: parser_inv_def)
    have eq: "prefix (frame_bytes (frame_cmd ?f) ?pl) (frame_shape cmd pl crc)" using pre fr by simp
    have "put_u16_le (of_nat (length ?pl)) = put_u16_le (of_nat (length pl))" "frame_cmd ?f = cmd"
      using frame_shape_header(1,2) [OF eq [unfolded frame_bytes_def frame_body_def put_u16_le_def append_Cons append_Nil]]
      by (simp_all only: put_u16_le_def)
    then have n: "length ?pl = length pl" using pl l pl' by (metis put_u16_le_inject unat_of_nat_payload)
    then have r: "rest = []" using len arg_cong [OF fr, of length] by simp
    with seen fr have "frame_bytes (frame_cmd ?f) ?pl = frame_shape cmd pl crc" by simp
    with n have "crc = put_u32_le (bl_crc32 0 (frame_body cmd pl))"
      by (auto simp: frame_bytes_shape frame_shape_def frame_body_def)
    then show ?thesis using r by (simp add: feed BL_FRAME_COMPLETE)
  next
    case BL_FRAME_ERROR
    with out pl have bad: "\<not> prefix (frame_consumed p @ [b]) (frame_bytes cmd pl)" by auto
    have "rest = []"
    proof -
      from feed_error_state [of p b p'] feed BL_FRAME_ERROR
      consider "parser_state p = BL_FRAME_LEN" | "parser_state p = BL_FRAME_CRC" "byte_count p + 1 = 4" by auto
      then show ?thesis
      proof cases
        case 1
        then have "length (frame_consumed p @ [b]) \<le> 4"
          by (auto simp: frame_consumed_def Let_def)
        then have "prefix (frame_consumed p @ [b]) (BL_SOF # frame_body cmd pl)"
          using pre by (intro prefix_length_prefix [OF pre]) (simp_all add: frame_shape_def frame_body_def)
        moreover have "frame_bytes cmd pl = (BL_SOF # frame_body cmd pl) @ put_u32_le (bl_crc32 0 (frame_body cmd pl))"
          by (simp add: frame_bytes_def)
        ultimately show ?thesis using bad prefix_prefix by metis
      next
        case 2
        from 2(2) have "byte_count p = 4 - 1" by (simp only: eq_diff_eq)
        then have "byte_count p = 3" by simp
        with consumed_late(2) [OF inv _ _ pl, of cmd crc] 2(1) len pre show ?thesis
          by (auto simp: prefix_def)
      qed
    qed
    moreover have "crc \<noteq> put_u32_le (bl_crc32 0 (frame_body cmd pl))"
      using bad pre by (auto simp: frame_bytes_shape)
    ultimately show ?thesis by (simp add: feed BL_FRAME_ERROR)
  qed
qed


lemma feed_all_frame_shape:
  assumes "parser_inv p" and "length pl \<le> 512" and "length crc = 4" and "rest \<noteq> []"
    and "frame_consumed p @ rest = frame_shape cmd pl crc"
  shows "\<exists>p'. feed_all p rest =
    (replicate (length rest - 1) BL_FRAME_INCOMPLETE @
      [if crc = put_u32_le (bl_crc32 0 (frame_body cmd pl)) then BL_FRAME_COMPLETE else BL_FRAME_ERROR], p') \<and>
    parser_inv p' \<and> parser_state p' = BL_FRAME_WAIT_SOF"
  using assms
proof (induction rest arbitrary: p)
  case (Cons b rest)
  obtain st p1 where feed: "bl_frame_feed p b = (st, p1)" by (cases "bl_frame_feed p b")
  have st: "st = (if rest \<noteq> [] then BL_FRAME_INCOMPLETE
     else if crc = put_u32_le (bl_crc32 0 (frame_body cmd pl)) then BL_FRAME_COMPLETE
     else BL_FRAME_ERROR)"
    using feed_frame_shape [OF Cons.prems(1-3,5)] feed by simp
  have sof: "parser_state p = BL_FRAME_WAIT_SOF \<Longrightarrow> b = BL_SOF"
    using Cons.prems(5) by (auto simp: frame_consumed_def frame_shape_def Let_def)
  note out = feed_outcome_always [OF Cons.prems(1), of b, unfolded feed_outcome_def feed Let_def prod.case]
  show ?case
  proof (cases "rest = []")
    case True
    with st out feed show ?thesis by (auto split: if_splits)
  next
    case False
    with st out sof have "parser_inv p1" "frame_consumed p1 = frame_consumed p @ [b]" by auto
    with False Cons.IH [of p1] Cons.prems show ?thesis by (cases rest) (auto simp: feed st)
  qed
qed simp

lemma feed_all_towards_frame:
  assumes "parser_inv p" and "length pl \<le> 512" and "rest \<noteq> []"
    and "frame_consumed p @ rest = frame_bytes cmd pl"
  shows "\<exists>p'. feed_all p rest = (replicate (length rest - 1) BL_FRAME_INCOMPLETE @ [BL_FRAME_COMPLETE], p') \<and>
           parser_inv p' \<and> parser_state p' = BL_FRAME_WAIT_SOF \<and>
           frame_cmd (parser_frame p') = cmd \<and> frame_len (parser_frame p') = of_nat (length pl) \<and>
           take (length pl) (frame_payload (parser_frame p')) = pl"
  using assms
proof (induction rest arbitrary: p)
  case Nil
  then show ?case by simp
next
  case (Cons b rest)
  obtain st p1 where feed: "bl_frame_feed p b = (st, p1)" by (cases "bl_frame_feed p b")
  have st: "st = (if rest = [] then BL_FRAME_COMPLETE else BL_FRAME_INCOMPLETE)"
    using feed_frame_shape [OF Cons.prems(1,2) _ Cons.prems(4) [unfolded frame_bytes_shape]] feed by simp
  have sof: "parser_state p = BL_FRAME_WAIT_SOF \<Longrightarrow> b = BL_SOF"
    using Cons.prems(4) by (auto simp: frame_consumed_def frame_bytes_def Let_def)
  note out = feed_outcome_always [OF Cons.prems(1), of b, unfolded feed_outcome_def feed Let_def prod.case]
  show ?case
  proof (cases "rest = []")
    case True
    let ?f = "parser_frame p1"
    let ?pl = "take (unat (frame_len ?f)) (frame_payload ?f)"
    from True st out have fin: "parser_inv p1" "parser_state p1 = BL_FRAME_WAIT_SOF"
      "unat (frame_len ?f) \<le> 512" "frame_consumed p @ [b] = frame_bytes (frame_cmd ?f) ?pl" by auto
    with True Cons.prems(4) have eq: "frame_bytes (frame_cmd ?f) ?pl = frame_bytes cmd pl" by simp
    then have "frame_cmd ?f = cmd \<and> ?pl = pl"
      using frame_bytes_prefix_free [of "frame_cmd ?f" ?pl cmd pl] fin(3) Cons.prems(2) by simp
    moreover have "unat (frame_len ?f) = length pl"
      using arg_cong [OF eq, of length] fin(1,3) by (simp add: parser_inv_def)
    moreover from this have "frame_len ?f = of_nat (length pl)"
      using Cons.prems(2) by (simp add: word_unat_eq_iff)
    ultimately show ?thesis using True st feed fin by simp
  next
    case False
    with st out sof have "parser_inv p1" "frame_consumed p1 = frame_consumed p @ [b]" by auto
    with False Cons.IH [of p1] Cons.prems show ?thesis
      by (cases rest) (auto simp: feed st)
  qed
qed

text \<open>Two frames never differ in a burst of at most four bytes.\<close>

lemma frame_burst_not_frame:
  assumes frame: "frame_bytes cmd pl = BL_SOF # xs @ ds @ ys"
    and burst: "length ds = length es" "length es \<le> 4" "ds \<noteq> es"
  shows "frame_bytes cmd' pl' \<noteq> BL_SOF # xs @ es @ ys"
proof
  assume other: "frame_bytes cmd' pl' = BL_SOF # xs @ es @ ys"
  have "bl_crc32 0 (xs @ ds @ ys) = bl_crc32 0 (xs @ es @ ys)"
    using frame other bl_crc32_residue [of "frame_body cmd pl" "frame_body cmd' pl'"]
    by (simp add: frame_bytes_def)
  with bl_crc32_burst [OF burst] show False by blast
qed

section \<open>Correctness of the framing layer\<close>

text \<open>
  C21. Round trip: what the encoder writes, fed byte by byte to an idle parser, is
  accepted at its last byte and at no earlier one, and the parser then holds the command
  and the payload that were encoded. The encoder needs payload plus eight bytes of room
  and returns exactly that length.
\<close>

theorem encode_then_parse:
  assumes "parser_inv p" and "parser_state p = BL_FRAME_WAIT_SOF" and "length pl \<le> 512"
    and "length pl + 8 \<le> room" and "room \<le> length buf"
  shows "\<exists>out p'. bl_frame_encode cmd (Some pl) (of_nat (length pl)) buf room = (length pl + 8, out) \<and>
    length out = length buf \<and> drop (length pl + 8) out = drop (length pl + 8) buf \<and>
    feed_all p (take (length pl + 8) out) =
      (replicate (length pl + 7) BL_FRAME_INCOMPLETE @ [BL_FRAME_COMPLETE], p') \<and>
    parser_inv p' \<and> parser_state p' = BL_FRAME_WAIT_SOF \<and>
    frame_cmd (parser_frame p') = cmd \<and> unat (frame_len (parser_frame p')) = length pl \<and>
    take (length pl) (frame_payload (parser_frame p')) = pl"
proof -
  let ?out = "frame_bytes cmd pl @ drop (8 + length pl) buf"
  have enc: "bl_frame_encode cmd (Some pl) (of_nat (length pl)) buf room = (8 + length pl, ?out)"
    using bl_frame_encode_ok [of pl "of_nat (length pl)" room buf cmd] assms by simp
  have ne: "frame_bytes cmd pl \<noteq> []" by (simp add: frame_bytes_def)
  have "frame_consumed p @ frame_bytes cmd pl = frame_bytes cmd pl"
    using assms(2) by (simp add: frame_consumed_def)
  from feed_all_towards_frame [OF assms(1,3) ne this] enc assms show ?thesis
    by (auto simp: add.commute)
qed

theorem encode_then_parse_witness:
  "\<exists>out p'. bl_frame_encode 3 (Some [7, 8]) 2 (replicate 16 0) 10 = (10, out) \<and>
     feed_all parser_zero (take 10 out) =
       (replicate 9 BL_FRAME_INCOMPLETE @ [BL_FRAME_COMPLETE], p') \<and>
     take 2 (frame_payload (parser_frame p')) = [7, 8]"
  using encode_then_parse [of parser_zero "[7, 8]" 10 "replicate 16 0" 3]
  by (auto simp: parser_zero_def parser_inv_def eval_nat_numeral(2-) numeral_2_eq_2)

text \<open>
  C22. Soundness of the parser in every reachable state: a byte completes a frame only if
  the bytes since the start marker are exactly an encoded frame, whose command and
  payload the parser then holds; it reports an error only if no frame starts with those
  bytes; the invariant is kept, so the next payload byte always lands inside the
  512-byte buffer.
\<close>

theorem parser_accepts_only_frames:
  assumes "parser_inv p" and "bl_frame_feed p b = (st, p')"
  shows "parser_inv p' \<and> (parser_state p' = BL_FRAME_PAYLOAD \<longrightarrow> unat (byte_count p') < 512) \<and>
    (st = BL_FRAME_COMPLETE \<longrightarrow>
       frame_consumed p @ [b] =
         frame_bytes (frame_cmd (parser_frame p'))
           (take (unat (frame_len (parser_frame p'))) (frame_payload (parser_frame p')))) \<and>
    (st = BL_FRAME_ERROR \<longrightarrow>
       (\<nexists>cmd pl. length pl \<le> 512 \<and> prefix (frame_consumed p @ [b]) (frame_bytes cmd pl)))"
proof -
  note out = feed_outcome_always [OF assms(1), of b, unfolded feed_outcome_def assms(2) Let_def prod.case]
  then have "parser_inv p'" by blast
  moreover from this have "parser_state p' = BL_FRAME_PAYLOAD \<longrightarrow> unat (byte_count p') < 512"
    by (auto simp: parser_inv_def Let_def intro: unat_less_512)
  ultimately show ?thesis using out by (cases st) auto
qed

theorem parser_accepts_only_frames_witness:
  "parser_inv (snd (bl_frame_feed parser_zero BL_SOF))"
  using parser_accepts_only_frames [of parser_zero BL_SOF] 
  by (cases "bl_frame_feed parser_zero BL_SOF") (auto simp: parser_zero_def parser_inv_def)

lemma burst_rejected:
  assumes "parser_inv p" and "parser_state p = BL_FRAME_WAIT_SOF"
    and "frame_bytes cmd pl = BL_SOF # xs @ ds @ ys" and "length pl \<le> 512"
    and "length ds = length es" and "length es \<le> 4" and "ds \<noteq> es"
    and "take 2 (drop 2 (BL_SOF # xs @ es @ ys)) = put_u16_le (of_nat (length pl))"
  shows "\<exists>p'. feed_all p (BL_SOF # xs @ es @ ys) =
      (replicate (length pl + 7) BL_FRAME_INCOMPLETE @ [BL_FRAME_ERROR], p') \<and>
    parser_inv p' \<and> parser_state p' = BL_FRAME_WAIT_SOF"
proof -
  define w where "w = xs @ es @ ys"
  have len: "length w = 7 + length pl"
    using arg_cong [OF assms(3), of length] assms(5) by (simp add: w_def)
  define cmd' pl' crc where "cmd' = w ! 0" and "pl' = take (length pl) (drop 3 w)" and "crc = drop (length pl) (drop 3 w)"
  have l: "length pl' = length pl" "length crc = 4" using len by (simp_all add: pl'_def crc_def)
  obtain a b c bs where bs: "w = a # b # c # bs"
    using len by (cases w; cases "tl w"; cases "tl (tl w)") auto
  have "put_u16_le (of_nat (length pl)) = [b, c]" using assms(8) by (simp add: bs w_def [symmetric])
  then have shape: "BL_SOF # w = frame_shape cmd' pl' crc"
    unfolding frame_shape_def frame_body_def l(1) by (simp add: bs cmd'_def pl'_def crc_def)
  then have "crc \<noteq> put_u32_le (bl_crc32 0 (frame_body cmd' pl'))"
    using frame_burst_not_frame [OF assms(3,5-7), of cmd' pl'] by (auto simp: frame_bytes_shape w_def)
  then show ?thesis
    using feed_all_frame_shape [of p pl' crc "BL_SOF # w" cmd'] assms(1,2,4) l len shape
    by (auto simp: frame_consumed_def w_def [symmetric])
qed

text \<open>
  C29. A frame damaged in transit is rejected: if one to four consecutive bytes of a
  frame change, outside the two length bytes, the parser asks for more input up to the
  last byte of the frame, reports an error there and is ready for the next frame.
\<close>

theorem damaged_frame_rejected:
  assumes "parser_inv p" and "parser_state p = BL_FRAME_WAIT_SOF"
    and "frame_bytes cmd pl = BL_SOF # xs @ ds @ ys" and "length pl \<le> 512"
    and "length ds = length es" and "length es \<le> 4" and "ds \<noteq> es"
    and "take 2 (drop 2 (BL_SOF # xs @ es @ ys)) = put_u16_le (of_nat (length pl))"
  shows "\<exists>p'. feed_all p (BL_SOF # xs @ es @ ys) =
      (replicate (length pl + 7) BL_FRAME_INCOMPLETE @ [BL_FRAME_ERROR], p') \<and>
    parser_inv p' \<and> parser_state p' = BL_FRAME_WAIT_SOF"
  by (rule burst_rejected [OF assms])

theorem damaged_frame_rejected_witness:
  "\<exists>p'. feed_all parser_zero (BL_SOF # [4, 1, 0, 9] @ put_u32_le (bl_crc32 0 (frame_body 4 [1]))) =
     (replicate 8 BL_FRAME_INCOMPLETE @ [BL_FRAME_ERROR], p')"
proof -
  have "frame_bytes 4 [1] = BL_SOF # [4, 1, 0] @ [1] @ put_u32_le (bl_crc32 0 (frame_body 4 [1]))"
    by (simp add: frame_bytes_def frame_body_def put_u16_le_def)
  from damaged_frame_rejected [of parser_zero, OF _ _ this, of "[9]"] show ?thesis
    by (auto simp: parser_zero_def parser_inv_def put_u16_le_def)
qed

text \<open>
  The encoder's refusals: a payload longer than 512 bytes, a buffer without room
  for it, or a missing payload return 0 and leave the buffer as it was; nothing is ever
  written at or beyond the stated capacity.
\<close>

lemma encode_refuses:
  assumes "len > BL_MAX_PAYLOAD \<or> unat len + 8 > room \<or> payload = None \<and> len \<noteq> 0"
  shows "bl_frame_encode cmd payload len out room = (0, out)"
  using assms by (auto simp: bl_frame_encode_def)

end
