(* ===== verification/Bl_Resync.thy ===== *)
theory Bl_Resync
  imports Bl_Frame
begin

text \<open>
  Losing and finding the frame boundary. The start marker is not escaped, so a parser
  that takes a payload byte for a marker consumes as many bytes as the false header
  announces. \<open>parser_lag\<close> bounds how many bytes a parser can still take before it is
  idle again; it decreases with every byte of a frame.
\<close>

definition parser_lag :: "bl_frame_parser \<Rightarrow> nat" where
  "parser_lag p =
     (case parser_state p of
        BL_FRAME_WAIT_SOF \<Rightarrow> 0
      | BL_FRAME_CMD \<Rightarrow> 519
      | BL_FRAME_LEN \<Rightarrow> if byte_count p = 0 then 518 else 517
      | BL_FRAME_PAYLOAD \<Rightarrow> unat (frame_len (parser_frame p)) - unat (byte_count p) + 4
      | BL_FRAME_CRC \<Rightarrow> 4 - unat (byte_count p))"

lemma parser_lag_idle: "parser_inv p \<Longrightarrow> parser_lag p = 0 \<longleftrightarrow> parser_state p = BL_FRAME_WAIT_SOF"
  by (auto simp: parser_lag_def parser_inv_def Let_def word_less_nat_alt split: bl_frame_state.split)

lemma parser_lag_le: "parser_inv p \<Longrightarrow> parser_lag p \<le> 519"
  by (auto simp: parser_lag_def parser_inv_def Let_def word_less_nat_alt word_le_nat_alt split: bl_frame_state.split)

lemma unat_Suc_u16: "unat n < 512 \<Longrightarrow> unat (n + 1) = Suc (unat n)" for n :: u16
  by (simp add: unat_word_ariths)

lemma parser_lag_feed:
  assumes inv: "parser_inv p" and busy: "parser_state p \<noteq> BL_FRAME_WAIT_SOF"
  shows "parser_lag (snd (bl_frame_feed p b)) < parser_lag p"
proof (cases "parser_state p")
  case BL_FRAME_LEN
  let ?len = "frame_len (parser_frame p) OR push_bit 8 (ucast b)"
  show ?thesis
  proof (cases "?len > 512")
    case False
    then have "unat ?len \<le> 512" by (simp add: word_less_nat_alt)
    with BL_FRAME_LEN show ?thesis
      by (auto simp: bl_frame_feed_def Let_def parser_lag_def bl_frame_parser_init_def)
  qed (use BL_FRAME_LEN in \<open>auto simp: bl_frame_feed_def Let_def parser_lag_def bl_frame_parser_init_def\<close>)
next
  case BL_FRAME_PAYLOAD
  then have n: "byte_count p < frame_len (parser_frame p)" "frame_len (parser_frame p) \<le> 512"
    using inv by (simp_all add: parser_inv_def Let_def)
  then have "unat (byte_count p) < 512" by (rule unat_less_512)
  then show ?thesis using BL_FRAME_PAYLOAD n unat_Suc_u16 [of "byte_count p"]
    by (auto simp: bl_frame_feed_def Let_def parser_lag_def word_less_nat_alt)
next
  case BL_FRAME_CRC
  then have "unat (byte_count p) < 4" using inv by (simp add: parser_inv_def Let_def word_less_nat_alt)
  then show ?thesis using BL_FRAME_CRC unat_Suc_u16 [of "byte_count p"]
    by (auto simp: bl_frame_feed_def Let_def parser_lag_def bl_frame_parser_init_def)
qed (use busy in \<open>auto simp: bl_frame_feed_def parser_lag_def\<close>)

lemma feed_all_append:
  "feed_all p (xs @ ys) = (case feed_all p xs of (sts, p1) \<Rightarrow> case feed_all p1 ys of (sts', p2) \<Rightarrow> (sts @ sts', p2))"
  by (induction xs arbitrary: p) (auto split: prod.split)

lemma length_feed_all [simp]: "length (fst (feed_all p bs)) = length bs"
  by (induction bs arbitrary: p) (simp_all add: case_prod_beta)

lemma fst_feed_all_prefix: "fst (feed_all p xs) = take (length xs) (fst (feed_all p (xs @ ys)))"
  by (simp add: feed_all_append case_prod_beta)

lemma feed_all_idle:
  assumes "parser_inv p" and "parser_lag p \<le> length pad" and "BL_SOF \<notin> set pad"
  shows "parser_inv (snd (feed_all p pad)) \<and> parser_state (snd (feed_all p pad)) = BL_FRAME_WAIT_SOF"
  using assms
proof (induction pad arbitrary: p)
  case Nil
  then show ?case by (simp add: parser_lag_idle)
next
  case (Cons b pad)
  let ?p1 = "snd (bl_frame_feed p b)"
  have inv: "parser_inv ?p1" by (rule parser_inv_feed [OF Cons.prems(1)])
  have "parser_lag ?p1 \<le> length pad"
  proof (cases "parser_state p = BL_FRAME_WAIT_SOF")
    case True
    with Cons.prems(3) have "?p1 = p" by (simp add: bl_frame_feed_def)
    with True show ?thesis by (simp add: parser_lag_def)
  next
    case False
    from parser_lag_feed [OF Cons.prems(1) this, of b] Cons.prems(2) show ?thesis by simp
  qed
  with Cons.IH [OF inv] Cons.prems(3) show ?case by (simp add: case_prod_beta)
qed

text \<open>
  C23. Resynchronisation: whatever a parser was in the middle of, once it has seen as
  many non-marker bytes as it can still take -- never more than 519, none if it is idle
  -- it is idle and accepts the next frame, at its last byte and at no earlier one.
\<close>

theorem parser_resynchronises:
  assumes "parser_inv p" and "BL_SOF \<notin> set pad" and "length pl \<le> 512"
    and "519 \<le> length pad \<or> parser_state p = BL_FRAME_WAIT_SOF"
  shows "\<exists>sts p'. feed_all p (pad @ frame_bytes cmd pl) =
      (sts @ replicate (length pl + 7) BL_FRAME_INCOMPLETE @ [BL_FRAME_COMPLETE], p') \<and> length sts = length pad \<and>
    frame_cmd (parser_frame p') = cmd \<and> take (length pl) (frame_payload (parser_frame p')) = pl"
proof -
  let ?p = "snd (feed_all p pad)"
  have "parser_lag p \<le> length pad" using assms(1,4) parser_lag_le [OF assms(1)] parser_lag_idle [OF assms(1)] by auto
  note idle = feed_all_idle [OF assms(1) this assms(2)]
  then have "frame_consumed ?p @ frame_bytes cmd pl = frame_bytes cmd pl" by (simp add: frame_consumed_def)
  from feed_all_towards_frame [OF idle [THEN conjunct1] assms(3) _ this] obtain p' where
    "feed_all ?p (frame_bytes cmd pl) =
       (replicate (length (frame_bytes cmd pl) - 1) BL_FRAME_INCOMPLETE @ [BL_FRAME_COMPLETE], p')"
    "frame_cmd (parser_frame p') = cmd" "take (length pl) (frame_payload (parser_frame p')) = pl"
    by (auto simp: frame_bytes_def)
  then show ?thesis
    by (intro exI [of _ "fst (feed_all p pad)"] exI [of _ p']) (simp add: feed_all_append case_prod_beta add.commute)
qed

theorem parser_resynchronises_witness:
  "\<exists>sts p'. feed_all (snd (feed_all parser_zero [BL_SOF, 3, 0, 2])) (replicate 600 0 @ frame_bytes 1 []) =
     (sts @ replicate 7 BL_FRAME_INCOMPLETE @ [BL_FRAME_COMPLETE], p')"
proof -
  have zero: "parser_inv parser_zero" by (simp add: parser_zero_def parser_inv_def)
  have "parser_inv (snd (feed_all parser_zero [BL_SOF, 3, 0, 2]))"
    using parser_inv_feed [OF parser_inv_feed [OF parser_inv_feed [OF parser_inv_feed [OF zero]]], of BL_SOF 3 0 2]
    by (simp add: case_prod_beta)
  from parser_resynchronises [OF this, of "replicate 600 0" "[]" 1] show ?thesis by auto
qed

text \<open>
  C24. A false start marker costs more than one frame: an idle parser that sees the
  marker, any command and a length of \<open>n\<close> up to 512 asks for more on each of the next
  \<open>n + 3\<close> bytes, whatever they are. Sixty-four whole HELLO requests can disappear that
  way.
\<close>

theorem false_start_swallows:
  assumes "parser_inv p" and "parser_state p = BL_FRAME_WAIT_SOF" and "n \<le> 512" and "length xs < n + 4"
  shows "fst (feed_all p ([BL_SOF, c] @ put_u16_le (of_nat n) @ xs)) = replicate (length xs + 4) BL_FRAME_INCOMPLETE"
proof -
  define ys where "ys = xs @ replicate (n + 4 - length xs) 0"
  have len: "length (take n ys) = n" "length (drop n ys) = 4" "drop (length xs) ys \<noteq> []"
    using assms(4) by (simp_all add: ys_def)
  have shape: "frame_shape c (take n ys) (drop n ys) = [BL_SOF, c] @ put_u16_le (of_nat n) @ ys"
    using len(1) by (simp add: frame_shape_def frame_body_def)
  have seen: "frame_consumed p @ [BL_SOF, c] @ put_u16_le (of_nat n) @ ys = frame_shape c (take n ys) (drop n ys)"
    using assms(2) shape by (simp add: frame_consumed_def)
  let ?in = "[BL_SOF, c] @ put_u16_le (of_nat n) @ ys"
  from feed_all_frame_shape [OF assms(1) _ len(2) _ seen] len(1) assms(3) obtain st p' where
    all: "feed_all p ?in = (replicate (length ?in - 1) BL_FRAME_INCOMPLETE @ [st], p')" by auto
  let ?pre = "[BL_SOF, c] @ put_u16_le (of_nat n) @ xs"
  have "?in = ?pre @ drop (length xs) ys" by (simp add: ys_def)
  then have "fst (feed_all p ?pre) = take (length ?pre) (fst (feed_all p ?in))" by (metis fst_feed_all_prefix)
  also have "\<dots> = replicate (length xs + 4) BL_FRAME_INCOMPLETE"
  proof -
    have "length ?pre = length xs + 4" "length xs + 4 \<le> length ?in - 1" using assms(4) by (simp_all add: ys_def)
    then show ?thesis by (simp only: all fst_conv take_append take_replicate length_replicate) (simp add: min_absorb2)
  qed
  finally show ?thesis .
qed

theorem false_start_swallows_witness:
  "fst (feed_all parser_zero ([BL_SOF, 0] @ put_u16_le (of_nat 512) @ concat (replicate 64 (frame_bytes BL_CMD_HELLO [])))) =
     replicate 516 BL_FRAME_INCOMPLETE"
proof -
  have "length (concat (replicate n (frame_bytes BL_CMD_HELLO []))) = 8 * n" for n
    by (induction n) simp_all
  then show ?thesis
    using false_start_swallows [of parser_zero 512 "concat (replicate 64 (frame_bytes BL_CMD_HELLO []))" 0]
    by (simp add: parser_zero_def parser_inv_def)
qed

end
