(* ===== verification/Bl_Tool_Proto.thy ===== *)
theory Bl_Tool_Proto
  imports Bl_Resync
begin

text \<open>
  The wire protocol of the host tools, \<open>tools/blproto.py\<close>: an implementation of the
  frame format written independently of the device's. Python's \<open>bytes\<close> are lists of
  8-bit words; its integers, which are never negative in these modules, are natural
  numbers; an exception is a value of \<open>py_error\<close>, without its message. The parts of the
  standard library the tools use come first: \<open>int.from_bytes\<close>, \<open>int.to_bytes\<close>, the
  \<open>struct\<close> module in little-endian mode, \<open>zlib.crc32\<close>, which is the catalogued
  CRC-32/ISO-HDLC.

  The lemmas show that encoding gives the device's frame format and that decoding
  accepts exactly the frames of that format.
\<close>

section \<open>Python\<close>

datatype py_error =
  Value_Error | Struct_Error | Overflow_Error | Zero_Division_Error | Assertion_Error | System_Exit |
  Bootloader_Error | Bootloader_Timeout | Protocol_Error | Device_Error nat nat | Os_Error

text \<open>\<open>int.from_bytes(b, "little")\<close> and \<open>n.to_bytes(k, "little")\<close>.\<close>

primrec from_bytes :: "u8 list \<Rightarrow> nat" where
  "from_bytes [] = 0"
| "from_bytes (b # bs) = unat b + 256 * from_bytes bs"

primrec le_bytes :: "nat \<Rightarrow> nat \<Rightarrow> u8 list" where
  "le_bytes 0 n = []"
| "le_bytes (Suc k) n = of_nat (n mod 256) # le_bytes k (n div 256)"

definition to_bytes :: "nat \<Rightarrow> nat \<Rightarrow> py_error + u8 list" where
  "to_bytes k n = (if n < 256 ^ k then Inr (le_bytes k n) else Inl Overflow_Error)"

text \<open>\<open>struct.pack\<close> and \<open>struct.unpack\<close> for the formats \<open><BH\<close>, \<open><I\<close> and \<open><IHHIIII12sI\<close>.\<close>

datatype struct_code = Code_B | Code_H | Code_I | Code_s nat

datatype py_value = Py_Int nat | Py_Bytes "u8 list"

fun code_size :: "struct_code \<Rightarrow> nat" where
  "code_size Code_B = 1"
| "code_size Code_H = 2"
| "code_size Code_I = 4"
| "code_size (Code_s n) = n"

fun pack_value :: "struct_code \<Rightarrow> py_value \<Rightarrow> (u8 list) option" where
  "pack_value (Code_s n) (Py_Bytes b) = Some (take n (b @ replicate n 0))"
| "pack_value (Code_s n) (Py_Int i) = None"
| "pack_value code (Py_Bytes b) = None"
| "pack_value code (Py_Int i) = (if i < 256 ^ code_size code then Some (le_bytes (code_size code) i) else None)"

fun struct_pack :: "struct_code list \<Rightarrow> py_value list \<Rightarrow> py_error + u8 list" where
  "struct_pack [] [] = Inr []"
| "struct_pack (c # cs) (v # vs) =
     (case (pack_value c v, struct_pack cs vs) of
        (Some b, Inr bs) \<Rightarrow> Inr (b @ bs)
      | _ \<Rightarrow> Inl Struct_Error)"
| "struct_pack _ _ = Inl Struct_Error"

fun unpack_value :: "struct_code \<Rightarrow> u8 list \<Rightarrow> py_value" where
  "unpack_value (Code_s n) b = Py_Bytes b"
| "unpack_value code b = Py_Int (from_bytes b)"

fun struct_unpack :: "struct_code list \<Rightarrow> u8 list \<Rightarrow> py_error + py_value list" where
  "struct_unpack [] bs = (if bs = [] then Inr [] else Inl Struct_Error)"
| "struct_unpack (c # cs) bs =
     (if length bs < code_size c then Inl Struct_Error
      else case struct_unpack cs (drop (code_size c) bs) of
        Inl e \<Rightarrow> Inl e
      | Inr vs \<Rightarrow> Inr (unpack_value c (take (code_size c) bs) # vs))"

definition zlib_crc32 :: "u8 list \<Rightarrow> nat" where
  "zlib_crc32 data = unat (crc32_iso_hdlc data)"

section \<open>Constants\<close>

definition SOF :: nat where [simp]: "SOF = 0x7E"
definition PROTO_VERSION :: nat where [simp]: "PROTO_VERSION = 1"
definition MAX_PAYLOAD :: nat where [simp]: "MAX_PAYLOAD = 512"
definition FRAME_OVERHEAD :: nat where [simp]: "FRAME_OVERHEAD = 8"
definition MIN_RESPONSE_SIZE :: nat where [simp]: "MIN_RESPONSE_SIZE = 29"
definition MAX_WRITE_DATA :: nat where [simp]: "MAX_WRITE_DATA = ((MAX_PAYLOAD - 4) div 8) * 8"
definition SLOT_A :: nat where [simp]: "SLOT_A = 0"
definition SLOT_B :: nat where [simp]: "SLOT_B = 1"
definition SLOT_COUNT :: nat where [simp]: "SLOT_COUNT = 2"
definition SLOT_NONE :: nat where [simp]: "SLOT_NONE = 0xFF"
definition BOOT_STATE_NONE :: nat where [simp]: "BOOT_STATE_NONE = 0xFF"
definition CMD_HELLO :: nat where [simp]: "CMD_HELLO = 0x01"
definition CMD_ERASE_SLOT :: nat where [simp]: "CMD_ERASE_SLOT = 0x02"
definition CMD_WRITE :: nat where [simp]: "CMD_WRITE = 0x03"
definition CMD_VERIFY :: nat where [simp]: "CMD_VERIFY = 0x04"
definition CMD_SET_ACTIVE :: nat where [simp]: "CMD_SET_ACTIVE = 0x05"
definition CMD_RESET :: nat where [simp]: "CMD_RESET = 0x06"
definition STATUS_OK :: nat where [simp]: "STATUS_OK = 0x00"
definition ERR_NOT_ERASED :: nat where [simp]: "ERR_NOT_ERASED = 0x34"

section \<open>Frames\<close>

definition crc32 :: "u8 list \<Rightarrow> nat" where
  "crc32 data = and (zlib_crc32 data) 0xFFFFFFFF"

definition encode_frame :: "nat \<Rightarrow> u8 list \<Rightarrow> py_error + u8 list" where
  "encode_frame cmd payload =
     (if length payload > MAX_PAYLOAD then Inl Value_Error
      else case struct_pack [Code_B, Code_H] [Py_Int cmd, Py_Int (length payload)] of
        Inl e \<Rightarrow> Inl e
      | Inr head \<Rightarrow>
          let body = head @ payload in
          (case struct_pack [Code_I] [Py_Int (crc32 body)] of
             Inl e \<Rightarrow> Inl e
           | Inr tail \<Rightarrow> Inr ([of_nat SOF] @ body @ tail)))"

definition decode_frame :: "u8 list \<Rightarrow> py_error + nat \<times> u8 list" where
  "decode_frame frame =
     (if length frame < FRAME_OVERHEAD then Inl Value_Error
      else if unat (frame ! 0) \<noteq> SOF then Inl Value_Error
      else case struct_unpack [Code_B, Code_H] (take 3 (drop 1 frame)) of
        Inr [Py_Int cmd, Py_Int len] \<Rightarrow>
          if length frame \<noteq> FRAME_OVERHEAD + len then Inl Value_Error
          else
            let payload = take len (drop 4 frame) in
            (case struct_unpack [Code_I] (drop (4 + len) frame) of
               Inr [Py_Int received] \<Rightarrow>
                 let expected = crc32 (take (3 + len) (drop 1 frame)) in
                 if received \<noteq> expected then Inl Value_Error else Inr (cmd, payload)
             | _ \<Rightarrow> Inl Struct_Error)
      | _ \<Rightarrow> Inl Struct_Error)"

section \<open>Lemmas\<close>

lemma length_le_bytes [simp]: "length (le_bytes k n) = k"
  by (induction k arbitrary: n) simp_all

lemma from_le_bytes: "from_bytes (le_bytes k n) = n mod 256 ^ k"
proof (induction k arbitrary: n)
  case (Suc k)
  have "unat (of_nat (n mod 256) :: u8) = n mod 256" by (simp add: unat_of_nat)
  then show ?case using Suc.IH [of "n div 256"] mod_mult2_eq [of n 256 "256 ^ k"] by (simp add: algebra_simps)
qed simp

lemma from_bytes_less: "from_bytes bs < 256 ^ length bs"
proof (induction bs)
  case (Cons b bs)
  have "unat b < 256" using unsigned_less [of b, where ?'a = nat] by simp
  with Cons show ?case by simp
qed simp

lemma le_from_bytes: "le_bytes (length bs) (from_bytes bs) = bs"
proof (induction bs)
  case (Cons b bs)
  have b: "unat b < 256" using unsigned_less [of b, where ?'a = nat] by simp
  then have "(unat b + 256 * from_bytes bs) mod 256 = unat b" "(unat b + 256 * from_bytes bs) div 256 = from_bytes bs"
    by simp_all
  with Cons show ?case by simp
qed simp

lemma of_nat_byte: "of_nat (unat w div 2 ^ k mod 256) = (ucast (drop_bit k w) :: u8)" for w :: "'a :: len word"
proof -
  have "unat w div 2 ^ k mod 256 = take_bit 8 (drop_bit k (unat w))" by (simp add: take_bit_eq_mod drop_bit_eq_div)
  then have "of_nat (unat w div 2 ^ k mod 256) = (of_nat (take_bit 8 (drop_bit k (unat w))) :: u8)" by simp
  also have "\<dots> = ucast (drop_bit k w)"
    by (rule bit_word_eqI) (simp add: bit_simps)
  finally show ?thesis .
qed

lemma le_bytes_u32 [simp]: "le_bytes 4 (unat w) = put_u32_le w" for w :: u32
proof -
  have four: "4 = Suc (Suc (Suc (Suc 0)))" by simp
  have div: "n div 256 = n div 2 ^ 8" "n div 2 ^ 8 div 2 ^ 8 = n div 2 ^ 16" "n div 2 ^ 16 div 2 ^ 8 = n div 2 ^ 24" for n :: nat
    by (simp_all flip: div_mult2_eq)
  show ?thesis
    unfolding four le_bytes.simps div of_nat_byte put_u32_le_def
    using of_nat_byte [of w 0] by simp
qed

lemma le_bytes_small: "le_bytes 1 n = [of_nat (n mod 256)]" "le_bytes 2 n = [of_nat (n mod 256), of_nat (n div 2 ^ 8 mod 256)]"
proof -
  have two: "le_bytes 2 n = le_bytes (Suc (Suc 0)) n" by (simp only: numeral_2_eq_2)
  show "le_bytes 1 n = [of_nat (n mod 256)]" "le_bytes 2 n = [of_nat (n mod 256), of_nat (n div 2 ^ 8 mod 256)]"
    by (simp_all add: two)
qed

lemma le_bytes_u16 [simp]: "le_bytes 2 (unat w) = put_u16_le w" for w :: u16
  unfolding le_bytes_small(2) of_nat_byte put_u16_le_def
  using of_nat_byte [of w 0] by simp

lemma put_le_of_nat:
  "n < 2 ^ 16 \<Longrightarrow> put_u16_le (of_nat n) = le_bytes 2 n" "n < 2 ^ 32 \<Longrightarrow> put_u32_le (of_nat n) = le_bytes 4 n"
  by (simp_all add: unat_of_nat flip: le_bytes_u16 le_bytes_u32)

lemma put_le_from_bytes:
  "length bs = 2 \<Longrightarrow> put_u16_le (of_nat (from_bytes bs)) = bs" "length bs = 4 \<Longrightarrow> put_u32_le (of_nat (from_bytes bs)) = bs"
  using from_bytes_less [of bs] le_from_bytes [of bs] by (auto simp: put_le_of_nat)

lemma from_put_le [simp]:
  "from_bytes (put_u32_le w) = unat w" "from_bytes (put_u16_le v) = unat v"
  using from_le_bytes [of 4 "unat w"] from_le_bytes [of 2 "unat v"]
    unsigned_less [of w, where ?'a = nat] unsigned_less [of v, where ?'a = nat] by simp_all

lemma crc32_eq: "crc32 xs = unat (bl_crc32 0 xs)"
proof -
  have "and (unat w) 0xFFFFFFFF = unat w" for w :: u32
    using take_bit_nat_eq_self [of "unat w" 32] unsigned_less [of w, where ?'a = nat]
    by (simp add: take_bit_eq_mask mask_eq_exp_minus_1)
  then show ?thesis by (simp add: crc32_def zlib_crc32_def bl_crc32_iso_hdlc)
qed

text \<open>Encoding gives the device's frame format.\<close>

lemma encode_frame_eq:
  assumes "cmd < 256"
  shows "encode_frame cmd pl = (if length pl \<le> 512 then Inr (frame_bytes (of_nat cmd) pl) else Inl Value_Error)"
proof (cases "length pl \<le> 512")
  case True
  then have "le_bytes 2 (length pl) = put_u16_le (of_nat (length pl))" by (simp add: put_le_of_nat)
  with True assms have head: "struct_pack [Code_B, Code_H] [Py_Int cmd, Py_Int (length pl)] =
      Inr ([of_nat cmd] @ put_u16_le (of_nat (length pl)))"
    by (simp add: le_bytes_small(1) [unfolded One_nat_def])
  have tail: "struct_pack [Code_I] [Py_Int (crc32 xs)] = Inr (put_u32_le (bl_crc32 0 xs))" for xs
    using unsigned_less [of "bl_crc32 0 xs", where ?'a = nat] by (simp add: crc32_eq)
  show ?thesis
    using True unfolding encode_frame_def head sum.case Let_def tail by (simp add: frame_bytes_def frame_body_def)
qed (simp add: encode_frame_def)

text \<open>Decoding accepts exactly the frames of that format, of any length the length field can hold.\<close>

lemma decode_frame_Cons:
  assumes "4 \<le> length rest"
  shows "decode_frame (a # c # l0 # l1 # rest) =
    (let len = from_bytes [l0, l1] in
     if a \<noteq> BL_SOF \<or> length rest \<noteq> len + 4 \<or>
        from_bytes (drop len rest) \<noteq> unat (bl_crc32 0 (c # l0 # l1 # take len rest))
     then Inl Value_Error else Inr (unat c, take len rest))"
proof -
  have a: "unat a = 126 \<longleftrightarrow> a = 126" by (simp add: word_unat_eq_iff)
  have three: "take 3 (c # l0 # l1 # rest) = [c, l0, l1]" by (simp add: numeral_3_eq_3)
  have crc: "take (3 + n) (c # l0 # l1 # rest) = c # l0 # l1 # take n rest" "drop (4 + n) (a # c # l0 # l1 # rest) = drop n rest"
    "drop 4 (a # c # l0 # l1 # rest) = rest" for n
    by (simp_all add: numeral_eq_Suc)
  have two: "struct_unpack [Code_B, Code_H] [c, l0, l1] = Inr [Py_Int (unat c), Py_Int (from_bytes [l0, l1])]"
    by simp
  have last: "struct_unpack [Code_I] xs = (if length xs = 4 then Inr [Py_Int (from_bytes xs)] else Inl Struct_Error)" for xs
    by auto
  show ?thesis
    using assms
    unfolding decode_frame_def Let_def SOF_def BL_SOF_def nth_Cons_0 drop_Suc_Cons One_nat_def drop_0 three two crc last a crc32_eq
    by auto
qed

lemma decode_frame_iff:
  "decode_frame f = Inr (cmd, pl) \<longleftrightarrow> cmd < 256 \<and> length pl < 2 ^ 16 \<and> f = frame_bytes (of_nat cmd) pl"
proof (cases "8 \<le> length f")
  case True
  then have "8 + 0 \<le> length f" by simp
  then obtain a c l0 l1 mid x y z w xs where "f = [a, c, l0, l1] @ mid @ [x, y, z, w] @ xs"
    by (rule length_8_split)
  then obtain rest where f: "f = a # c # l0 # l1 # rest" and rest: "4 \<le> length rest" by simp
  let ?len = "from_bytes [l0, l1]"
  have l: "[l0, l1] = put_u16_le (of_nat ?len)" by (rule put_le_from_bytes(1) [symmetric]) simp
  have less: "?len < 2 ^ 16" using from_bytes_less [of "[l0, l1]"] by simp
  show ?thesis
  proof
    assume dec: "decode_frame f = Inr (cmd, pl)"
    then have *: "a = BL_SOF" "length rest = ?len + 4" "cmd = unat c" "pl = take ?len rest"
      "from_bytes (drop ?len rest) = unat (bl_crc32 0 (c # l0 # l1 # take ?len rest))"
      unfolding f decode_frame_Cons [OF rest] Let_def by (auto split: if_splits)
    have "length (drop ?len rest) = 4" using *(2) by simp
    with put_le_from_bytes(2) [of "drop ?len rest"] *(5)
    have "drop ?len rest = put_u32_le (bl_crc32 0 (c # l0 # l1 # pl))" using *(4) by simp
    then have rest: "rest = pl @ put_u32_le (bl_crc32 0 (c # l0 # l1 # pl))"
      using append_take_drop_id [of ?len rest] unfolding *(4) by simp
    have len: "length pl = ?len" using *(2,4) by simp
    have "frame_body c pl = c # l0 # l1 # pl" unfolding frame_body_def len l [symmetric] by simp
    then have "f = frame_bytes c pl" unfolding f frame_bytes_def *(1) using rest by simp
    with * less show "cmd < 256 \<and> length pl < 2 ^ 16 \<and> f = frame_bytes (of_nat cmd) pl"
      using unsigned_less [of c, where ?'a = nat] by (simp add: of_nat_unat)
  next
    assume *: "cmd < 256 \<and> length pl < 2 ^ 16 \<and> f = frame_bytes (of_nat cmd) pl"
    then have n: "unat (of_nat (length pl) :: u16) = length pl" by (simp add: unat_of_nat)
    have **: "a = BL_SOF" "c = of_nat cmd" "[l0, l1] = put_u16_le (of_nat (length pl))"
      "rest = pl @ put_u32_le (bl_crc32 0 (c # [l0, l1] @ pl))"
      using * f by (auto simp: frame_bytes_def frame_body_def put_u16_le_def)
    have "?len = length pl" unfolding **(3) using n by simp
    moreover have "unat c = cmd" using * **(2) by (simp add: unat_of_nat)
    ultimately show "decode_frame f = Inr (cmd, pl)"
      unfolding f decode_frame_Cons [OF rest] Let_def using **(1,4) by simp
  qed
qed (auto simp: decode_frame_def)

text \<open>What a parser has consumed while it asked for more.\<close>

lemma feed_all_consumed:
  assumes "parser_inv p" and "feed_all p bs = (replicate (length bs) BL_FRAME_INCOMPLETE, p')"
    and "bs = [] \<or> parser_state p \<noteq> BL_FRAME_WAIT_SOF \<or> hd bs = BL_SOF"
  shows "parser_inv p' \<and> frame_consumed p' = frame_consumed p @ bs"
  using assms
proof (induction bs arbitrary: p)
  case (Cons b bs)
  obtain st p1 where feed: "bl_frame_feed p b = (st, p1)" by (cases "bl_frame_feed p b")
  with Cons.prems(2) have st: "st = BL_FRAME_INCOMPLETE" "feed_all p1 bs = (replicate (length bs) BL_FRAME_INCOMPLETE, p')"
    by (auto split: prod.splits)
  from feed_outcome_always [OF Cons.prems(1), of b, unfolded feed_outcome_def feed st(1) Let_def] Cons.prems(3)
  have p1: "parser_inv p1" "frame_consumed p1 = frame_consumed p @ [b]" by auto
  then have "parser_state p1 \<noteq> BL_FRAME_WAIT_SOF" by (auto simp: frame_consumed_def)
  with Cons.IH [OF p1(1) st(2)] p1(2) show ?case by simp
qed simp

lemma decode_accepted:
  assumes "parser_inv p" and "parser_state p = BL_FRAME_WAIT_SOF" and "cmd < 256" and len: "length pl \<le> 512"
    and "decode_frame (BL_SOF # f) = Inr (cmd, pl)"
  shows "\<exists>p'. feed_all p (BL_SOF # f) = (replicate (length f) BL_FRAME_INCOMPLETE @ [BL_FRAME_COMPLETE], p') \<and>
    frame_cmd (parser_frame p') = of_nat cmd \<and>
    take (unat (frame_len (parser_frame p'))) (frame_payload (parser_frame p')) = pl"
proof -
  have f: "BL_SOF # f = frame_bytes (of_nat cmd) pl" using assms(5) by (simp add: decode_frame_iff)
  have "frame_consumed p @ (BL_SOF # f) = frame_bytes (of_nat cmd) pl" using assms(2) f by (simp add: frame_consumed_def)
  from feed_all_towards_frame [OF assms(1) len _ this] len show ?thesis by (auto simp del: feed_all.simps)
qed

lemma accepted_decode:
  assumes "parser_inv p" and "parser_state p = BL_FRAME_WAIT_SOF" and "cmd < 256"
    and all: "feed_all p (BL_SOF # f) = (replicate (length f) BL_FRAME_INCOMPLETE @ [BL_FRAME_COMPLETE], p')"
    and res: "frame_cmd (parser_frame p') = of_nat cmd"
      "take (unat (frame_len (parser_frame p'))) (frame_payload (parser_frame p')) = pl"
  shows "decode_frame (BL_SOF # f) = Inr (cmd, pl) \<and> length pl \<le> 512"
proof -
  obtain xs b where xs: "BL_SOF # f = xs @ [b]" by (metis append_butlast_last_id list.discI)
  then have len: "length f = length xs" by (metis Suc_eq_plus1 add_right_cancel length_Cons length_append_singleton)
  obtain p1 where p1: "feed_all p xs = (replicate (length xs) BL_FRAME_INCOMPLETE, p1)" "bl_frame_feed p1 b = (BL_FRAME_COMPLETE, p')"
    using all unfolding xs feed_all_append len by (auto split: prod.splits)
  have "xs = [] \<or> hd xs = BL_SOF" using xs by (cases xs) auto
  with feed_all_consumed [OF assms(1) p1(1)] have inv: "parser_inv p1" and seen: "frame_consumed p1 = xs"
    using assms(2) by (auto simp: frame_consumed_def)
  note out = feed_outcome_always [OF inv, of b, unfolded feed_outcome_def p1(2) Let_def]
  from out have "length (frame_payload (parser_frame p')) = 512" by (simp add: parser_inv_def Let_def)
  then have pl: "length pl \<le> 512" using res(2) by auto
  from out seen res have "BL_SOF # f = frame_bytes (of_nat cmd) pl" unfolding xs by simp
  with assms(3) pl show ?thesis by (simp add: decode_frame_iff)
qed

text \<open>A length field above the limit is refused at its second byte.\<close>

lemma oversize_refused:
  assumes "parser_state p = BL_FRAME_WAIT_SOF" and "decode_frame (BL_SOF # f) = Inr (cmd, pl)" and "512 < length pl"
  shows "take 4 (fst (feed_all p (BL_SOF # f))) =
    [BL_FRAME_INCOMPLETE, BL_FRAME_INCOMPLETE, BL_FRAME_INCOMPLETE, BL_FRAME_ERROR]"
proof -
  have n: "length pl < 2 ^ 16" "BL_SOF # f = frame_bytes (of_nat cmd) pl" using assms(2) by (simp_all add: decode_frame_iff)
  define w :: u16 where "w = of_nat (length pl)"
  have w: "unat w = length pl" using n(1) by (simp add: w_def unat_of_nat)
  obtain l0 l1 rest where f: "f = of_nat cmd # l0 # l1 # rest" "put_u16_le w = [l0, l1]"
    using n(2) by (auto simp: frame_bytes_def frame_body_def put_u16_le_def w_def)
  have "get_u16_le (put_u16_le w) = w" by simp
  then have "ucast l0 OR push_bit 8 (ucast l1) = w" unfolding f(2) by (simp add: get_u16_le_def)
  moreover have "w > BL_MAX_PAYLOAD" using w assms(3) by (simp add: word_less_nat_alt)
  ultimately show ?thesis using assms(1) by (simp add: f(1) bl_frame_feed_def split: prod.split)
qed

text \<open>
  C17. The two implementations of the wire format agree on payloads of at most 512 bytes.
  The tool's encoder produces the bytes the device's encoder writes, and refuses longer
  payloads. On input that starts with the marker, the tool's decoder returns a command and
  a payload of at most 512 bytes exactly when the device's parser, idle before, asks for
  more until the last byte, accepts there and holds that command and payload. They differ on
  longer payloads: \<open>decode_frame\<close> has no limit but the 16-bit length field, and the device
  refuses what it decodes from 513 bytes on, at the fourth byte.
\<close>

theorem wire_formats_agree:
  assumes "parser_inv p" and "parser_state p = BL_FRAME_WAIT_SOF" and "cmd < 256"
  shows "encode_frame cmd pl =
      (if length pl \<le> 512
       then Inr (take (length pl + 8) (snd (bl_frame_encode (of_nat cmd) (Some pl) (of_nat (length pl)) (replicate 520 0) 520)))
       else Inl Value_Error) \<and>
    (decode_frame (BL_SOF # f) = Inr (cmd, pl) \<and> length pl \<le> 512 \<longleftrightarrow>
     (\<exists>p'. feed_all p (BL_SOF # f) = (replicate (length f) BL_FRAME_INCOMPLETE @ [BL_FRAME_COMPLETE], p') \<and>
        frame_cmd (parser_frame p') = of_nat cmd \<and>
        take (unat (frame_len (parser_frame p'))) (frame_payload (parser_frame p')) = pl)) \<and>
    (decode_frame (BL_SOF # f) = Inr (cmd, pl) \<and> 512 < length pl \<longrightarrow>
     take 4 (fst (feed_all p (BL_SOF # f))) =
       [BL_FRAME_INCOMPLETE, BL_FRAME_INCOMPLETE, BL_FRAME_INCOMPLETE, BL_FRAME_ERROR])"
proof -
  have "encode_frame cmd pl =
      Inr (take (length pl + 8) (snd (bl_frame_encode (of_nat cmd) (Some pl) (of_nat (length pl)) (replicate 520 0) 520)))"
    if "length pl \<le> 512"
    using that assms(3) bl_frame_encode_ok [of pl "of_nat (length pl)" 520 "replicate 520 0" "of_nat cmd"]
    by (simp add: encode_frame_eq)
  moreover have "encode_frame cmd pl = Inl Value_Error" if "\<not> length pl \<le> 512"
    using that assms(3) by (simp add: encode_frame_eq)
  moreover have "decode_frame (BL_SOF # f) = Inr (cmd, pl) \<and> length pl \<le> 512 \<longleftrightarrow>
     (\<exists>p'. feed_all p (BL_SOF # f) = (replicate (length f) BL_FRAME_INCOMPLETE @ [BL_FRAME_COMPLETE], p') \<and>
        frame_cmd (parser_frame p') = of_nat cmd \<and>
        take (unat (frame_len (parser_frame p'))) (frame_payload (parser_frame p')) = pl)"
    using decode_accepted [OF assms, of pl f] accepted_decode [OF assms, of f _ pl] by blast
  moreover have "decode_frame (BL_SOF # f) = Inr (cmd, pl) \<and> 512 < length pl \<longrightarrow>
     take 4 (fst (feed_all p (BL_SOF # f))) =
       [BL_FRAME_INCOMPLETE, BL_FRAME_INCOMPLETE, BL_FRAME_INCOMPLETE, BL_FRAME_ERROR]"
    using oversize_refused [OF assms(2), of f cmd pl] by blast
  ultimately show ?thesis by (simp only: if_split) simp
qed

theorem wire_formats_agree_witness:
  "encode_frame CMD_VERIFY [1] =
     Inr (take 9 (snd (bl_frame_encode 4 (Some [1]) 1 (replicate 520 0) 520))) \<and>
   decode_frame (frame_bytes 4 [1]) = Inr (4, [1])"
proof -
  have p: "parser_inv parser_zero" "parser_state parser_zero = BL_FRAME_WAIT_SOF"
    by (simp_all add: parser_zero_def parser_inv_def)
  obtain f where f: "frame_bytes 4 [1] = BL_SOF # f" by (simp add: frame_bytes_def)
  have "frame_consumed parser_zero @ frame_bytes 4 [1] = frame_bytes 4 [1]" by (simp add: frame_consumed_def p)
  from feed_all_towards_frame [OF p(1) _ _ this] f obtain p' where
    "feed_all parser_zero (BL_SOF # f) = (replicate (length f) BL_FRAME_INCOMPLETE @ [BL_FRAME_COMPLETE], p')"
    "frame_cmd (parser_frame p') = 4" "frame_len (parser_frame p') = 1" "take 1 (frame_payload (parser_frame p')) = [1]"
    by (auto simp del: feed_all.simps)
  then show ?thesis
    using wire_formats_agree [OF p, of 4 "[1]" f] f by (auto simp del: feed_all.simps)
qed

end
