(* ===== verification/Bl_Port.thy ===== *)
theory Bl_Port
  imports Bl_Proto Bl_Crc32
begin

text \<open>
  The seam between the hardware-independent core and a port,
  \<open>core/include/bl_port.h\<close>. The core is compiled against the declarations of that
  header and linked with one implementation; here a port is a record of the functions
  the core calls, and every definition of the core takes such a record. A call that
  trips a contract check of the port (the host port aborts the process) is \<open>None\<close>;
  a call that returns is \<open>Some\<close> of its result code and the new device state.

  The locale \<open>flash_port\<close> states what the header's comments promise of a port, over an
  abstract view of the device: the byte at every address (\<open>mem\<close>) and whether it has
  been programmed since its last erase (\<open>prog\<close>). Every operation may report a flash
  error, reads included; a failing erase or write may leave anything in the range it was
  given. \<open>readable_flash_port\<close> adds that reads inside flash succeed, which memory-mapped
  flash gives; \<open>atomic_flash_port\<close> adds what the host port implements on top: a failed
  program operation leaves flash unmodified, and a legal erase does not fail.
\<close>

section \<open>Layout\<close>

record bl_region =
  region_base :: u32
  region_size :: u32

record bl_layout =
  layout_slot :: "bl_region list"
  layout_meta :: "bl_region list"

definition BL_META_PRIMARY :: nat where [simp]: "BL_META_PRIMARY = 0"
definition BL_META_SECONDARY :: nat where [simp]: "BL_META_SECONDARY = 1"

abbreviation region_lo :: "bl_region \<Rightarrow> nat" where
  "region_lo r \<equiv> unat (region_base r)"

abbreviation region_hi :: "bl_region \<Rightarrow> nat" where
  "region_hi r \<equiv> unat (region_base r) + unat (region_size r)"

definition regions_disjoint :: "bl_region \<Rightarrow> bl_region \<Rightarrow> bool" where
  "regions_disjoint r r' \<longleftrightarrow> region_hi r \<le> region_lo r' \<or> region_hi r' \<le> region_lo r"

lemma regions_disjoint_sym: "regions_disjoint r r' \<longleftrightarrow> regions_disjoint r' r"
  by (auto simp: regions_disjoint_def)

lemma sorted_wrt_disjoint_nth:
  "sorted_wrt regions_disjoint rs \<Longrightarrow> i < length rs \<Longrightarrow> j < length rs \<Longrightarrow> i \<noteq> j \<Longrightarrow>
   regions_disjoint (rs ! i) (rs ! j)"
  by (metis sorted_wrt_nth_less regions_disjoint_sym linorder_neqE_nat)

text \<open>
  A usable layout: two slots and two metadata regions inside \<open>[lo, hi)\<close>, pairwise
  disjoint, whole write granules from the start, each large enough for its record.
\<close>

definition layout_wf :: "bl_layout \<Rightarrow> nat \<Rightarrow> nat \<Rightarrow> bool" where
  "layout_wf L lo hi \<longleftrightarrow>
     length (layout_slot L) = 2 \<and> length (layout_meta L) = 2 \<and>
     list_all (\<lambda>r. lo \<le> region_lo r \<and> region_hi r \<le> hi \<and> region_lo r mod 8 = 0)
       (layout_slot L @ layout_meta L) \<and>
     list_all (\<lambda>r. SIZEOF_IMG_HDR \<le> unat (region_size r)) (layout_slot L) \<and>
     list_all (\<lambda>r. 16 \<le> unat (region_size r)) (layout_meta L) \<and>
     sorted_wrt regions_disjoint (layout_slot L @ layout_meta L)"

section \<open>The port functions the core calls\<close>

record 's bl_port =
  port_layout :: bl_layout
  port_flash_erase :: "'s \<Rightarrow> u32 \<Rightarrow> u32 \<Rightarrow> (bl_result \<times> 's) option"
  port_flash_write :: "'s \<Rightarrow> u32 \<Rightarrow> u8 list option \<Rightarrow> u32 \<Rightarrow> (bl_result \<times> 's) option"
  port_flash_read :: "'s \<Rightarrow> u32 \<Rightarrow> bool \<Rightarrow> u32 \<Rightarrow> (bl_result \<times> u8 list) option"
  port_write_granularity :: u32
  port_erase_granularity :: "u32 \<Rightarrow> u32 option"
  port_crc32 :: "u32 \<Rightarrow> u8 list \<Rightarrow> u32"
  port_jump_to_app :: "'s \<Rightarrow> u32 \<Rightarrow> 's"

text \<open>
  \<open>port_flash_read s addr dst_null len\<close> yields the bytes stored to \<open>dst\<close>; they are
  meaningful only with \<open>BL_OK\<close>. The data argument of a write is \<open>None\<close> for the null
  pointer.
\<close>

section \<open>The contract\<close>

definition erase_legal :: "'s bl_port \<Rightarrow> u32 \<Rightarrow> u32 \<Rightarrow> bool" where
  "erase_legal P addr len \<longleftrightarrow>
     (case port_erase_granularity P addr of
        None \<Rightarrow> False
      | Some g \<Rightarrow> g \<noteq> 0 \<and> addr mod g = 0 \<and> len mod g = 0)"

locale flash_port =
  fixes P :: "'s bl_port"
    and pinv :: "'s \<Rightarrow> bool"
    and mem :: "'s \<Rightarrow> nat \<Rightarrow> u8"
    and prog :: "'s \<Rightarrow> nat \<Rightarrow> bool"
    and lo hi :: nat
  assumes layout_ok: "layout_wf (port_layout P) lo hi"
    and hi_bound: "hi \<le> 2 ^ 32"
    and granule: "port_write_granularity P \<noteq> 0" "unat (port_write_granularity P) dvd 8"
    and erase_granularity_defined:
      "lo \<le> unat a \<Longrightarrow> unat a < hi \<Longrightarrow> \<exists>g. port_erase_granularity P a = Some g"
    and crc_ok: "port_crc32 P c bs = bl_crc32 c bs"
    and read_contract:
      "pinv s \<Longrightarrow> lo \<le> unat a \<Longrightarrow> unat a + unat n \<le> hi \<Longrightarrow>
       \<exists>r bs. port_flash_read P s a False n = Some (r, bs) \<and>
         (r = BL_OK \<longrightarrow> bs = bytes_at (mem s) (unat a) (unat n))"
    and erase_contract:
      "pinv s \<Longrightarrow> lo \<le> unat a \<Longrightarrow> unat a + unat n \<le> hi \<Longrightarrow> erase_legal P a n \<Longrightarrow>
       \<exists>r s'. port_flash_erase P s a n = Some (r, s') \<and> pinv s' \<and>
         (\<forall>x. x < unat a \<or> unat a + unat n \<le> x \<longrightarrow> mem s' x = mem s x \<and> prog s' x = prog s x) \<and>
         (r = BL_OK \<longrightarrow> (\<forall>x. unat a \<le> x \<and> x < unat a + unat n \<longrightarrow> mem s' x = 0xFF \<and> \<not> prog s' x))"
    and write_contract:
      "pinv s \<Longrightarrow> lo \<le> unat a \<Longrightarrow> unat a + unat n \<le> hi \<Longrightarrow> length data = unat n \<Longrightarrow>
       unat a mod unat (port_write_granularity P) = 0 \<Longrightarrow>
       unat n mod unat (port_write_granularity P) = 0 \<Longrightarrow>
       (\<And>x. unat a \<le> x \<Longrightarrow> x < unat a + unat n \<Longrightarrow> \<not> prog s x) \<Longrightarrow>
       \<exists>r s'. port_flash_write P s a (Some data) n = Some (r, s') \<and> pinv s' \<and>
         (\<forall>x. x < unat a \<or> unat a + unat n \<le> x \<longrightarrow> mem s' x = mem s x \<and> prog s' x = prog s x) \<and>
         (r = BL_OK \<longrightarrow> bytes_at (mem s') (unat a) (unat n) = data)"
    and jump_frame:
      "pinv s \<Longrightarrow> pinv (port_jump_to_app P s a)" "mem (port_jump_to_app P s a) = mem s"
      "prog (port_jump_to_app P s a) = prog s"
begin

lemma slot_in_flash:
  assumes "i < 2"
  shows "lo \<le> region_lo (layout_slot (port_layout P) ! i)"
    and "region_hi (layout_slot (port_layout P) ! i) \<le> hi"
    and "region_lo (layout_slot (port_layout P) ! i) mod 8 = 0"
    and "SIZEOF_IMG_HDR \<le> unat (region_size (layout_slot (port_layout P) ! i))"
  using layout_ok assms unfolding layout_wf_def list_all_append by (simp_all add: list_all_length)

lemma meta_in_flash:
  assumes "i < 2"
  shows "lo \<le> region_lo (layout_meta (port_layout P) ! i)"
    and "region_hi (layout_meta (port_layout P) ! i) \<le> hi"
    and "region_lo (layout_meta (port_layout P) ! i) mod 8 = 0"
    and "16 \<le> unat (region_size (layout_meta (port_layout P) ! i))"
  using layout_ok assms unfolding layout_wf_def list_all_append by (simp_all add: list_all_length)

lemma meta_regions_disjoint:
  "i < 2 \<Longrightarrow> j < 2 \<Longrightarrow> i \<noteq> j \<Longrightarrow>
   regions_disjoint (layout_meta (port_layout P) ! i) (layout_meta (port_layout P) ! j)"
  using layout_ok by (simp add: layout_wf_def sorted_wrt_append sorted_wrt_disjoint_nth)

lemma slot_regions_disjoint:
  "i < 2 \<Longrightarrow> j < 2 \<Longrightarrow> i \<noteq> j \<Longrightarrow>
   regions_disjoint (layout_slot (port_layout P) ! i) (layout_slot (port_layout P) ! j)"
  using layout_ok by (simp add: layout_wf_def sorted_wrt_append sorted_wrt_disjoint_nth)

lemma slot_meta_disjoint:
  "i < 2 \<Longrightarrow> j < 2 \<Longrightarrow>
   regions_disjoint (layout_slot (port_layout P) ! i) (layout_meta (port_layout P) ! j)"
  using layout_ok by (auto simp: layout_wf_def sorted_wrt_append)

end

text \<open>Reads inside flash never report an error.\<close>

locale readable_flash_port = flash_port P pinv mem prog lo hi
  for P :: "'s bl_port" and pinv mem prog lo hi +
  assumes read_succeeds:
      "pinv s \<Longrightarrow> lo \<le> unat a \<Longrightarrow> unat a + unat n \<le> hi \<Longrightarrow>
       port_flash_read P s a False n = Some (r, bs) \<Longrightarrow> r = BL_OK"
begin

lemma read_ok:
  "pinv s \<Longrightarrow> lo \<le> unat a \<Longrightarrow> unat a + unat n \<le> hi \<Longrightarrow>
   port_flash_read P s a False n = Some (BL_OK, bytes_at (mem s) (unat a) (unat n))"
  using read_contract [of s a n] read_succeeds [of s a n] by blast

end

locale atomic_flash_port = readable_flash_port +
  assumes write_atomic:
      "pinv s \<Longrightarrow> port_flash_write P s a (Some data) n = Some (r, s') \<Longrightarrow> r \<noteq> BL_OK \<Longrightarrow>
       r = BL_ERR_FLASH_PROGRAM \<and> mem s' = mem s \<and> prog s' = prog s"
    and erase_succeeds:
      "pinv s \<Longrightarrow> port_flash_erase P s a n = Some (r, s') \<Longrightarrow> r = BL_OK"

text \<open>
  \<open>ready\<close>: the next program operation will not fail. It takes an erase in between, which
  is what a metadata commit needs.
\<close>

locale reliable_flash_port = atomic_flash_port +
  fixes ready :: "'a \<Rightarrow> bool"
  assumes ready_write:
      "pinv s \<Longrightarrow> ready s \<Longrightarrow> port_flash_write P s a (Some data) n = Some (r, s') \<Longrightarrow> r = BL_OK"
    and ready_erase:
      "ready s \<Longrightarrow> port_flash_erase P s a n = Some (r, s') \<Longrightarrow> ready s'"

end
