(* ===== verification/Bl_Port_Host.thy ===== *)
theory Bl_Port_Host
  imports Bl_Port
begin

text \<open>
  The simulated device, \<open>port/host/bl_port_host.c\<close>: all its static variables as one
  record, every port function and every test hook as a function on that record. A
  failing \<open>BL_HOST_ASSERT\<close> aborts the process and is \<open>None\<close>.

  \<open>g_flash\<close> and \<open>g_written\<close> are arrays indexed from the flash base; they are
  functions on the index, which may hold anything beyond the array, and \<open>host_erase_bounds\<close> and
  \<open>host_write_bounds\<close> show that no operation stores at or beyond the array's size. Sizes and positions of the transport
  buffers are \<open>nat\<close> (\<open>size_t\<close>): \<open>host_inv\<close> keeps them within the buffers, so no
  subtraction on them wraps.

  The interpretation \<open>host\<close> shows that this port keeps the contract of \<open>bl_port.h\<close>.
\<close>

section \<open>Geometry\<close>

definition HOST_FLASH_BASE :: u32 where [simp]: "HOST_FLASH_BASE = 0x08000000"
definition HOST_FLASH_SIZE :: u32 where [simp]: "HOST_FLASH_SIZE = 256 * 1024"
definition HOST_SRAM_BASE :: u32 where [simp]: "HOST_SRAM_BASE = 0x20000000"
definition HOST_SRAM_END :: u32 where [simp]: "HOST_SRAM_END = 0x20010000"
definition HOST_WRITE_GRANULARITY :: u32 where [simp]: "HOST_WRITE_GRANULARITY = 8"
definition HOST_ERASE_GRANULARITY :: u32 where [simp]: "HOST_ERASE_GRANULARITY = 2048"
definition HOST_VTOR_ALIGNMENT :: u32 where [simp]: "HOST_VTOR_ALIGNMENT = BL_IMG_HDR_REGION"
definition HOST_RX_CAPACITY :: nat where [simp]: "HOST_RX_CAPACITY = 4096"
definition HOST_TX_CAPACITY :: nat where [simp]: "HOST_TX_CAPACITY = 4096"

definition g_layout :: bl_layout where
  "g_layout =
     \<lparr>layout_slot =
        [\<lparr>region_base = 0x08009000, region_size = 0x0001B000\<rparr>,
         \<lparr>region_base = 0x08024000, region_size = 0x0001B000\<rparr>],
      layout_meta =
        [\<lparr>region_base = 0x08008000, region_size = 0x00000800\<rparr>,
         \<lparr>region_base = 0x08008800, region_size = 0x00000800\<rparr>]\<rparr>"

section \<open>State\<close>

record host =
  g_flash :: "nat \<Rightarrow> u8"
  g_written :: "nat \<Rightarrow> u8"
  g_rx :: "u8 list"
  g_rx_len :: nat
  g_rx_pos :: nat
  g_tx :: "u8 list"
  g_tx_len :: nat
  g_time_ms :: u32
  g_jump_target :: u32
  g_jumped :: bool
  g_reset :: bool
  g_write_call_count :: u32
  g_fail_write_from :: u32

text \<open>Static storage before \<open>main\<close>.\<close>

definition host_zero :: host where
  "host_zero =
     \<lparr>g_flash = (\<lambda>_. 0), g_written = (\<lambda>_. 0),
      g_rx = replicate HOST_RX_CAPACITY 0, g_rx_len = 0, g_rx_pos = 0,
      g_tx = replicate HOST_TX_CAPACITY 0, g_tx_len = 0, g_time_ms = 0,
      g_jump_target = 0, g_jumped = False, g_reset = False,
      g_write_call_count = 0, g_fail_write_from = 0\<rparr>"

section \<open>Address checks and the programmed-byte bitmap\<close>

definition flash_offset :: "u32 \<Rightarrow> u32" where
  "flash_offset addr = addr - HOST_FLASH_BASE"

definition flash_range_valid :: "u32 \<Rightarrow> u32 \<Rightarrow> bool" where
  "flash_range_valid addr len =
     (let flash_end = HOST_FLASH_BASE + HOST_FLASH_SIZE in
      if len = 0 then addr \<ge> HOST_FLASH_BASE \<and> addr \<le> flash_end
      else if addr < HOST_FLASH_BASE \<or> addr \<ge> flash_end then False
      else let offset = addr - HOST_FLASH_BASE in len \<le> HOST_FLASH_SIZE - offset)"

definition flash_byte_written :: "(nat \<Rightarrow> u8) \<Rightarrow> u32 \<Rightarrow> bool" where
  "flash_byte_written w offset =
     (let byte_index = unat (offset div 8); bit_index = unat (offset mod 8);
          mask = push_bit bit_index 1
      in (w byte_index AND mask) \<noteq> 0)"

definition flash_mark_written :: "(nat \<Rightarrow> u8) \<Rightarrow> u32 \<Rightarrow> nat \<Rightarrow> u8" where
  "flash_mark_written w offset =
     (let byte_index = unat (offset div 8); bit_index = unat (offset mod 8);
          mask = push_bit bit_index 1
      in w(byte_index := w byte_index OR mask))"

definition flash_mark_erased :: "(nat \<Rightarrow> u8) \<Rightarrow> u32 \<Rightarrow> nat \<Rightarrow> u8" where
  "flash_mark_erased w offset =
     (let byte_index = unat (offset div 8); bit_index = unat (offset mod 8);
          mask = push_bit bit_index 1
      in w(byte_index := w byte_index AND NOT mask))"

text \<open>The slot containing an address, with its extent.\<close>

fun find_slot_from :: "bl_region list \<Rightarrow> u32 \<Rightarrow> (u32 \<times> u32) option" where
  "find_slot_from [] addr = None"
| "find_slot_from (r # rs) addr =
     (let base = region_base r; end = base + region_size r in
      if addr \<ge> base \<and> addr < end then Some (base, end) else find_slot_from rs addr)"

definition find_slot_for_address :: "u32 \<Rightarrow> (u32 \<times> u32) option" where
  "find_slot_for_address addr = find_slot_from (layout_slot g_layout) addr"

section \<open>Port functions\<close>

definition bl_port_init :: "host \<Rightarrow> bl_result \<times> host" where
  "bl_port_init h =
     (BL_OK,
      h\<lparr>g_flash := mem_fill (g_flash h) 0 (unat HOST_FLASH_SIZE) 0xFF,
        g_written := mem_fill (g_written h) 0 (unat HOST_FLASH_SIZE div 8) 0,
        g_rx := replicate HOST_RX_CAPACITY 0, g_rx_len := 0, g_rx_pos := 0,
        g_tx := replicate HOST_TX_CAPACITY 0, g_tx_len := 0,
        g_time_ms := 0,
        g_jump_target := 0, g_jumped := False, g_reset := False,
        g_write_call_count := 0, g_fail_write_from := - 1\<rparr>)"

definition bl_port_layout :: bl_layout where
  "bl_port_layout = g_layout"

definition bl_flash_erase :: "host \<Rightarrow> u32 \<Rightarrow> u32 \<Rightarrow> (bl_result \<times> host) option" where
  "bl_flash_erase h addr len =
     (if \<not> flash_range_valid addr len then None
      else if len = 0 then Some (BL_OK, h)
      else if (addr - HOST_FLASH_BASE) mod HOST_ERASE_GRANULARITY \<noteq> 0 then None
      else if len mod HOST_ERASE_GRANULARITY \<noteq> 0 then None
      else
        let offset = flash_offset addr in
        Some (BL_OK,
          h\<lparr>g_flash := mem_fill (g_flash h) (unat offset) (unat len) 0xFF,
            g_written := fold (\<lambda>i w. flash_mark_erased w (offset + of_nat i)) [0..<unat len] (g_written h)\<rparr>))"

definition bl_flash_write :: "host \<Rightarrow> u32 \<Rightarrow> u8 list option \<Rightarrow> u32 \<Rightarrow> (bl_result \<times> host) option" where
  "bl_flash_write h addr data len =
     (if data = None \<and> len > 0 then Some (BL_ERR_NULL_POINTER, h)
      else if \<not> flash_range_valid addr len then None
      else if len = 0 then Some (BL_OK, h)
      else if (addr - HOST_FLASH_BASE) mod HOST_WRITE_GRANULARITY \<noteq> 0 then None
      else if len mod HOST_WRITE_GRANULARITY \<noteq> 0 then None
      else
        let offset = flash_offset addr in
        if list_ex (\<lambda>i. flash_byte_written (g_written h) (offset + of_nat i)) [0..<unat len] then None
        else
          let call_index = g_write_call_count h;
              h = h\<lparr>g_write_call_count := g_write_call_count h + 1\<rparr> in
          if call_index \<ge> g_fail_write_from h then Some (BL_ERR_FLASH_PROGRAM, h)
          else
            Some (BL_OK,
              h\<lparr>g_flash := mem_upd (g_flash h) (unat offset) (take (unat len) (the data)),
                g_written := fold (\<lambda>i w. flash_mark_written w (offset + of_nat i)) [0..<unat len] (g_written h)\<rparr>))"

definition bl_flash_read :: "host \<Rightarrow> u32 \<Rightarrow> bool \<Rightarrow> u32 \<Rightarrow> (bl_result \<times> u8 list) option" where
  "bl_flash_read h addr dst_null len =
     (if dst_null \<and> len > 0 then Some (BL_ERR_NULL_POINTER, [])
      else if \<not> flash_range_valid addr len then None
      else if len = 0 then Some (BL_OK, [])
      else let offset = flash_offset addr in
        Some (BL_OK, bytes_at (g_flash h) (unat offset) (unat len)))"

definition bl_flash_write_granularity :: u32 where
  "bl_flash_write_granularity = HOST_WRITE_GRANULARITY"

definition bl_flash_erase_granularity :: "u32 \<Rightarrow> u32 option" where
  "bl_flash_erase_granularity addr =
     (if addr \<ge> HOST_FLASH_BASE \<and> addr < HOST_FLASH_BASE + HOST_FLASH_SIZE
      then Some HOST_ERASE_GRANULARITY else None)"

definition bl_port_crc32 :: "u32 \<Rightarrow> u8 list \<Rightarrow> u32" where
  "bl_port_crc32 crc data = bl_crc32 crc data"

text \<open>The byte read is meaningful only with \<open>BL_OK\<close>.\<close>

definition bl_transport_read_byte :: "host \<Rightarrow> bool \<Rightarrow> u32 \<Rightarrow> bl_result \<times> u8 \<times> host" where
  "bl_transport_read_byte h out_null timeout_ms =
     (if out_null then (BL_ERR_NULL_POINTER, 0, h)
      else if g_rx_pos h \<ge> g_rx_len h then (BL_ERR_TIMEOUT, 0, h)
      else (BL_OK, g_rx h ! g_rx_pos h, h\<lparr>g_rx_pos := g_rx_pos h + 1\<rparr>))"

definition bl_transport_write :: "host \<Rightarrow> u8 list option \<Rightarrow> u32 \<Rightarrow> (bl_result \<times> host) option" where
  "bl_transport_write h buf len =
     (if buf = None \<and> len > 0 then Some (BL_ERR_NULL_POINTER, h)
      else if \<not> unat len \<le> HOST_TX_CAPACITY - g_tx_len h then None
      else if len = 0 then Some (BL_OK, h)
      else Some (BL_OK,
        h\<lparr>g_tx := memcpy_at (g_tx h) (g_tx_len h) (the buf) (unat len),
          g_tx_len := g_tx_len h + unat len\<rparr>))"

definition bl_time_ms :: "host \<Rightarrow> u32" where
  "bl_time_ms h = g_time_ms h"

definition bl_reset :: "host \<Rightarrow> host" where
  "bl_reset h = h\<lparr>g_reset := True\<rparr>"

definition bl_jump_to_app :: "host \<Rightarrow> u32 \<Rightarrow> host" where
  "bl_jump_to_app h base_addr =
     (case find_slot_for_address base_addr of
        None \<Rightarrow> h
      | Some (slot_base, slot_end) \<Rightarrow>
          if base_addr mod HOST_VTOR_ALIGNMENT \<noteq> 0 then h
          else if \<not> flash_range_valid base_addr 8 then h
          else
            let offset = flash_offset base_addr;
                initial_msp = get_u32_le (bytes_at (g_flash h) (unat offset) 4);
                reset_vector = get_u32_le (bytes_at (g_flash h) (unat (offset + 4)) 4) in
            if initial_msp < HOST_SRAM_BASE \<or> initial_msp > HOST_SRAM_END then h
            else if initial_msp AND 3 \<noteq> 0 then h
            else if reset_vector AND 1 = 0 then h
            else
              let reset_addr = reset_vector AND NOT 1 in
              if reset_addr < slot_base \<or> reset_addr \<ge> slot_end then h
              else h\<lparr>g_jump_target := base_addr, g_jumped := True\<rparr>)"

section \<open>Test hooks\<close>

definition bl_host_rx_load :: "host \<Rightarrow> u8 list option \<Rightarrow> nat \<Rightarrow> host option" where
  "bl_host_rx_load h data len =
     (if \<not> (data \<noteq> None \<or> len = 0) then None
      else if \<not> len \<le> HOST_RX_CAPACITY then None
      else
        let h = (if len > 0 then h\<lparr>g_rx := memcpy_at (g_rx h) 0 (the data) len\<rparr> else h) in
        Some (h\<lparr>g_rx_len := len, g_rx_pos := 0\<rparr>))"

definition bl_host_tx_read :: "host \<Rightarrow> bool \<Rightarrow> nat \<Rightarrow> (nat \<times> u8 list) option" where
  "bl_host_tx_read h dst_null max_len =
     (if \<not> (\<not> dst_null \<or> max_len = 0) then None
      else
        let count = g_tx_len h;
            count = (if count > max_len then max_len else count) in
        Some (count, if count > 0 then take count (g_tx h) else []))"

definition bl_host_tx_size :: "host \<Rightarrow> nat" where
  "bl_host_tx_size h = g_tx_len h"

definition bl_host_tx_clear :: "host \<Rightarrow> host" where
  "bl_host_tx_clear h = h\<lparr>g_tx := replicate HOST_TX_CAPACITY 0, g_tx_len := 0\<rparr>"

definition bl_host_time_set :: "host \<Rightarrow> u32 \<Rightarrow> host" where
  "bl_host_time_set h time_ms = h\<lparr>g_time_ms := time_ms\<rparr>"

definition bl_host_time_advance :: "host \<Rightarrow> u32 \<Rightarrow> host" where
  "bl_host_time_advance h delta_ms = h\<lparr>g_time_ms := g_time_ms h + delta_ms\<rparr>"

definition bl_host_did_jump :: "host \<Rightarrow> bool" where
  "bl_host_did_jump h = g_jumped h"

definition bl_host_jump_target :: "host \<Rightarrow> u32" where
  "bl_host_jump_target h = g_jump_target h"

definition bl_host_did_reset :: "host \<Rightarrow> bool" where
  "bl_host_did_reset h = g_reset h"

definition bl_host_fail_after_n_writes :: "host \<Rightarrow> u32 \<Rightarrow> host" where
  "bl_host_fail_after_n_writes h n = h\<lparr>g_write_call_count := 0, g_fail_write_from := n\<rparr>"

definition bl_host_clear_failures :: "host \<Rightarrow> host" where
  "bl_host_clear_failures h = h\<lparr>g_write_call_count := 0, g_fail_write_from := - 1\<rparr>"

definition bl_host_reboot :: "host \<Rightarrow> host" where
  "bl_host_reboot h =
     h\<lparr>g_rx := replicate HOST_RX_CAPACITY 0, g_rx_len := 0, g_rx_pos := 0,
       g_tx := replicate HOST_TX_CAPACITY 0, g_tx_len := 0,
       g_time_ms := 0,
       g_jump_target := 0, g_jumped := False, g_reset := False,
       g_write_call_count := 0, g_fail_write_from := - 1\<rparr>"

definition bl_host_flash_poke :: "host \<Rightarrow> u32 \<Rightarrow> u8 list option \<Rightarrow> nat \<Rightarrow> host option" where
  "bl_host_flash_poke h addr data len =
     (if \<not> (data \<noteq> None \<or> len = 0) then None
      else if \<not> flash_range_valid addr (of_nat len) then None
      else if len = 0 then Some h
      else Some (h\<lparr>g_flash := mem_upd (g_flash h) (unat (flash_offset addr)) (take len (the data))\<rparr>))"

section \<open>The host port as an implementation of the seam\<close>

definition host_port :: "host bl_port" where
  "host_port =
     \<lparr>port_layout = bl_port_layout,
      port_flash_erase = bl_flash_erase,
      port_flash_write = bl_flash_write,
      port_flash_read = bl_flash_read,
      port_write_granularity = bl_flash_write_granularity,
      port_erase_granularity = bl_flash_erase_granularity,
      port_crc32 = bl_port_crc32,
      port_jump_to_app = bl_jump_to_app\<rparr>"

section \<open>Addresses\<close>

lemma flash_range_valid_iff:
  "flash_range_valid a n \<longleftrightarrow> 0x08000000 \<le> unat a \<and> unat a + unat n \<le> 0x08040000"
proof (cases "n = 0")
  case True
  then show ?thesis by (auto simp: flash_range_valid_def Let_def word_le_nat_alt)
next
  case False
  then have n: "0 < unat n" by (simp add: unat_gt_0)
  show ?thesis
  proof (cases "0x08000000 \<le> unat a \<and> unat a < 0x08040000")
    case True
    then have "unat (a - 0x08000000) = unat a - 0x08000000"
      by (simp add: unat_sub word_le_nat_alt)
    moreover from this True have "unat (0x40000 - (a - 0x08000000)) = 0x08040000 - unat a"
      by (subst unat_sub) (auto simp: word_le_nat_alt)
    ultimately show ?thesis
      using True \<open>n \<noteq> 0\<close> by (auto simp: flash_range_valid_def Let_def word_le_nat_alt word_less_nat_alt)
  next
    case False
    with n \<open>n \<noteq> 0\<close> show ?thesis
      by (auto simp: flash_range_valid_def Let_def word_le_nat_alt word_less_nat_alt)
  qed
qed

lemma unat_flash_offset:
  "0x08000000 \<le> unat a \<Longrightarrow> unat (flash_offset a) = unat a - 0x08000000"
  by (simp add: flash_offset_def unat_sub word_le_nat_alt)

lemma unat_flash_offset_add:
  "0x08000000 \<le> unat a \<Longrightarrow> unat a + n \<le> 0x08040000 \<Longrightarrow> i < n \<Longrightarrow>
   unat (flash_offset a + of_nat i) = unat a - 0x08000000 + i"
  by (simp add: unat_word_ariths unat_flash_offset unat_of_nat)

lemma sub_base_mod:
  assumes "0x08000000 \<le> unat a" and "(0x08000000 :: nat) mod unat g = 0"
  shows "(a - HOST_FLASH_BASE) mod g = 0 \<longleftrightarrow> unat a mod unat g = 0"
proof -
  have "(a - HOST_FLASH_BASE) mod g = 0 \<longleftrightarrow> unat (flash_offset a) mod unat g = 0"
    by (simp add: flash_offset_def word_unat_eq_iff unat_mod)
  also have "\<dots> \<longleftrightarrow> (unat a - 0x08000000) mod unat g = 0"
    using assms(1) by (simp add: unat_flash_offset)
  also have "\<dots> \<longleftrightarrow> unat a mod unat g = 0"
    using assms by (metis dvd_diff_nat dvd_add mod_eq_0_iff_dvd le_add_diff_inverse2)
  finally show ?thesis .
qed

section \<open>The bitmap tracks single bytes\<close>

definition prog_bit :: "(nat \<Rightarrow> u8) \<Rightarrow> nat \<Rightarrow> bool" where
  "prog_bit w k = bit (w (k div 8)) (k mod 8)"

lemma and_push_bit_1_eq_0: "(x AND push_bit k 1) \<noteq> 0 \<longleftrightarrow> bit x k" for x :: u8
proof
  assume "(x AND push_bit k 1) \<noteq> 0"
  then obtain n where "bit (x AND push_bit k 1) n" by (auto simp: bit_eq_iff)
  then show "bit x k" by (auto simp: bit_simps)
next
  assume "bit x k"
  then have "bit (x AND push_bit k 1) k"
    using bit_imp_le_length [of x k] by (simp add: bit_simps)
  then show "(x AND push_bit k 1) \<noteq> 0" by auto
qed

lemma flash_byte_written_iff: "flash_byte_written w off \<longleftrightarrow> prog_bit w (unat off)"
  by (simp add: flash_byte_written_def Let_def prog_bit_def and_push_bit_1_eq_0 unat_div unat_mod
      del: push_bit_of_1)

lemma div_mod_8_eq_iff: "k = m \<longleftrightarrow> k div 8 = m div 8 \<and> k mod 8 = m mod 8" for k m :: nat
  by (metis div_mult_mod_eq)

lemma prog_bit_mark_written: "prog_bit (flash_mark_written w off) k \<longleftrightarrow> k = unat off \<or> prog_bit w k"
  by (auto simp: flash_mark_written_def Let_def prog_bit_def unat_div unat_mod bit_simps
      div_mod_8_eq_iff [of k "unat off"] simp del: push_bit_of_1)

lemma prog_bit_mark_erased: "prog_bit (flash_mark_erased w off) k \<longleftrightarrow> k \<noteq> unat off \<and> prog_bit w k"
  by (auto simp: flash_mark_erased_def Let_def prog_bit_def unat_div unat_mod bit_simps
      div_mod_8_eq_iff [of k "unat off"] simp del: push_bit_of_1)

lemma prog_bit_mark_written_loop:
  "prog_bit (fold (\<lambda>i w. flash_mark_written w (off + of_nat i)) is w) k \<longleftrightarrow>
   k \<in> (\<lambda>i. unat (off + of_nat i)) ` set is \<or> prog_bit w k"
  by (induction "is" arbitrary: w) (auto simp: prog_bit_mark_written)

lemma prog_bit_mark_erased_loop:
  "prog_bit (fold (\<lambda>i w. flash_mark_erased w (off + of_nat i)) is w) k \<longleftrightarrow>
   k \<notin> (\<lambda>i. unat (off + of_nat i)) ` set is \<and> prog_bit w k"
  by (induction "is" arbitrary: w) (auto simp: prog_bit_mark_erased)

text \<open>The loops store to the bytes that hold their bits, and to no other.\<close>

lemma mark_written_loop_frame:
  "(\<And>i. i \<in> set is \<Longrightarrow> unat (off + of_nat i) div 8 \<noteq> j) \<Longrightarrow>
   fold (\<lambda>i w. flash_mark_written w (off + of_nat i)) is w j = w j"
  by (induction "is" arbitrary: w) (auto simp: flash_mark_written_def Let_def unat_div)

lemma mark_erased_loop_frame:
  "(\<And>i. i \<in> set is \<Longrightarrow> unat (off + of_nat i) div 8 \<noteq> j) \<Longrightarrow>
   fold (\<lambda>i w. flash_mark_erased w (off + of_nat i)) is w j = w j"
  by (induction "is" arbitrary: w) (auto simp: flash_mark_erased_def Let_def unat_div)

lemma offset_image:
  assumes "0x08000000 \<le> unat a" and "unat a + n \<le> 0x08040000"
  shows "(\<lambda>i. unat (flash_offset a + of_nat i)) ` {0..<n} =
         {unat a - 0x08000000..<unat a - 0x08000000 + n}"
proof -
  have "(\<lambda>i. unat (flash_offset a + of_nat i)) ` {0..<n} =
      (\<lambda>i. unat a - 0x08000000 + i) ` {0..<n}"
    using assms by (intro image_cong) (auto simp: unat_flash_offset_add)
  also have "\<dots> = {unat a - 0x08000000..<unat a - 0x08000000 + n}"
    by (simp add: add.commute)
  finally show ?thesis .
qed

section \<open>The contract holds\<close>

text \<open>The arrays of the simulation have their declared sizes, the transport counters stay inside.\<close>

definition host_inv :: "host \<Rightarrow> bool" where
  "host_inv h \<longleftrightarrow>
     length (g_rx h) = HOST_RX_CAPACITY \<and> g_rx_pos h \<le> g_rx_len h \<and> g_rx_len h \<le> HOST_RX_CAPACITY \<and>
     length (g_tx h) = HOST_TX_CAPACITY \<and> g_tx_len h \<le> HOST_TX_CAPACITY"

lemma host_inv_init: "host_inv (snd (bl_port_init h))"
  by (simp add: host_inv_def bl_port_init_def)

definition host_mem :: "host \<Rightarrow> nat \<Rightarrow> u8" where
  "host_mem h x = (if 0x08000000 \<le> x then g_flash h (x - 0x08000000) else 0)"

definition host_prog :: "host \<Rightarrow> nat \<Rightarrow> bool" where
  "host_prog h x \<longleftrightarrow> 0x08000000 \<le> x \<and> prog_bit (g_written h) (x - 0x08000000)"

lemma bytes_at_host_mem:
  "0x08000000 \<le> a \<Longrightarrow> bytes_at (host_mem h) a n = bytes_at (g_flash h) (a - 0x08000000) n"
  by (rule nth_equalityI) (auto simp: host_mem_def)

lemma host_read:
  assumes "0x08000000 \<le> unat a" and "unat a + unat n \<le> 0x08040000"
  shows "bl_flash_read h a False n = Some (BL_OK, bytes_at (host_mem h) (unat a) (unat n))"
  using assms
  by (auto simp: bl_flash_read_def flash_range_valid_iff Let_def unat_flash_offset bytes_at_host_mem)

lemma host_erase:
  assumes range: "0x08000000 \<le> unat a" "unat a + unat n \<le> 0x08040000"
    and aligned: "unat a mod 2048 = 0" "unat n mod 2048 = 0"
  obtains h' where "bl_flash_erase h a n = Some (BL_OK, h')"
    and "host_mem h' = mem_fill (host_mem h) (unat a) (unat n) 0xFF"
    and "host_prog h' = mem_fill (host_prog h) (unat a) (unat n) False"
    and "\<And>w f. h'\<lparr>g_flash := f, g_written := w\<rparr> = h\<lparr>g_flash := f, g_written := w\<rparr>"
proof (cases "n = 0")
  case True
  with that [of h] range show ?thesis
    by (auto simp: bl_flash_erase_def flash_range_valid_iff)
next
  case False
  let ?h' = "h\<lparr>g_flash := mem_fill (g_flash h) (unat (flash_offset a)) (unat n) 0xFF,
      g_written := fold (\<lambda>i w. flash_mark_erased w (flash_offset a + of_nat i)) [0..<unat n] (g_written h)\<rparr>"
  have "bl_flash_erase h a n = Some (BL_OK, ?h')"
    using False range aligned sub_base_mod [of a 2048]
    by (simp add: bl_flash_erase_def flash_range_valid_iff Let_def word_unat_eq_iff unat_mod)
  moreover have "host_mem ?h' = mem_fill (host_mem h) (unat a) (unat n) 0xFF"
    using range by (auto simp: host_mem_def mem_fill_def unat_flash_offset fun_eq_iff)
  moreover have "host_prog ?h' = mem_fill (host_prog h) (unat a) (unat n) False"
    using range by (auto simp: host_prog_def mem_fill_def prog_bit_mark_erased_loop offset_image fun_eq_iff)
  ultimately show ?thesis using that by simp
qed

text \<open>A legal write: the injected failure decides between no change and the whole change.\<close>

lemma host_write:
  assumes range: "0x08000000 \<le> unat a" "unat a + unat n \<le> 0x08040000"
    and aligned: "unat a mod 8 = 0" "unat n mod 8 = 0" and len: "length data = unat n"
    and fresh: "\<And>x. unat a \<le> x \<Longrightarrow> x < unat a + unat n \<Longrightarrow> \<not> host_prog h x"
  obtains h' where "bl_flash_write h a (Some data) n =
      Some (if n \<noteq> 0 \<and> g_write_call_count h \<ge> g_fail_write_from h then BL_ERR_FLASH_PROGRAM else BL_OK, h')"
    and "host_mem h' = (if n \<noteq> 0 \<and> g_write_call_count h \<ge> g_fail_write_from h then host_mem h
           else mem_upd (host_mem h) (unat a) data)"
    and "host_prog h' = (if n \<noteq> 0 \<and> g_write_call_count h \<ge> g_fail_write_from h then host_prog h
           else mem_fill (host_prog h) (unat a) (unat n) True)"
    and "g_fail_write_from h' = g_fail_write_from h"
    and "g_write_call_count h' = (if n = 0 then g_write_call_count h else g_write_call_count h + 1)"
    and "\<And>w f c. h'\<lparr>g_flash := f, g_written := w, g_write_call_count := c\<rparr> =
           h\<lparr>g_flash := f, g_written := w, g_write_call_count := c\<rparr>"
proof (cases "n = 0")
  case True
  with that [of h] range len show ?thesis
    by (auto simp: bl_flash_write_def flash_range_valid_iff)
next
  case False
  let ?h1 = "h\<lparr>g_write_call_count := g_write_call_count h + 1\<rparr>"
  let ?h' = "?h1\<lparr>g_flash := mem_upd (g_flash h) (unat (flash_offset a)) data,
      g_written := fold (\<lambda>i w. flash_mark_written w (flash_offset a + of_nat i)) [0..<unat n] (g_written h)\<rparr>"
  have "\<not> list_ex (\<lambda>i. flash_byte_written (g_written h) (flash_offset a + of_nat i)) [0..<unat n]"
  proof
    assume "list_ex (\<lambda>i. flash_byte_written (g_written h) (flash_offset a + of_nat i)) [0..<unat n]"
    then obtain i where i: "i < unat n" "prog_bit (g_written h) (unat a - 0x08000000 + i)"
      using range by (auto simp: list_ex_iff flash_byte_written_iff unat_flash_offset_add)
    with fresh [of "unat a + i"] range show False by (simp add: host_prog_def)
  qed
  then have wr: "bl_flash_write h a (Some data) n =
      Some (if g_write_call_count h \<ge> g_fail_write_from h then (BL_ERR_FLASH_PROGRAM, ?h1) else (BL_OK, ?h'))"
    using False range aligned len sub_base_mod [of a 8]
    by (simp add: bl_flash_write_def flash_range_valid_iff Let_def word_unat_eq_iff unat_mod)
  have mem: "host_mem ?h' = mem_upd (host_mem h) (unat a) data"
    using range by (auto simp: host_mem_def mem_upd_def unat_flash_offset fun_eq_iff diff_right_commute)
  have prog: "host_prog ?h' = mem_fill (host_prog h) (unat a) (unat n) True"
    using range by (auto simp: host_prog_def mem_fill_def prog_bit_mark_written_loop offset_image fun_eq_iff)
  show ?thesis
  proof (cases "g_write_call_count h \<ge> g_fail_write_from h")
    case True
    then show ?thesis using that [of ?h1] wr False by (simp add: host_mem_def host_prog_def fun_eq_iff)
  next
    case nofail: False
    then show ?thesis using that [of ?h'] wr False mem prog by simp
  qed
qed

lemma g_layout_wf: "layout_wf g_layout 0x08000000 0x08040000"
  by (simp add: layout_wf_def g_layout_def regions_disjoint_def)

lemma host_port_simps [simp]:
  "port_layout host_port = g_layout"
  "port_flash_erase host_port = bl_flash_erase"
  "port_flash_write host_port = bl_flash_write"
  "port_flash_read host_port = bl_flash_read"
  "port_write_granularity host_port = 8"
  "port_erase_granularity host_port = bl_flash_erase_granularity"
  "port_crc32 host_port = bl_crc32"
  "port_jump_to_app host_port = bl_jump_to_app"
  by (simp_all add: host_port_def bl_port_layout_def bl_flash_write_granularity_def
      bl_port_crc32_def fun_eq_iff)

lemma host_erase_legal:
  "0x08000000 \<le> unat a \<Longrightarrow> unat a < 0x08040000 \<Longrightarrow>
   erase_legal host_port a n \<longleftrightarrow> unat a mod 2048 = 0 \<and> unat n mod 2048 = 0"
  by (simp add: erase_legal_def bl_flash_erase_granularity_def word_le_nat_alt word_less_nat_alt
      word_unat_eq_iff unat_mod)

lemma jump_unchanged:
  "g_flash (bl_jump_to_app h a) = g_flash h" "g_written (bl_jump_to_app h a) = g_written h"
  "host_inv (bl_jump_to_app h a) = host_inv h"
  by (simp_all add: bl_jump_to_app_def host_inv_def Let_def split: option.splits)

lemma host_flash_port: "flash_port host_port host_inv host_mem host_prog 0x08000000 0x08040000"
proof
  fix s a n
  assume inv: "host_inv s" and range: "0x08000000 \<le> unat a" "unat a + unat n \<le> 0x08040000"
    and legal: "erase_legal host_port a n"
  show "\<exists>r s'. port_flash_erase host_port s a n = Some (r, s') \<and> host_inv s' \<and>
      (\<forall>x. x < unat a \<or> unat a + unat n \<le> x \<longrightarrow>
        host_mem s' x = host_mem s x \<and> host_prog s' x = host_prog s x) \<and>
      (r = BL_OK \<longrightarrow> (\<forall>x. unat a \<le> x \<and> x < unat a + unat n \<longrightarrow> host_mem s' x = 0xFF \<and> \<not> host_prog s' x))"
  proof -
    from legal have "unat a < 0x08040000"
      by (auto simp: erase_legal_def bl_flash_erase_granularity_def word_less_nat_alt split: if_splits)
    with legal range have "unat a mod 2048 = 0" "unat n mod 2048 = 0"
      by (simp_all add: host_erase_legal)
    from host_erase [OF range this, of s] obtain h' where h': "bl_flash_erase s a n = Some (BL_OK, h')"
      "host_mem h' = mem_fill (host_mem s) (unat a) (unat n) 0xFF"
      "host_prog h' = mem_fill (host_prog s) (unat a) (unat n) False"
      "\<And>w f. h'\<lparr>g_flash := f, g_written := w\<rparr> = s\<lparr>g_flash := f, g_written := w\<rparr>"
      by blast
    from h'(4) inv have "host_inv h'"
      by (cases h', cases s) (simp add: host_inv_def)
    with h' show ?thesis by (auto simp: mem_fill_def)
  qed
next
  fix s and a n :: u32 and data :: "u8 list"
  assume inv: "host_inv s" and range: "0x08000000 \<le> unat a" "unat a + unat n \<le> 0x08040000"
    and len: "length data = unat n"
    and al: "unat a mod unat (port_write_granularity host_port) = 0"
      "unat n mod unat (port_write_granularity host_port) = 0"
    and fresh: "\<And>x. unat a \<le> x \<Longrightarrow> x < unat a + unat n \<Longrightarrow> \<not> host_prog s x"
  from al have al8: "unat a mod 8 = 0" "unat n mod 8 = 0" by simp_all
  show "\<exists>r s'. port_flash_write host_port s a (Some data) n = Some (r, s') \<and> host_inv s' \<and>
      (\<forall>x. x < unat a \<or> unat a + unat n \<le> x \<longrightarrow>
        host_mem s' x = host_mem s x \<and> host_prog s' x = host_prog s x) \<and>
      (r = BL_OK \<longrightarrow> bytes_at (host_mem s') (unat a) (unat n) = data)"
  proof (rule host_write [OF range al8 len fresh])
    fix h'
    assume h': "bl_flash_write s a (Some data) n =
        Some (if n \<noteq> 0 \<and> g_write_call_count s \<ge> g_fail_write_from s then BL_ERR_FLASH_PROGRAM else BL_OK, h')"
      "host_mem h' = (if n \<noteq> 0 \<and> g_write_call_count s \<ge> g_fail_write_from s then host_mem s
           else mem_upd (host_mem s) (unat a) data)"
      "host_prog h' = (if n \<noteq> 0 \<and> g_write_call_count s \<ge> g_fail_write_from s then host_prog s
           else mem_fill (host_prog s) (unat a) (unat n) True)"
      "\<And>w f c. h'\<lparr>g_flash := f, g_written := w, g_write_call_count := c\<rparr> =
           s\<lparr>g_flash := f, g_written := w, g_write_call_count := c\<rparr>"
    from h'(4) inv have "host_inv h'"
      by (cases h', cases s) (simp add: host_inv_def)
    moreover have "bytes_at (mem_upd (host_mem s) (unat a) data) (unat a) (unat n) = data"
      using len by (metis bytes_at_mem_upd_same)
    ultimately show ?thesis
      using h'(1-3) len by (auto simp: mem_fill_def mem_upd_def)
  qed auto
qed (use g_layout_wf in \<open>auto simp: bl_flash_erase_granularity_def word_le_nat_alt
    word_less_nat_alt host_read host_mem_def host_prog_def jump_unchanged\<close>)

interpretation host: flash_port host_port host_inv host_mem host_prog "0x08000000" "0x08040000"
  by (rule host_flash_port)

lemma host_write_failed:
  "bl_flash_write h a (Some data) n = Some (r, h') \<Longrightarrow> r \<noteq> BL_OK \<Longrightarrow>
   r = BL_ERR_FLASH_PROGRAM \<and> host_mem h' = host_mem h \<and> host_prog h' = host_prog h"
  by (auto simp: bl_flash_write_def Let_def host_mem_def host_prog_def fun_eq_iff split: if_splits)

interpretation host: readable_flash_port host_port host_inv host_mem host_prog "0x08000000" "0x08040000"
  by unfold_locales (simp add: host_read)

interpretation host: atomic_flash_port host_port host_inv host_mem host_prog "0x08000000" "0x08040000"
  by unfold_locales
    (use host_write_failed in \<open>auto simp: bl_flash_erase_def Let_def split: if_splits\<close>)

text \<open>No injected failure is due.\<close>

definition host_ready :: "host \<Rightarrow> bool" where
  "host_ready h \<longleftrightarrow> g_write_call_count h < g_fail_write_from h"

interpretation host: reliable_flash_port host_port host_inv host_mem host_prog "0x08000000" "0x08040000" host_ready
  by unfold_locales
    (auto simp: bl_flash_erase_def bl_flash_write_def host_ready_def Let_def split: if_splits)

lemma host_ready_reboot [simp]: "host_ready (bl_host_reboot h)"
  by (simp add: host_ready_def bl_host_reboot_def word_neq_0_conv [symmetric])

section \<open>Array bounds\<close>

lemma flash_range_valid_offset:
  "flash_range_valid a n \<Longrightarrow> unat (flash_offset a) + unat n \<le> unat HOST_FLASH_SIZE"
  by (auto simp: flash_range_valid_iff unat_flash_offset)

lemma flash_range_valid_image:
  "flash_range_valid a n \<Longrightarrow> i < unat n \<Longrightarrow> unat (flash_offset a + of_nat i) < unat HOST_FLASH_SIZE"
  using unat_flash_offset_add [of a "unat n" i] by (auto simp: flash_range_valid_iff)

text \<open>
  Stores stay inside \<open>g_flash\<close> and \<open>g_written\<close> (one bit per byte), whatever the arguments:
  an operation that would leave the arrays does not return.
\<close>

definition same_beyond_arrays :: "host \<Rightarrow> host \<Rightarrow> bool" where
  "same_beyond_arrays h h' \<longleftrightarrow>
     (\<forall>k\<ge>unat HOST_FLASH_SIZE. g_flash h' k = g_flash h k) \<and>
     (\<forall>k\<ge>unat HOST_FLASH_SIZE div 8. g_written h' k = g_written h k)"

lemma same_beyond_arrays_refl [simp]: "same_beyond_arrays h h"
  by (simp add: same_beyond_arrays_def)

lemma same_beyond_arrays_trans:
  "same_beyond_arrays h h' \<Longrightarrow> same_beyond_arrays h' h'' \<Longrightarrow> same_beyond_arrays h h''"
  by (simp add: same_beyond_arrays_def)

lemma same_beyond_arrays_cong:
  "g_flash h' = g_flash h \<Longrightarrow> g_written h' = g_written h \<Longrightarrow> same_beyond_arrays h h'"
  by (simp add: same_beyond_arrays_def)

lemma host_erase_bounds:
  assumes "bl_flash_erase h a n = Some (r, h')"
  shows "same_beyond_arrays h h'"
proof -
  from assms have valid: "flash_range_valid a n" and
    h': "h' = h \<or>
      g_flash h' = mem_fill (g_flash h) (unat (flash_offset a)) (unat n) 0xFF \<and>
      g_written h' = fold (\<lambda>i w. flash_mark_erased w (flash_offset a + of_nat i)) [0..<unat n] (g_written h)"
    by (auto simp: bl_flash_erase_def Let_def split: if_splits)
  have "fold (\<lambda>i w. flash_mark_erased w (flash_offset a + of_nat i)) [0..<unat n] w k = w k"
    if "unat HOST_FLASH_SIZE div 8 \<le> k" for w k
    using flash_range_valid_image [OF valid] that by (intro mark_erased_loop_frame) fastforce
  then show ?thesis
    using flash_range_valid_offset [OF valid] h' by (auto simp: same_beyond_arrays_def mem_fill_def)
qed

lemma host_write_bounds:
  assumes "bl_flash_write h a (Some d) n = Some (r, h')" and "length d = unat n"
  shows "same_beyond_arrays h h'"
proof -
  from assms have valid: "flash_range_valid a n" and
    h': "g_flash h' = g_flash h \<and> g_written h' = g_written h \<or>
      g_flash h' = mem_upd (g_flash h) (unat (flash_offset a)) d \<and>
      g_written h' = fold (\<lambda>i w. flash_mark_written w (flash_offset a + of_nat i)) [0..<unat n] (g_written h)"
    by (auto simp: bl_flash_write_def Let_def split: if_splits)
  have "fold (\<lambda>i w. flash_mark_written w (flash_offset a + of_nat i)) [0..<unat n] w k = w k"
    if "unat HOST_FLASH_SIZE div 8 \<le> k" for w k
    using flash_range_valid_image [OF valid] that by (intro mark_written_loop_frame) fastforce
  then show ?thesis
    using flash_range_valid_offset [OF valid] h' assms(2) by (auto simp: same_beyond_arrays_def mem_upd_def)
qed

section \<open>The jump\<close>

text \<open>A usable vector table at \<open>base\<close>: in a slot, aligned, with a stack pointer in SRAM and a
  Thumb reset vector inside the same slot.\<close>

definition jump_ok :: "(nat \<Rightarrow> u8) \<Rightarrow> u32 \<Rightarrow> bool" where
  "jump_ok m base \<longleftrightarrow>
     (case find_slot_for_address base of
        None \<Rightarrow> False
      | Some (slot_base, slot_end) \<Rightarrow>
          unat base mod 512 = 0 \<and>
          (let msp = get_u32_le (bytes_at m (unat base) 4);
               reset_vector = get_u32_le (bytes_at m (unat base + 4) 4) in
           HOST_SRAM_BASE \<le> msp \<and> msp \<le> HOST_SRAM_END \<and> msp AND 3 = 0 \<and>
           reset_vector AND 1 \<noteq> 0 \<and>
           slot_base \<le> reset_vector AND NOT 1 \<and> reset_vector AND NOT 1 < slot_end))"

lemma find_slot_range:
  assumes "find_slot_for_address base = Some (slot_base, slot_end)"
  shows "0x08009000 \<le> unat base" and "unat base < 0x0803F000"
  using assms by (auto simp: find_slot_for_address_def g_layout_def Let_def word_le_nat_alt word_less_nat_alt
      split: if_splits)

lemma guard_chain:
  "(if a then x else if b then x else if c then x else if d then x else if e then x else if f then x else y) =
   (if \<not> a \<and> \<not> b \<and> \<not> c \<and> \<not> d \<and> \<not> e \<and> \<not> f then y else x)"
  by simp

lemma jump_eq:
  "bl_jump_to_app h base =
     (if jump_ok (host_mem h) base then h\<lparr>g_jump_target := base, g_jumped := True\<rparr> else h)"
proof (cases "find_slot_for_address base")
  case None
  then show ?thesis by (simp add: bl_jump_to_app_def jump_ok_def)
next
  case (Some be)
  obtain b e where be: "be = (b, e)" by (cases be)
  note range = find_slot_range [OF Some [unfolded be]]
  have valid: "flash_range_valid base 8" using range by (simp add: flash_range_valid_iff)
  have off: "unat (flash_offset base) = unat base - 0x08000000"
    using range by (simp add: unat_flash_offset)
  have off4: "unat (flash_offset base + 4) = unat base + 4 - 0x08000000"
    using unat_flash_offset_add [of base 8 4] range by simp
  have al: "base mod HOST_VTOR_ALIGNMENT = 0 \<longleftrightarrow> unat base mod 512 = 0"
    by (simp add: word_unat_eq_iff unat_mod)
  have b1: "bytes_at (g_flash h) (unat (flash_offset base)) 4 = bytes_at (host_mem h) (unat base) 4"
    using range off by (simp add: bytes_at_host_mem)
  have b2: "bytes_at (g_flash h) (unat (flash_offset base + 4)) 4 = bytes_at (host_mem h) (unat base + 4) 4"
    using range off4 by (simp add: bytes_at_host_mem)
  show ?thesis
    unfolding bl_jump_to_app_def jump_ok_def Some be option.case prod.case Let_def b1 b2 al
    by (simp only: guard_chain valid simp_thms de_Morgan_disj linorder_not_less linorder_not_le not_not conj_assoc)
qed

end
