(* ===== verification/Bl_Meta.thy ===== *)
theory Bl_Meta
  imports Bl_Port_Host "HOL-Library.Monad_Syntax"
begin

text \<open>
  Persistent boot metadata, \<open>core/include/bl_meta.h\<close> and \<open>core/src/bl_meta.c\<close>: two
  flash regions written alternately, the valid record with the highest sequence number
  being authoritative.

  Functions that store through an output pointer return \<open>Inr\<close> of the stored value with
  \<open>BL_OK\<close> and \<open>Inl\<close> of the error code otherwise (nothing is stored then); a pointer
  the code compares with \<open>NULL\<close> is a flag saying that it is null.

  The lemmas, for every port that keeps the contract of \<open>Bl_Port\<close>: what a region reads
  as is a function of its bytes; a commit goes to the region that is not
  authoritative, so the authoritative record survives whatever happens to it.

  No definition here mentions the host port; it is imported so that every lemma of the
  port locales is at once a fact \<open>host.\<dots>\<close> about the simulated device.
\<close>

section \<open>The record\<close>

definition BL_MAX_BOOT_ATTEMPTS :: u8 where [simp]: "BL_MAX_BOOT_ATTEMPTS = 3"

definition BL_BOOT_CONFIRMED :: u8 where [simp]: "BL_BOOT_CONFIRMED = 1"
definition BL_BOOT_TRIAL :: u8 where [simp]: "BL_BOOT_TRIAL = 2"

record bl_meta =
  meta_seq :: u32
  meta_active_slot :: u8
  meta_state :: u8
  meta_boot_attempts :: u8
  meta_reserved :: "u8 list"
  meta_crc32 :: u32

definition SIZEOF_META :: nat where [simp]: "SIZEOF_META = 16"
definition OFFSETOF_META_CRC32 :: nat where [simp]: "OFFSETOF_META_CRC32 = 12"

definition meta_bytes :: "bl_meta \<Rightarrow> u8 list" where
  "meta_bytes m =
     put_u32_le (meta_seq m) @ [meta_active_slot m, meta_state m, meta_boot_attempts m] @
     meta_reserved m @ put_u32_le (meta_crc32 m)"

definition meta_of_bytes :: "u8 list \<Rightarrow> bl_meta" where
  "meta_of_bytes bs =
     \<lparr>meta_seq = get_u32_le (take 4 bs),
      meta_active_slot = bs ! 4,
      meta_state = bs ! 5,
      meta_boot_attempts = bs ! 6,
      meta_reserved = take 5 (drop 7 bs),
      meta_crc32 = get_u32_le (take 4 (drop 12 bs))\<rparr>"

definition meta_wf :: "bl_meta \<Rightarrow> bool" where
  "meta_wf m \<longleftrightarrow> length (meta_reserved m) = 5"

lemma length_meta_bytes [le_simps]: "meta_wf m \<Longrightarrow> length (meta_bytes m) = SIZEOF_META"
  by (simp add: meta_bytes_def meta_wf_def)

lemma meta_of_bytes_wf [le_simps]: "length bs = SIZEOF_META \<Longrightarrow> meta_wf (meta_of_bytes bs)"
  by (simp add: meta_wf_def meta_of_bytes_def)

lemma meta_of_meta_bytes [le_simps]: "meta_wf m \<Longrightarrow> meta_of_bytes (meta_bytes m) = m"
  by (simp add: meta_of_bytes_def meta_bytes_def meta_wf_def nth_append)

section \<open>The code\<close>

definition meta_crc :: "bl_meta \<Rightarrow> u32" where
  "meta_crc record = bl_crc32 0 (take OFFSETOF_META_CRC32 (meta_bytes record))"

definition state_is_valid :: "u8 \<Rightarrow> bool" where
  "state_is_valid state \<longleftrightarrow> state = BL_BOOT_CONFIRMED \<or> state = BL_BOOT_TRIAL"

text \<open>\<open>Some None\<close>: the region holds no valid record (\<open>false\<close> in the source).\<close>

definition read_region :: "'s bl_port \<Rightarrow> 's \<Rightarrow> nat \<Rightarrow> bl_meta option option" where
  "read_region P s index = do {
     (result, bytes) \<leftarrow> port_flash_read P s (region_base (layout_meta (port_layout P) ! index)) False
                          (of_nat SIZEOF_META);
     if result \<noteq> BL_OK then Some None
     else
       let record = meta_of_bytes bytes in
       if meta_crc32 record \<noteq> meta_crc record then Some None
       else if meta_active_slot record \<ge> BL_SLOT_COUNT then Some None
       else if \<not> state_is_valid (meta_state record) then Some None
       else Some (Some record)
   }"

text \<open>The loop of \<open>find_newest\<close>; \<open>best\<close> is \<open>*out\<close> and \<open>*index_out\<close> once \<open>found\<close>.\<close>

definition newer :: "(bl_meta \<times> nat) option \<Rightarrow> bl_meta option \<Rightarrow> nat \<Rightarrow> (bl_meta \<times> nat) option" where
  "newer best candidate i =
     (case candidate of
        None \<Rightarrow> best
      | Some c \<Rightarrow>
          (case best of
             None \<Rightarrow> Some (c, i)
           | Some (out, index_out) \<Rightarrow> if meta_seq c > meta_seq out then Some (c, i) else best))"

fun find_newest_loop ::
    "'s bl_port \<Rightarrow> 's \<Rightarrow> nat list \<Rightarrow> (bl_meta \<times> nat) option \<Rightarrow> (bl_meta \<times> nat) option option" where
  "find_newest_loop P s [] best = Some best"
| "find_newest_loop P s (i # is) best = do {
     candidate \<leftarrow> read_region P s i;
     find_newest_loop P s is (newer best candidate i)
   }"

definition find_newest :: "'s bl_port \<Rightarrow> 's \<Rightarrow> (bl_meta \<times> nat) option option" where
  "find_newest P s = find_newest_loop P s [0..<BL_META_COUNT] None"

definition bl_meta_read :: "'s bl_port \<Rightarrow> bool \<Rightarrow> 's \<Rightarrow> (bl_result + bl_meta) option" where
  "bl_meta_read P out_null s =
     (if out_null then Some (Inl BL_ERR_NULL_POINTER)
      else do {
        found \<leftarrow> find_newest P s;
        Some (case found of None \<Rightarrow> Inl BL_ERR_NO_METADATA | Some (newest, index) \<Rightarrow> Inr newest)
      })"

text \<open>The record a commit writes, from the authoritative one if there is any.\<close>

definition meta_record :: "u32 \<Rightarrow> u8 \<Rightarrow> u8 \<Rightarrow> u8 \<Rightarrow> bl_meta" where
  "meta_record seq active_slot state boot_attempts =
     (let record = \<lparr>meta_seq = seq, meta_active_slot = active_slot, meta_state = state,
        meta_boot_attempts = boot_attempts, meta_reserved = replicate 5 0, meta_crc32 = 0\<rparr>
      in record\<lparr>meta_crc32 := meta_crc record\<rparr>)"

definition commit_target :: "(bl_meta \<times> nat) option \<Rightarrow> u32 \<times> nat" where
  "commit_target found =
     (case found of
        None \<Rightarrow> (1, 0)
      | Some (newest, newest_index) \<Rightarrow> (meta_seq newest + 1, (newest_index + 1) mod BL_META_COUNT))"

definition meta_verified :: "bl_meta option \<Rightarrow> bl_meta \<Rightarrow> bool" where
  "meta_verified readback record \<longleftrightarrow>
     (case readback of
        None \<Rightarrow> False
      | Some verify \<Rightarrow>
          \<not> (meta_seq verify \<noteq> meta_seq record \<or>
             meta_active_slot verify \<noteq> meta_active_slot record \<or>
             meta_state verify \<noteq> meta_state record \<or>
             meta_boot_attempts verify \<noteq> meta_boot_attempts record))"

definition bl_meta_commit :: "'s bl_port \<Rightarrow> u8 \<Rightarrow> u8 \<Rightarrow> u8 \<Rightarrow> 's \<Rightarrow> (bl_result \<times> 's) option" where
  "bl_meta_commit P active_slot state boot_attempts s =
     (if active_slot \<ge> BL_SLOT_COUNT \<or> \<not> state_is_valid state
      then Some (BL_ERR_INVALID_ARGUMENT, s)
      else do {
        found \<leftarrow> find_newest P s;
        let (next_seq, target_index) = commit_target found;
        let record = meta_record next_seq active_slot state boot_attempts;
        let base = region_base (layout_meta (port_layout P) ! target_index);
        let size = region_size (layout_meta (port_layout P) ! target_index);
        granularity \<leftarrow> port_erase_granularity P base;
        if granularity = 0 \<or> base mod granularity \<noteq> 0 \<or> size mod granularity \<noteq> 0
        then Some (BL_ERR_INVALID_ARGUMENT, s)
        else do {
          (result, s) \<leftarrow> port_flash_erase P s base size;
          if result \<noteq> BL_OK then Some (result, s)
          else do {
            (result, s) \<leftarrow> port_flash_write P s base (Some (meta_bytes record)) (of_nat SIZEOF_META);
            if result \<noteq> BL_OK then Some (result, s)
            else do {
              verify \<leftarrow> read_region P s target_index;
              Some (if meta_verified verify record then BL_OK else BL_ERR_FLASH_VERIFY, s)
            }
          }
        }
      })"

fun erase_all_loop :: "'s bl_port \<Rightarrow> nat list \<Rightarrow> 's \<Rightarrow> (bl_result \<times> 's) option" where
  "erase_all_loop P [] s = Some (BL_OK, s)"
| "erase_all_loop P (i # is) s = do {
     (result, s) \<leftarrow> port_flash_erase P s (region_base (layout_meta (port_layout P) ! i))
                      (region_size (layout_meta (port_layout P) ! i));
     if result \<noteq> BL_OK then Some (result, s) else erase_all_loop P is s
   }"

definition bl_meta_erase_all :: "'s bl_port \<Rightarrow> 's \<Rightarrow> (bl_result \<times> 's) option" where
  "bl_meta_erase_all P s = erase_all_loop P [0..<BL_META_COUNT] s"

section \<open>What the regions hold\<close>

text \<open>The record a region's first sixteen bytes stand for, if they form a valid one.\<close>

definition region_record :: "u8 list \<Rightarrow> bl_meta option" where
  "region_record bytes =
     (let record = meta_of_bytes bytes in
      if meta_crc32 record = meta_crc record \<and> meta_active_slot record < BL_SLOT_COUNT \<and>
         state_is_valid (meta_state record)
      then Some record else None)"

definition meta_view :: "bl_layout \<Rightarrow> (nat \<Rightarrow> u8) \<Rightarrow> nat \<Rightarrow> bl_meta option" where
  "meta_view L m i = region_record (bytes_at m (region_lo (layout_meta L ! i)) SIZEOF_META)"

text \<open>The authoritative record and its region: the specification of \<open>find_newest\<close>.\<close>

definition meta_authoritative :: "bl_layout \<Rightarrow> (nat \<Rightarrow> u8) \<Rightarrow> (bl_meta \<times> nat) option" where
  "meta_authoritative L m =
     (case (meta_view L m 0, meta_view L m 1) of
        (None, None) \<Rightarrow> None
      | (Some a, None) \<Rightarrow> Some (a, 0)
      | (None, Some b) \<Rightarrow> Some (b, 1)
      | (Some a, Some b) \<Rightarrow> if meta_seq b > meta_seq a then Some (b, 1) else Some (a, 0))"

lemma meta_crc_update_crc [simp]: "meta_wf m \<Longrightarrow> meta_crc (m\<lparr>meta_crc32 := c\<rparr>) = meta_crc m"
  by (simp add: meta_crc_def meta_bytes_def meta_wf_def)

lemma meta_record_fields [simp]:
  "meta_seq (meta_record q a t n) = q"
  "meta_active_slot (meta_record q a t n) = a"
  "meta_state (meta_record q a t n) = t"
  "meta_boot_attempts (meta_record q a t n) = n"
  "meta_wf (meta_record q a t n)"
  "meta_crc32 (meta_record q a t n) = meta_crc (meta_record q a t n)"
  by (simp_all add: meta_record_def meta_wf_def Let_def meta_crc_def meta_bytes_def)

lemma region_record_meta_record:
  "a < BL_SLOT_COUNT \<Longrightarrow> state_is_valid t \<Longrightarrow>
   region_record (meta_bytes (meta_record q a t n)) = Some (meta_record q a t n)"
  by (simp add: region_record_def Let_def meta_of_meta_bytes)

text \<open>Erased flash is not a record.\<close>

lemma region_record_erased [simp]: "region_record (replicate 16 0xFF) = None"
  by (simp add: region_record_def Let_def meta_of_bytes_def)

lemma meta_view_valid:
  "meta_view L m i = Some r \<Longrightarrow> meta_active_slot r < BL_SLOT_COUNT \<and> state_is_valid (meta_state r)"
  by (auto simp: meta_view_def region_record_def Let_def split: if_splits)

lemma meta_authoritative_Some:
  "meta_authoritative L m = Some (r, i) \<Longrightarrow> i < 2 \<and> meta_view L m i = Some r"
  by (auto simp: meta_authoritative_def split: option.splits if_splits)

lemma meta_authoritative_exists:
  "meta_view L m i = Some r \<Longrightarrow> i < 2 \<Longrightarrow> \<exists>r' i'. meta_authoritative L m = Some (r', i')"
  by (auto simp: meta_authoritative_def less_2_cases_iff split: option.split)

lemma meta_authoritative_cong:
  assumes "\<And>i. i < 2 \<Longrightarrow> meta_view L m i = meta_view L m' i"
  shows "meta_authoritative L m = meta_authoritative L m'"
  using assms [of 0] assms [of 1] by (simp add: meta_authoritative_def)

lemma meta_authoritative_newest:
  assumes "meta_authoritative L m = Some (r, i)" and "j < 2" and "meta_view L m j = Some r'"
  shows "meta_seq r' \<le> meta_seq r"
  using assms by (cases "j = 0") (auto simp: meta_authoritative_def less_2_cases_iff split: option.splits if_splits)

text \<open>A record with a higher sequence number in the other region takes over.\<close>

lemma meta_authoritative_supersede:
  assumes "meta_view L m j = Some r'" and "j < 2" "j' < 2" "j' \<noteq> j"
    and "\<And>r. meta_view L m j' = Some r \<Longrightarrow> meta_seq r < meta_seq r'"
  shows "meta_authoritative L m = Some (r', j)"
  using assms by (auto simp: meta_authoritative_def less_2_cases_iff split: option.splits)

lemma commit_bad_arguments:
  "\<not> (a < BL_SLOT_COUNT \<and> state_is_valid t) \<Longrightarrow>
   bl_meta_commit P a t n s = Some (BL_ERR_INVALID_ARGUMENT, s)"
  by (auto simp: bl_meta_commit_def linorder_not_less simp del: BL_SLOT_COUNT_def)

text \<open>What every program and every erase keeps, a commit keeps.\<close>

lemma commit_keeps:
  assumes erase: "\<And>s b z r s'. port_flash_erase P s b z = Some (r, s') \<Longrightarrow> Q s \<Longrightarrow> Q s'"
    and program: "\<And>s b d z r s'. port_flash_write P s b d z = Some (r, s') \<Longrightarrow> Q s \<Longrightarrow> Q s'"
    and "bl_meta_commit P a t n s = Some (r, s')" and "Q s"
  shows "Q s'"
  using assms(3,4) unfolding bl_meta_commit_def Let_def
  by (auto elim!: bind_SomeE split: if_splits prod.splits) (blast intro: erase program)+

section \<open>Frames\<close>

definition slots_agree :: "bl_layout \<Rightarrow> (nat \<Rightarrow> 'b) \<Rightarrow> (nat \<Rightarrow> 'b) \<Rightarrow> bool" where
  "slots_agree L m m' \<longleftrightarrow>
     (\<forall>i<2. \<forall>x. region_lo (layout_slot L ! i) \<le> x \<and> x < region_hi (layout_slot L ! i) \<longrightarrow> m x = m' x)"

definition meta_erasable :: "'s bl_port \<Rightarrow> bool" where
  "meta_erasable P \<longleftrightarrow>
     list_all (\<lambda>r. erase_legal P (region_base r) (region_size r)) (layout_meta (port_layout P))"

text \<open>Whether the read of a region's record succeeds, and what \<open>read_region\<close> then sees of it.\<close>

definition region_readable :: "'s bl_port \<Rightarrow> 's \<Rightarrow> nat \<Rightarrow> bool" where
  "region_readable P s i \<longleftrightarrow>
     (case port_flash_read P s (region_base (layout_meta (port_layout P) ! i)) False (of_nat SIZEOF_META) of
        None \<Rightarrow> False
      | Some (result, bytes) \<Rightarrow> result = BL_OK)"

section \<open>Whatever the port reports\<close>

text \<open>Reads, erases and writes may all fail here.\<close>

context flash_port
begin

lemma meta_erasable_nth:
  "meta_erasable P \<Longrightarrow> i < 2 \<Longrightarrow>
   erase_legal P (region_base (layout_meta (port_layout P) ! i)) (region_size (layout_meta (port_layout P) ! i))"
  using layout_ok by (simp add: meta_erasable_def layout_wf_def list_all_length)

text \<open>
  The step every commit ends with, on the region it targets: the outcome of the erase
  and the write decides, and nothing outside the region changes.
\<close>

lemma commit_region:
  assumes inv: "pinv s" and i: "i < 2"
    and legal: "erase_legal P (region_base (layout_meta (port_layout P) ! i))
                  (region_size (layout_meta (port_layout P) ! i))"
    and len: "length bs = 16"
  defines "r \<equiv> layout_meta (port_layout P) ! i"
  obtains res s1 where "port_flash_erase P s (region_base r) (region_size r) = Some (res, s1)"
    and "pinv s1"
    and "\<forall>x. x < region_lo r \<or> region_hi r \<le> x \<longrightarrow> mem s1 x = mem s x \<and> prog s1 x = prog s x"
    and "res = BL_OK \<longrightarrow> (\<exists>res2 s2. port_flash_write P s1 (region_base r) (Some bs) 16 = Some (res2, s2) \<and>
      pinv s2 \<and>
      (\<forall>x. x < region_lo r \<or> region_hi r \<le> x \<longrightarrow> mem s2 x = mem s x \<and> prog s2 x = prog s x) \<and>
      bytes_at (mem s1) (region_lo r) 16 = replicate 16 0xFF \<and>
      (res2 = BL_OK \<longrightarrow> bytes_at (mem s2) (region_lo r) 16 = bs))"
proof -
  note r = meta_in_flash [OF i, folded r_def]
  from erase_contract [OF inv r(1,2) legal [folded r_def]]
  obtain res s1 where er: "port_flash_erase P s (region_base r) (region_size r) = Some (res, s1)"
    and inv1: "pinv s1"
    and frame1: "\<And>x. x < region_lo r \<or> region_hi r \<le> x \<Longrightarrow> mem s1 x = mem s x \<and> prog s1 x = prog s x"
    and erased: "res = BL_OK \<Longrightarrow> region_lo r \<le> x \<Longrightarrow> x < region_hi r \<Longrightarrow> mem s1 x = 0xFF \<and> \<not> prog s1 x" for x
    by blast
  have aligned: "region_lo r mod unat (port_write_granularity P) = 0"
    "unat (16 :: u32) mod unat (port_write_granularity P) = 0"
    using granule(2) r(3) by (auto simp: mod_eq_0_iff_dvd intro: dvd_trans)
  have "\<exists>res2 s2. port_flash_write P s1 (region_base r) (Some bs) 16 = Some (res2, s2) \<and> pinv s2 \<and>
      (\<forall>x. x < region_lo r \<or> region_hi r \<le> x \<longrightarrow> mem s2 x = mem s x \<and> prog s2 x = prog s x) \<and>
      bytes_at (mem s1) (region_lo r) 16 = replicate 16 0xFF \<and>
      (res2 = BL_OK \<longrightarrow> bytes_at (mem s2) (region_lo r) 16 = bs)" if ok: "res = BL_OK"
  proof -
    have fresh: "\<not> prog s1 x" if "region_lo r \<le> x" "x < region_lo r + unat (16 :: u32)" for x
      using erased [OF ok, of x] that r(4) by simp
    have "bytes_at (mem s1) (region_lo r) 16 = replicate 16 0xFF"
      using erased [OF ok] r(4) by (intro nth_equalityI) auto
    moreover from write_contract [OF inv1 r(1) _ _ aligned fresh, of bs] r(2,4) len
    obtain res2 s2 where "port_flash_write P s1 (region_base r) (Some bs) 16 = Some (res2, s2)"
      "pinv s2"
      "\<And>x. x < region_lo r \<or> region_lo r + 16 \<le> x \<Longrightarrow> mem s2 x = mem s1 x \<and> prog s2 x = prog s1 x"
      "res2 = BL_OK \<longrightarrow> bytes_at (mem s2) (region_lo r) 16 = bs"
      by auto
    ultimately show ?thesis using frame1 r(4) by (smt (verit) add_left_mono le_trans)
  qed
  with er inv1 frame1 that show ?thesis by blast
qed

text \<open>The other region keeps its record, the slots keep their contents.\<close>

lemma meta_view_frame:
  assumes frame: "\<forall>x. x < region_lo (layout_meta (port_layout P) ! i) \<or>
      region_hi (layout_meta (port_layout P) ! i) \<le> x \<longrightarrow> mem s' x = mem s x \<and> prog s' x = prog s x"
    and "i < 2" "j < 2" "i \<noteq> j"
  shows "meta_view (port_layout P) (mem s') j = meta_view (port_layout P) (mem s) j"
proof -
  have "bytes_at (mem s') (region_lo (layout_meta (port_layout P) ! j)) 16 =
      bytes_at (mem s) (region_lo (layout_meta (port_layout P) ! j)) 16"
    using frame meta_regions_disjoint [OF assms(2-4)] meta_in_flash(4) [OF assms(3)]
    by (intro bytes_at_cong) (auto simp: regions_disjoint_def)
  then show ?thesis by (simp add: meta_view_def)
qed

lemma slots_agree_frame:
  assumes frame: "\<forall>x. x < region_lo (layout_meta (port_layout P) ! i) \<or>
      region_hi (layout_meta (port_layout P) ! i) \<le> x \<longrightarrow> mem s' x = mem s x \<and> prog s' x = prog s x"
    and "i < 2"
  shows "slots_agree (port_layout P) (mem s') (mem s) \<and> slots_agree (port_layout P) (prog s') (prog s)"
proof -
  have "mem s' x = mem s x \<and> prog s' x = prog s x"
    if "j < 2" "region_lo (layout_slot (port_layout P) ! j) \<le> x"
      "x < region_hi (layout_slot (port_layout P) ! j)" for j x
    using frame that slot_meta_disjoint [OF that(1) assms(2)] by (auto simp: regions_disjoint_def)
  then show ?thesis by (simp add: slots_agree_def)
qed

lemma read_region_seen:
  assumes "pinv s" and "i < 2"
  shows "read_region P s i =
    Some (if region_readable P s i then meta_view (port_layout P) (mem s) i else None)"
proof -
  obtain r bs where "port_flash_read P s (region_base (layout_meta (port_layout P) ! i)) False 16 = Some (r, bs)"
    "r = BL_OK \<longrightarrow> bs = bytes_at (mem s) (region_lo (layout_meta (port_layout P) ! i)) 16"
    using read_contract [OF assms(1), of "region_base (layout_meta (port_layout P) ! i)" 16]
      meta_in_flash [OF assms(2)] by auto
  then show ?thesis
    by (auto simp: read_region_def region_readable_def meta_view_def region_record_def Let_def linorder_not_less)
qed

text \<open>
  A record whose own region is read is found when it is the authoritative one, whether the
  other region can be read or not.
\<close>

lemma find_newest_seen:
  assumes inv: "pinv s" and old: "meta_authoritative (port_layout P) (mem s) = Some (m, i)"
    and "region_readable P s i"
  shows "find_newest P s = Some (Some (m, i))"
  using assms(3) old read_region_seen [OF inv, of 0] read_region_seen [OF inv, of 1]
  by (auto simp: find_newest_def upt_conv_Cons meta_authoritative_def newer_def split: option.splits if_splits)

text \<open>The commit stays in the region \<open>commit_target\<close> names.\<close>

lemma commit_confined:
  assumes inv: "pinv s" and legal: "meta_erasable P" and found: "find_newest P s = Some best"
    and i: "snd (commit_target best) < 2"
  defines "r \<equiv> layout_meta (port_layout P) ! snd (commit_target best)"
  shows "\<exists>res s'. bl_meta_commit P a t n s = Some (res, s') \<and> pinv s' \<and>
    (\<forall>x. x < region_lo r \<or> region_hi r \<le> x \<longrightarrow> mem s' x = mem s x \<and> prog s' x = prog s x)"
proof (cases "a < BL_SLOT_COUNT \<and> state_is_valid t")
  case False
  then show ?thesis using inv commit_bad_arguments [OF False, of P n s] by simp
next
  case True
  let ?bs = "meta_bytes (meta_record (fst (commit_target best)) a t n)"
  have len: "length ?bs = 16" using length_meta_bytes [OF meta_record_fields(5)] by simp
  note legal' = meta_erasable_nth [OF legal i]
  obtain g where g: "port_erase_granularity P (region_base r) = Some g"
      "g \<noteq> 0 \<and> region_base r mod g = 0 \<and> region_size r mod g = 0"
    using legal' by (simp add: erase_legal_def r_def split: option.splits)
  obtain res s1 where er: "port_flash_erase P s (region_base r) (region_size r) = Some (res, s1)"
    and s1: "pinv s1" "\<forall>x. x < region_lo r \<or> region_hi r \<le> x \<longrightarrow> mem s1 x = mem s x \<and> prog s1 x = prog s x"
    and wr: "res = BL_OK \<longrightarrow> (\<exists>res2 s2. port_flash_write P s1 (region_base r) (Some ?bs) 16 = Some (res2, s2) \<and>
      pinv s2 \<and> (\<forall>x. x < region_lo r \<or> region_hi r \<le> x \<longrightarrow> mem s2 x = mem s x \<and> prog s2 x = prog s x) \<and>
      bytes_at (mem s1) (region_lo r) 16 = replicate 16 0xFF \<and>
      (res2 = BL_OK \<longrightarrow> bytes_at (mem s2) (region_lo r) 16 = ?bs))"
    by (rule commit_region [OF inv i legal' len, folded r_def])
  have guard: "\<not> (BL_SLOT_COUNT \<le> a \<or> \<not> state_is_valid t)" using True by auto
  have commit: "bl_meta_commit P a t n s =
      (if res \<noteq> BL_OK then Some (res, s1)
       else do {
         (res2, s2) \<leftarrow> port_flash_write P s1 (region_base r) (Some ?bs) 16;
         if res2 \<noteq> BL_OK then Some (res2, s2)
         else do {
           v \<leftarrow> read_region P s2 (snd (commit_target best));
           Some (if meta_verified v (meta_record (fst (commit_target best)) a t n) then BL_OK
                 else BL_ERR_FLASH_VERIFY, s2)
         }
       })"
    using g er guard unfolding r_def
    by (simp add: bl_meta_commit_def found Let_def case_prod_beta)
  show ?thesis
  proof (cases "res = BL_OK")
    case False
    with commit s1 show ?thesis by simp
  next
    case ok: True
    with wr obtain res2 s2 where "port_flash_write P s1 (region_base r) (Some ?bs) 16 = Some (res2, s2)"
      and s2: "pinv s2" "\<forall>x. x < region_lo r \<or> region_hi r \<le> x \<longrightarrow> mem s2 x = mem s x \<and> prog s2 x = prog s x"
      by blast
    with commit ok read_region_seen [OF s2(1) i] s2 show ?thesis by auto
  qed
qed

text \<open>
  Whatever a commit returns, the record that was authoritative is still in its region, as
  long as the commit can read that region: interrupted or failed, it cannot lose it.
\<close>

lemma commit_keeps_record:
  assumes inv: "pinv s" and old: "meta_authoritative (port_layout P) (mem s) = Some (m, i)"
    and read: "region_readable P s i" and legal: "meta_erasable P"
  shows "\<exists>res s'. bl_meta_commit P a t n s = Some (res, s') \<and> pinv s' \<and>
    meta_view (port_layout P) (mem s') i = Some m"
proof -
  have i: "i < 2" "meta_view (port_layout P) (mem s) i = Some m" using meta_authoritative_Some [OF old] by auto
  have t: "snd (commit_target (Some (m, i))) < 2" "snd (commit_target (Some (m, i))) \<noteq> i"
    using i(1) by (auto simp: commit_target_def less_2_cases_iff)
  from commit_confined [OF inv legal find_newest_seen [OF inv old read] t(1), of a t n]
    meta_view_frame [OF _ t(1) i(1) t(2)] i(2) show ?thesis by metis
qed

text \<open>What is read afterwards is that record or a newer one, if both regions can be read.\<close>

lemma kept_record_read:
  assumes inv: "pinv s" and kept: "meta_view (port_layout P) (mem s) i = Some m" and "i < 2"
    and read: "\<And>j. j < 2 \<Longrightarrow> region_readable P s j"
  shows "\<exists>m'. bl_meta_read P False s = Some (Inr m') \<and> meta_seq m \<le> meta_seq m'"
proof -
  obtain m' i' where new: "meta_authoritative (port_layout P) (mem s) = Some (m', i')"
    using meta_authoritative_exists [OF kept assms(3)] by blast
  have "find_newest P s = Some (Some (m', i'))"
    by (rule find_newest_seen [OF inv new read]) (use meta_authoritative_Some [OF new] in blast)
  then show ?thesis
    using meta_authoritative_newest [OF new assms(3) kept] by (auto simp: bl_meta_read_def)
qed

end

section \<open>Reading\<close>

context readable_flash_port
begin

lemma read_region_eq:
  assumes "pinv s" and "i < 2"
  shows "read_region P s i = Some (meta_view (port_layout P) (mem s) i)"
proof -
  have "port_flash_read P s (region_base (layout_meta (port_layout P) ! i)) False 16 =
      Some (BL_OK, bytes_at (mem s) (region_lo (layout_meta (port_layout P) ! i)) 16)"
    using read_ok [OF assms(1), of "region_base (layout_meta (port_layout P) ! i)" 16]
      meta_in_flash [OF assms(2)] by simp
  then show ?thesis
    by (auto simp: read_region_def meta_view_def region_record_def Let_def linorder_not_less)
qed

lemma find_newest_eq:
  assumes "pinv s"
  shows "find_newest P s = Some (meta_authoritative (port_layout P) (mem s))"
  using read_region_eq [OF assms, of 0] read_region_eq [OF assms, of 1]
  by (simp add: find_newest_def upt_conv_Cons meta_authoritative_def newer_def split: option.splits)

lemma bl_meta_read_eq:
  assumes "pinv s"
  shows "bl_meta_read P False s =
    Some (case meta_authoritative (port_layout P) (mem s) of
            None \<Rightarrow> Inl BL_ERR_NO_METADATA | Some (r, i) \<Rightarrow> Inr r)"
  by (simp add: bl_meta_read_def find_newest_eq [OF assms])

section \<open>Committing\<close>

abbreviation meta_target :: "'s \<Rightarrow> nat" where
  "meta_target s \<equiv> snd (commit_target (meta_authoritative (port_layout P) (mem s)))"

abbreviation meta_next_seq :: "'s \<Rightarrow> u32" where
  "meta_next_seq s \<equiv> fst (commit_target (meta_authoritative (port_layout P) (mem s)))"

lemma meta_target_less: "meta_target s < 2"
  by (auto simp: commit_target_def split: option.splits)

lemma meta_target_not_authoritative:
  "meta_authoritative (port_layout P) (mem s) = Some (r, i) \<Longrightarrow> meta_target s \<noteq> i"
  by (auto simp: commit_target_def dest!: meta_authoritative_Some simp: less_2_cases_iff)

lemma read_region_written:
  assumes "pinv s" and "i < 2" and "a < BL_SLOT_COUNT" "state_is_valid t"
    and "bytes_at (mem s) (region_lo (layout_meta (port_layout P) ! i)) 16 = meta_bytes (meta_record q a t n)"
  shows "read_region P s i = Some (Some (meta_record q a t n))"
  using read_region_eq [OF assms(1,2)] region_record_meta_record [OF assms(3,4)] assms(5)
  by (simp add: meta_view_def)

lemma commit_illegal:
  assumes inv: "pinv s" and args: "a < BL_SLOT_COUNT" "state_is_valid t"
    and "\<not> erase_legal P (region_base (layout_meta (port_layout P) ! meta_target s))
          (region_size (layout_meta (port_layout P) ! meta_target s))"
  shows "bl_meta_commit P a t n s = Some (BL_ERR_INVALID_ARGUMENT, s)"
proof -
  let ?r = "layout_meta (port_layout P) ! meta_target s"
  obtain g where g: "port_erase_granularity P (region_base ?r) = Some g"
    using erase_granularity_defined [of "region_base ?r"] meta_in_flash [OF meta_target_less [of s]]
    by fastforce
  with assms show ?thesis
    by (auto simp: bl_meta_commit_def find_newest_eq [OF inv] erase_legal_def Let_def
        linorder_not_less split: prod.splits)
qed

lemma commit_outcome:
  fixes n :: u8
  assumes inv: "pinv s" and args: "a < BL_SLOT_COUNT" "state_is_valid t"
    and legal: "erase_legal P (region_base (layout_meta (port_layout P) ! meta_target s))
                  (region_size (layout_meta (port_layout P) ! meta_target s))"
  defines "r \<equiv> layout_meta (port_layout P) ! meta_target s"
    and "rec \<equiv> meta_record (meta_next_seq s) a t n"
  obtains res s' where "bl_meta_commit P a t n s = Some (res, s')" and "pinv s'"
    and "\<forall>x. x < region_lo r \<or> region_hi r \<le> x \<longrightarrow> mem s' x = mem s x \<and> prog s' x = prog s x"
    and "res = BL_OK \<longrightarrow> meta_view (port_layout P) (mem s') (meta_target s) = Some rec"
    and "res \<noteq> BL_OK \<longrightarrow> port_flash_erase P s (region_base r) (region_size r) = Some (res, s') \<or>
      (\<exists>s1. port_flash_erase P s (region_base r) (region_size r) = Some (BL_OK, s1) \<and> pinv s1 \<and>
         bytes_at (mem s1) (region_lo r) 16 = replicate 16 0xFF \<and>
         port_flash_write P s1 (region_base r) (Some (meta_bytes rec)) 16 = Some (res, s'))"
proof -
  have len: "length (meta_bytes rec) = 16"
    unfolding rec_def using length_meta_bytes [OF meta_record_fields(5)] by simp
  obtain g where g: "port_erase_granularity P (region_base r) = Some g"
      "g \<noteq> 0 \<and> region_base r mod g = 0 \<and> region_size r mod g = 0"
    using legal by (simp add: erase_legal_def r_def split: option.splits)
  obtain res s1 where er: "port_flash_erase P s (region_base r) (region_size r) = Some (res, s1)"
    and inv1: "pinv s1"
    and frame1: "\<forall>x. x < region_lo r \<or> region_hi r \<le> x \<longrightarrow> mem s1 x = mem s x \<and> prog s1 x = prog s x"
    and wr: "res = BL_OK \<longrightarrow> (\<exists>res2 s2. port_flash_write P s1 (region_base r) (Some (meta_bytes rec)) 16 = Some (res2, s2) \<and>
      pinv s2 \<and>
      (\<forall>x. x < region_lo r \<or> region_hi r \<le> x \<longrightarrow> mem s2 x = mem s x \<and> prog s2 x = prog s x) \<and>
      bytes_at (mem s1) (region_lo r) 16 = replicate 16 0xFF \<and>
      (res2 = BL_OK \<longrightarrow> bytes_at (mem s2) (region_lo r) 16 = meta_bytes rec))"
    by (rule commit_region [OF inv meta_target_less legal len, folded r_def])
  have guard: "\<not> (BL_SLOT_COUNT \<le> a \<or> \<not> state_is_valid t)" using args by auto
  have commit: "bl_meta_commit P a t n s =
      (if res \<noteq> BL_OK then Some (res, s1)
       else do {
         (res2, s2) \<leftarrow> port_flash_write P s1 (region_base r) (Some (meta_bytes rec)) 16;
         if res2 \<noteq> BL_OK then Some (res2, s2)
         else do {
           v \<leftarrow> read_region P s2 (meta_target s);
           Some (if meta_verified v rec then BL_OK else BL_ERR_FLASH_VERIFY, s2)
         }
       })"
    using g er guard unfolding r_def rec_def
    by (simp add: bl_meta_commit_def find_newest_eq [OF inv] Let_def case_prod_beta)
  show ?thesis
  proof (cases "res = BL_OK")
    case False
    with commit er inv1 frame1 that [of res s1] show ?thesis by auto
  next
    case True
    from wr True obtain res2 s2 where
      wr2: "port_flash_write P s1 (region_base r) (Some (meta_bytes rec)) 16 = Some (res2, s2)"
      and inv2: "pinv s2"
      and frame2: "\<forall>x. x < region_lo r \<or> region_hi r \<le> x \<longrightarrow> mem s2 x = mem s x \<and> prog s2 x = prog s x"
      and ff: "bytes_at (mem s1) (region_lo r) 16 = replicate 16 0xFF"
      and data: "res2 = BL_OK \<longrightarrow> bytes_at (mem s2) (region_lo r) 16 = meta_bytes rec" by blast
    show ?thesis
    proof (cases "res2 = BL_OK")
      case False
      with True commit wr2 inv2 frame2 ff er inv1 that [of res2 s2] show ?thesis by auto
    next
      case ok2: True
      have rd: "read_region P s2 (meta_target s) = Some (Some rec)"
        unfolding rec_def
        by (rule read_region_written [OF inv2 meta_target_less args])
          (use data ok2 in \<open>simp add: r_def rec_def\<close>)
      then have "bl_meta_commit P a t n s = Some (BL_OK, s2)"
        using commit True ok2 wr2 by (simp add: meta_verified_def)
      moreover have "meta_view (port_layout P) (mem s2) (meta_target s) = Some rec"
        using rd read_region_eq [OF inv2 meta_target_less] by simp
      ultimately show ?thesis using that [of BL_OK s2] inv2 frame2 by auto
    qed
  qed
qed

text \<open>A commit always returns, and touches one metadata region only.\<close>

lemma commit_returns:
  assumes inv: "pinv s"
  obtains res s' where "bl_meta_commit P a t n s = Some (res, s')" and "pinv s'"
    and "\<exists>i<2. \<forall>x. x < region_lo (layout_meta (port_layout P) ! i) \<or>
           region_hi (layout_meta (port_layout P) ! i) \<le> x \<longrightarrow> mem s' x = mem s x \<and> prog s' x = prog s x"
proof (cases "(a < BL_SLOT_COUNT \<and> state_is_valid t) \<and>
    erase_legal P (region_base (layout_meta (port_layout P) ! meta_target s))
      (region_size (layout_meta (port_layout P) ! meta_target s))")
  case True
  show ?thesis
    by (rule commit_outcome [OF inv _ _ True [THEN conjunct2], of a t n])
      (use True that meta_target_less [of s] in blast)+
next
  case False
  then have "bl_meta_commit P a t n s = Some (BL_ERR_INVALID_ARGUMENT, s)"
    using commit_bad_arguments [of a t P n s] commit_illegal [OF inv, of a t n] by blast
  then show ?thesis by (intro that [of BL_ERR_INVALID_ARGUMENT s]) (use inv in \<open>auto intro!: exI [of _ "0 :: nat"]\<close>)
qed

lemma commit_frame:
  assumes "pinv s" and "bl_meta_commit P a t n s = Some (res, s')"
  shows "pinv s' \<and> (\<exists>i<2. \<forall>x. x < region_lo (layout_meta (port_layout P) ! i) \<or>
           region_hi (layout_meta (port_layout P) ! i) \<le> x \<longrightarrow> mem s' x = mem s x \<and> prog s' x = prog s x)"
  by (rule commit_returns [OF assms(1), of a t n]) (use assms(2) in auto)

end

context atomic_flash_port
begin

text \<open>A commit is all or nothing, as long as the sequence number does not wrap.\<close>

lemma commit_atomic:
  assumes inv: "pinv s" and args: "a < BL_SLOT_COUNT" "state_is_valid t" and legal: "meta_erasable P"
  obtains res s' where "bl_meta_commit P a t n s = Some (res, s')" and "pinv s'"
    and "slots_agree (port_layout P) (mem s') (mem s)" and "slots_agree (port_layout P) (prog s') (prog s)"
    and "res = BL_OK \<longrightarrow> meta_next_seq s \<noteq> 0 \<longrightarrow> meta_authoritative (port_layout P) (mem s') =
           Some (meta_record (meta_next_seq s) a t n, meta_target s)"
    and "res = BL_OK \<longrightarrow> meta_next_seq s = 0 \<longrightarrow>
           meta_authoritative (port_layout P) (mem s') = meta_authoritative (port_layout P) (mem s)"
    and "res \<noteq> BL_OK \<longrightarrow> res = BL_ERR_FLASH_PROGRAM \<and>
           meta_authoritative (port_layout P) (mem s') = meta_authoritative (port_layout P) (mem s)"
proof -
  let ?L = "port_layout P" and ?i = "meta_target s"
  let ?r = "layout_meta ?L ! ?i" and ?rec = "meta_record (meta_next_seq s) a t n"
  have "erase_legal P (region_base ?r) (region_size ?r)"
    by (rule meta_erasable_nth [OF legal meta_target_less])
  from commit_outcome [OF inv args this, of n]
  obtain res s' where c: "bl_meta_commit P a t n s = Some (res, s')" "pinv s'"
    and frame: "\<forall>x. x < region_lo ?r \<or> region_hi ?r \<le> x \<longrightarrow> mem s' x = mem s x \<and> prog s' x = prog s x"
    and ok: "res = BL_OK \<longrightarrow> meta_view ?L (mem s') ?i = Some ?rec"
    and bad: "res \<noteq> BL_OK \<longrightarrow> port_flash_erase P s (region_base ?r) (region_size ?r) = Some (res, s') \<or>
      (\<exists>s1. port_flash_erase P s (region_base ?r) (region_size ?r) = Some (BL_OK, s1) \<and> pinv s1 \<and>
         bytes_at (mem s1) (region_lo ?r) 16 = replicate 16 0xFF \<and>
         port_flash_write P s1 (region_base ?r) (Some (meta_bytes ?rec)) 16 = Some (res, s'))"
    by blast
  define j where "j = 1 - ?i"
  have j: "j < 2" "?i \<noteq> j" "\<And>k. k < 2 \<Longrightarrow> k \<noteq> ?i \<Longrightarrow> k = j"
    using meta_target_less [of s] by (auto simp: j_def less_2_cases_iff)
  have other: "meta_view ?L (mem s') j = meta_view ?L (mem s) j"
    by (rule meta_view_frame [OF frame meta_target_less j(1,2)])
  have old: "case meta_authoritative ?L (mem s) of
      None \<Rightarrow> meta_view ?L (mem s) j = None \<and> meta_next_seq s = 1
    | Some (m, i) \<Rightarrow> i = j \<and> meta_view ?L (mem s) j = Some m \<and> meta_next_seq s = meta_seq m + 1"
    using j(1) meta_target_not_authoritative [of s] j(3)
    by (auto simp: commit_target_def dest: meta_authoritative_Some split: option.split)
      (auto simp: meta_authoritative_def less_2_cases_iff split: option.splits if_splits)
  have none: "meta_authoritative ?L (mem s') = meta_authoritative ?L (mem s)"
    if "meta_view ?L (mem s') ?i = None"
  proof (cases "meta_authoritative ?L (mem s)")
    case None
    with old other that j(3) have "meta_view ?L (mem s') k = None" if "k < 2" for k
      using that by (cases "k = ?i") auto
    then show ?thesis using None by (simp add: meta_authoritative_def)
  next
    case (Some mi)
    with old other have "meta_view ?L (mem s') j = Some (fst mi)" "snd mi = j"
      by (auto split: prod.splits)
    then have "meta_authoritative ?L (mem s') = Some mi"
      using meta_authoritative_supersede [of ?L "mem s'" j "fst mi" ?i] that j(1,2) meta_target_less [of s]
      by (cases mi) simp
    then show ?thesis using Some by simp
  qed
  have "res \<noteq> BL_OK \<longrightarrow> res = BL_ERR_FLASH_PROGRAM \<and>
      meta_authoritative ?L (mem s') = meta_authoritative ?L (mem s)"
  proof
    assume nok: "res \<noteq> BL_OK"
    with bad erase_succeeds [OF inv] obtain s1 where
      "pinv s1" "bytes_at (mem s1) (region_lo ?r) 16 = replicate 16 0xFF"
      "port_flash_write P s1 (region_base ?r) (Some (meta_bytes ?rec)) 16 = Some (res, s')" by blast
    with write_atomic [of s1] nok have "res = BL_ERR_FLASH_PROGRAM" "mem s' = mem s1" by blast+
    moreover from this(2) have "meta_view ?L (mem s') ?i = None"
      using \<open>bytes_at (mem s1) (region_lo ?r) 16 = replicate 16 0xFF\<close>
      unfolding meta_view_def SIZEOF_META_def by (simp only: region_record_erased)
    ultimately show "res = BL_ERR_FLASH_PROGRAM \<and>
      meta_authoritative ?L (mem s') = meta_authoritative ?L (mem s)" using none by blast
  qed
  moreover have "meta_authoritative ?L (mem s') = Some (?rec, ?i)"
    if "res = BL_OK" "meta_next_seq s \<noteq> 0"
  proof (rule meta_authoritative_supersede [where j' = j])
    fix r assume "meta_view ?L (mem s') j = Some r"
    with other old that(2) show "meta_seq r < meta_seq ?rec"
      by (auto simp: word_less_add_one split: option.splits)
  qed (use ok that j(1,2) meta_target_less in auto)
  moreover have "meta_authoritative ?L (mem s') = meta_authoritative ?L (mem s)"
    if "res = BL_OK" "meta_next_seq s = 0"
  proof -
    from old that(2) obtain m where m: "meta_authoritative ?L (mem s) = Some (m, j)"
      "meta_view ?L (mem s) j = Some m" "meta_seq m + 1 = 0"
      by (auto split: option.splits)
    then have "0 < meta_seq m" by (auto simp: word_neq_0_conv [symmetric])
    with ok that m other j(1,2) meta_target_less [of s] show ?thesis
      using meta_authoritative_supersede [of ?L "mem s'" j m ?i] by simp
  qed
  moreover note slots_agree_frame [OF frame meta_target_less]
  ultimately show ?thesis using that [OF c] by blast
qed

end

end
