(* ===== verification/Bl_Image.thy ===== *)
theory Bl_Image
  imports Bl_Meta
begin

text \<open>
  Image validation and boot selection, the first half of \<open>core/src/bl_core.c\<close>. The
  code reads a slot through the port, the payload in chunks of 256 bytes, with 32-bit
  address arithmetic. \<open>slot_image\<close> is the specification: one pass over the bytes of
  the slot, on unbounded numbers. The lemmas show that validation computes exactly
  \<open>slot_image\<close> of the flash contents on every port that keeps the contract, hence
  that it never reads outside the slot and depends on nothing but the slot's bytes.
\<close>

section \<open>Helpers\<close>

definition BL_CRC_CHUNK :: u32 where [simp]: "BL_CRC_CHUNK = 256"

definition slot_is_valid :: "u8 \<Rightarrow> bool" where
  "slot_is_valid slot \<longleftrightarrow> slot < BL_SLOT_COUNT"

definition region_is_erasable :: "'s bl_port \<Rightarrow> u32 \<Rightarrow> u32 \<Rightarrow> bool option" where
  "region_is_erasable P base rsize = do {
     granularity \<leftarrow> port_erase_granularity P base;
     Some (if granularity = 0 then False else base mod granularity = 0 \<and> rsize mod granularity = 0)
   }"

definition other_slot :: "u8 \<Rightarrow> u8" where
  "other_slot slot = (slot + 1) mod BL_SLOT_COUNT"

section \<open>Image validation\<close>

lemma unat_sub_less: "0 < (c :: u32) \<Longrightarrow> c \<le> r \<Longrightarrow> unat (r - c) < unat r"
  by (simp add: unat_sub word_less_nat_alt word_le_nat_alt)

text \<open>The \<open>while\<close> loop over the payload.\<close>

function payload_crc_loop :: "'s bl_port \<Rightarrow> 's \<Rightarrow> u32 \<Rightarrow> u32 \<Rightarrow> u32 \<Rightarrow> (bl_result + u32) option" where
  "payload_crc_loop P s address remaining payload_crc =
     (if remaining > 0
      then let chunk = (if remaining > BL_CRC_CHUNK then BL_CRC_CHUNK else remaining) in do {
        (result, buffer) \<leftarrow> port_flash_read P s address False chunk;
        if result \<noteq> BL_OK then Some (Inl result)
        else payload_crc_loop P s (address + chunk) (remaining - chunk) (port_crc32 P payload_crc buffer)
      }
      else Some (Inr payload_crc))"
  by pat_completeness auto

termination
  by (relation "measure (\<lambda>(P, s, address, remaining, payload_crc). unat remaining)")
    (auto simp: unat_sub_less unat_gt_0 word_neq_0_conv)

declare payload_crc_loop.simps [simp del]

definition bl_core_validate_slot :: "'s bl_port \<Rightarrow> u8 \<Rightarrow> bool \<Rightarrow> 's \<Rightarrow> (bl_result + bl_img_hdr) option" where
  "bl_core_validate_slot P slot hdr_null s =
     (if hdr_null then Some (Inl BL_ERR_NULL_POINTER)
      else if \<not> slot_is_valid slot then Some (Inl BL_ERR_INVALID_ARGUMENT)
      else do {
        let slot_base = region_base (layout_slot (port_layout P) ! unat slot);
        let slot_size = region_size (layout_slot (port_layout P) ! unat slot);
        (result, bytes) \<leftarrow> port_flash_read P s slot_base False (of_nat SIZEOF_IMG_HDR);
        let hdr = hdr_of_bytes bytes;
        if result \<noteq> BL_OK then Some (Inl result)
        else if hdr_magic hdr \<noteq> BL_IMG_MAGIC then Some (Inl BL_ERR_MAGIC)
        else if hdr_version hdr \<noteq> BL_IMG_HDR_VERSION then Some (Inl BL_ERR_HDR_VERSION)
        else if hdr_crc32 hdr \<noteq> bl_crc32 0 (take OFFSETOF_HDR_CRC32 (hdr_bytes hdr))
        then Some (Inl BL_ERR_HDR_CRC)
        else if entry_offset hdr < of_nat SIZEOF_IMG_HDR then Some (Inl BL_ERR_ENTRY_OFFSET)
        else if entry_offset hdr AND (BL_IMG_HDR_REGION - 1) \<noteq> 0 then Some (Inl BL_ERR_ENTRY_OFFSET)
        else if entry_offset hdr \<ge> slot_size then Some (Inl BL_ERR_ENTRY_OFFSET)
        else if img_size hdr = 0 then Some (Inl BL_ERR_IMAGE_SIZE)
        else if img_size hdr > slot_size - entry_offset hdr then Some (Inl BL_ERR_IMAGE_SIZE)
        else do {
          payload_crc \<leftarrow> payload_crc_loop P s (slot_base + entry_offset hdr) (img_size hdr) 0;
          Some (case payload_crc of
                  Inl result \<Rightarrow> Inl result
                | Inr crc \<Rightarrow> if crc \<noteq> img_crc32 hdr then Inl BL_ERR_IMAGE_CRC else Inr hdr)
        }
      })"

section \<open>Boot selection\<close>

definition is_ok :: "bl_result + 'a \<Rightarrow> bool" where
  "is_ok x = (case x of Inl _ \<Rightarrow> False | Inr _ \<Rightarrow> True)"

lemma is_ok_simps [simp]: "is_ok (Inr v)" "\<not> is_ok (Inl e)"
  by (simp_all add: is_ok_def)

lemma is_ok_iff: "is_ok x \<longleftrightarrow> (\<exists>v. x = Inr v)"
  by (cases x) simp_all

definition select_by_version :: "'s bl_port \<Rightarrow> 's \<Rightarrow> (bl_result + u8 \<times> bl_img_hdr) option" where
  "select_by_version P s = do {
     a \<leftarrow> bl_core_validate_slot P BL_SLOT_A False s;
     b \<leftarrow> bl_core_validate_slot P BL_SLOT_B False s;
     Some (case (a, b) of
             (Inr hdr_a, Inr hdr_b) \<Rightarrow>
               if fw_version hdr_b > fw_version hdr_a then Inr (BL_SLOT_B, hdr_b)
               else Inr (BL_SLOT_A, hdr_a)
           | (Inr hdr_a, Inl _) \<Rightarrow> Inr (BL_SLOT_A, hdr_a)
           | (Inl _, Inr hdr_b) \<Rightarrow> Inr (BL_SLOT_B, hdr_b)
           | (Inl _, Inl _) \<Rightarrow> Inl BL_ERR_NO_VALID_IMAGE)
   }"

definition bl_core_select_slot ::
    "'s bl_port \<Rightarrow> bool \<Rightarrow> bool \<Rightarrow> 's \<Rightarrow> (bl_result + u8 \<times> bl_img_hdr) option" where
  "bl_core_select_slot P slot_null hdr_null s =
     (if slot_null \<or> hdr_null then Some (Inl BL_ERR_NULL_POINTER)
      else do {
        read \<leftarrow> bl_meta_read P False s;
        case read of
          Inl _ \<Rightarrow> select_by_version P s
        | Inr meta \<Rightarrow> do {
            active \<leftarrow> bl_core_validate_slot P (meta_active_slot meta) False s;
            case active of
              Inr hdr \<Rightarrow> Some (Inr (meta_active_slot meta, hdr))
            | Inl _ \<Rightarrow> do {
                let other = other_slot (meta_active_slot meta);
                fallback \<leftarrow> bl_core_validate_slot P other False s;
                case fallback of
                  Inr hdr \<Rightarrow> Some (Inr (other, hdr))
                | Inl _ \<Rightarrow> Some (Inl BL_ERR_NO_VALID_IMAGE)
              }
          }
      })"

section \<open>Specification\<close>

definition slot_image :: "bl_layout \<Rightarrow> (nat \<Rightarrow> u8) \<Rightarrow> u8 \<Rightarrow> bl_result + bl_img_hdr" where
  "slot_image L m slot =
     (let r = layout_slot L ! unat slot;
          bytes = bytes_at m (region_lo r) SIZEOF_IMG_HDR;
          hdr = hdr_of_bytes bytes;
          off = unat (entry_offset hdr);
          n = unat (img_size hdr) in
      if hdr_magic hdr \<noteq> BL_IMG_MAGIC then Inl BL_ERR_MAGIC
      else if hdr_version hdr \<noteq> BL_IMG_HDR_VERSION then Inl BL_ERR_HDR_VERSION
      else if hdr_crc32 hdr \<noteq> bl_crc32 0 (take OFFSETOF_HDR_CRC32 bytes) then Inl BL_ERR_HDR_CRC
      else if off < SIZEOF_IMG_HDR \<or> off mod 512 \<noteq> 0 \<or> unat (region_size r) \<le> off
      then Inl BL_ERR_ENTRY_OFFSET
      else if n = 0 \<or> unat (region_size r) < off + n then Inl BL_ERR_IMAGE_SIZE
      else if bl_crc32 0 (bytes_at m (region_lo r + off) n) \<noteq> img_crc32 hdr then Inl BL_ERR_IMAGE_CRC
      else Inr hdr)"

definition select_spec :: "bl_layout \<Rightarrow> (nat \<Rightarrow> u8) \<Rightarrow> bl_result + u8 \<times> bl_img_hdr" where
  "select_spec L m =
     (let img = slot_image L m in
      case meta_authoritative L m of
        Some (meta, _) \<Rightarrow>
          (let a = meta_active_slot meta in
           case (img a, img (other_slot a)) of
             (Inr hdr, _) \<Rightarrow> Inr (a, hdr)
           | (Inl _, Inr hdr) \<Rightarrow> Inr (other_slot a, hdr)
           | (Inl _, Inl _) \<Rightarrow> Inl BL_ERR_NO_VALID_IMAGE)
      | None \<Rightarrow>
          (case (img BL_SLOT_A, img BL_SLOT_B) of
             (Inr hdr_a, Inr hdr_b) \<Rightarrow>
               if fw_version hdr_b > fw_version hdr_a then Inr (BL_SLOT_B, hdr_b) else Inr (BL_SLOT_A, hdr_a)
           | (Inr hdr_a, Inl _) \<Rightarrow> Inr (BL_SLOT_A, hdr_a)
           | (Inl _, Inr hdr_b) \<Rightarrow> Inr (BL_SLOT_B, hdr_b)
           | (Inl _, Inl _) \<Rightarrow> Inl BL_ERR_NO_VALID_IMAGE))"

section \<open>Validation computes the specification\<close>

lemma slot_is_valid_iff: "slot_is_valid slot \<longleftrightarrow> slot = 0 \<or> slot = 1"
proof -
  have "slot < 2 \<longleftrightarrow> unat slot = unat (0 :: u8) \<or> unat slot = unat (1 :: u8)"
    by (auto simp: word_less_nat_alt)
  then show ?thesis by (simp only: slot_is_valid_def BL_SLOT_COUNT_def word_unat_eq_iff)
qed

lemma slot_is_valid_unat: "slot_is_valid slot \<Longrightarrow> unat slot < 2"
  by (auto simp: slot_is_valid_iff)

lemma other_slot_simps [simp]: "other_slot 0 = 1" "other_slot 1 = 0"
  by (simp_all add: other_slot_def)

lemma other_slot_valid: "slot_is_valid slot \<Longrightarrow> slot_is_valid (other_slot slot) \<and> other_slot slot \<noteq> slot"
  by (auto simp: slot_is_valid_iff)

text \<open>The mask test of the source is alignment to the header region.\<close>

lemma and_511_eq_0_iff: "off AND 511 = 0 \<longleftrightarrow> unat off mod 512 = 0" for off :: u32
proof -
  have "off AND 511 = take_bit 9 off"
    by (simp add: take_bit_eq_mask mask_eq_exp_minus_1)
  moreover have "take_bit 9 off = 0 \<longleftrightarrow> unat (take_bit 9 off) = 0" by (simp only: unat_eq_0)
  moreover have "unat (take_bit 9 off) = unat off mod 512" by (simp add: take_bit_eq_mod unat_mod_distrib)
  ultimately show ?thesis by simp
qed

lemma slot_image_Inr_iff:
  "slot_image L m slot = Inr hdr \<longleftrightarrow>
     (let r = layout_slot L ! unat slot; bytes = bytes_at m (region_lo r) SIZEOF_IMG_HDR;
          off = unat (entry_offset hdr); n = unat (img_size hdr) in
      hdr = hdr_of_bytes bytes \<and>
      hdr_magic hdr = BL_IMG_MAGIC \<and> hdr_version hdr = BL_IMG_HDR_VERSION \<and>
      hdr_crc32 hdr = bl_crc32 0 (take OFFSETOF_HDR_CRC32 bytes) \<and>
      SIZEOF_IMG_HDR \<le> off \<and> off mod 512 = 0 \<and> 0 < n \<and> off + n \<le> unat (region_size r) \<and>
      img_crc32 hdr = bl_crc32 0 (bytes_at m (region_lo r + off) n))"
proof -
  define h where "h = hdr_of_bytes (bytes_at m (region_lo (layout_slot L ! unat slot)) SIZEOF_IMG_HDR)"
  show ?thesis
    unfolding slot_image_def Let_def h_def [symmetric]
    by (cases "hdr = h") (auto simp del: SIZEOF_IMG_HDR_def OFFSETOF_HDR_CRC32_def)
qed

text \<open>
  A packaged image: the header, padding to the header region, the payload. Both
  checksums are what the format asks for.
\<close>

definition image_hdr :: "u32 \<Rightarrow> u8 list \<Rightarrow> bl_img_hdr" where
  "image_hdr version payload =
     (let h = \<lparr>hdr_magic = BL_IMG_MAGIC, hdr_version = BL_IMG_HDR_VERSION, hdr_flags = 0,
        img_size = of_nat (length payload), img_crc32 = bl_crc32 0 payload, fw_version = version,
        entry_offset = 512, hdr_reserved = replicate 12 0, hdr_crc32 = 0\<rparr>
      in h\<lparr>hdr_crc32 := bl_crc32 0 (take OFFSETOF_HDR_CRC32 (hdr_bytes h))\<rparr>)"

definition image_bytes :: "u32 \<Rightarrow> u8 list \<Rightarrow> u8 list" where
  "image_bytes version payload = hdr_bytes (image_hdr version payload) @ replicate 472 0xFF @ payload"

lemma image_hdr_fields [simp]:
  "hdr_wf (image_hdr v pl)" "hdr_magic (image_hdr v pl) = BL_IMG_MAGIC"
  "hdr_version (image_hdr v pl) = BL_IMG_HDR_VERSION" "entry_offset (image_hdr v pl) = 512"
  "img_size (image_hdr v pl) = of_nat (length pl)" "img_crc32 (image_hdr v pl) = bl_crc32 0 pl"
  "fw_version (image_hdr v pl) = v"
  "hdr_crc32 (image_hdr v pl) = bl_crc32 0 (take OFFSETOF_HDR_CRC32 (hdr_bytes (image_hdr v pl)))"
  by (simp_all add: image_hdr_def Let_def hdr_wf_def hdr_bytes_def)

lemma length_image_bytes [simp]: "length (image_bytes v pl) = 512 + length pl"
  by (simp add: image_bytes_def length_hdr_bytes)

lemma take_bytes_at: "n \<le> k \<Longrightarrow> take n (bytes_at m a k) = bytes_at m a n"
  by (rule nth_equalityI) auto

lemma drop_bytes_at: "n \<le> k \<Longrightarrow> drop n (bytes_at m a k) = bytes_at m (a + n) (k - n)"
  by (rule nth_equalityI) (auto simp: add.assoc)

text \<open>The header that goes with a payload at offset \<open>e\<close> of its slot.\<close>

definition hdr_describes :: "nat \<Rightarrow> u8 list \<Rightarrow> bl_img_hdr \<Rightarrow> bool" where
  "hdr_describes e pl hdr \<longleftrightarrow>
     hdr_wf hdr \<and> hdr_magic hdr = BL_IMG_MAGIC \<and> hdr_version hdr = BL_IMG_HDR_VERSION \<and>
     hdr_crc32 hdr = bl_crc32 0 (take OFFSETOF_HDR_CRC32 (hdr_bytes hdr)) \<and>
     unat (entry_offset hdr) = e \<and> e mod 512 = 0 \<and> 512 \<le> e \<and>
     unat (img_size hdr) = length pl \<and> pl \<noteq> [] \<and> img_crc32 hdr = bl_crc32 0 pl"

lemma slot_image_described:
  assumes "hdr_describes e pl hdr"
    and "bytes_at m (region_lo (layout_slot L ! unat slot)) 40 = hdr_bytes hdr"
    and "bytes_at m (region_lo (layout_slot L ! unat slot) + e) (length pl) = pl"
    and "e + length pl \<le> unat (region_size (layout_slot L ! unat slot))"
  shows "slot_image L m slot = Inr hdr"
  unfolding slot_image_Inr_iff Let_def
  using assms by (auto simp: hdr_describes_def hdr_of_hdr_bytes)

lemma hdr_describes_packaged:
  "pl \<noteq> [] \<Longrightarrow> length pl < 2 ^ 32 \<Longrightarrow> hdr_describes 512 pl (image_hdr v pl)"
  by (simp add: hdr_describes_def unat_of_nat)

lemma slot_image_packaged:
  assumes bytes: "bytes_at m (region_lo (layout_slot L ! unat slot)) (512 + length pl) = image_bytes v pl"
    and pl: "pl \<noteq> []" "512 + length pl \<le> unat (region_size (layout_slot L ! unat slot))"
  shows "slot_image L m slot = Inr (image_hdr v pl)"
proof (rule slot_image_described)
  let ?lo = "region_lo (layout_slot L ! unat slot)"
  have lh: "length (hdr_bytes (image_hdr v pl)) = 40" by (simp add: length_hdr_bytes)
  show "bytes_at m ?lo 40 = hdr_bytes (image_hdr v pl)"
    using arg_cong [OF bytes, of "take 40"] lh by (simp add: take_bytes_at image_bytes_def)
  show "bytes_at m (?lo + 512) (length pl) = pl"
    using arg_cong [OF bytes, of "drop 512"] lh by (simp add: drop_bytes_at image_bytes_def)
  have "length pl < 2 ^ 32" using pl(2) unsigned_less [of "region_size (layout_slot L ! unat slot)", where ?'a = nat] by simp
  with pl(1) show "hdr_describes 512 pl (image_hdr v pl)" by (rule hdr_describes_packaged)
qed (fact pl(2))

lemma slot_image_cong:
  assumes "\<And>x. region_lo (layout_slot L ! unat slot) \<le> x \<Longrightarrow> x < region_hi (layout_slot L ! unat slot) \<Longrightarrow> m x = m' x"
    and "SIZEOF_IMG_HDR \<le> unat (region_size (layout_slot L ! unat slot))"
  shows "slot_image L m slot = slot_image L m' slot"
proof -
  let ?r = "layout_slot L ! unat slot"
  have hdr: "bytes_at m (region_lo ?r) 40 = bytes_at m' (region_lo ?r) 40"
    using assms by (intro bytes_at_cong) auto
  have "bytes_at m (region_lo ?r + off) n = bytes_at m' (region_lo ?r + off) n"
    if "off + n \<le> unat (region_size ?r)" for off n
    using assms that by (intro bytes_at_cong) auto
  then show ?thesis using hdr by (simp add: slot_image_def Let_def)
qed

context readable_flash_port
begin

lemma payload_crc_loop_eq:
  assumes "pinv s" and "remaining = 0 \<or> lo \<le> unat address \<and> unat address + unat remaining \<le> hi"
  shows "payload_crc_loop P s address remaining crc =
    Some (Inr (bl_crc32 crc (bytes_at (mem s) (unat address) (unat remaining))))"
  using assms(2)
proof (induction "unat remaining" arbitrary: address remaining crc rule: less_induct)
  case less
  show ?case
  proof (cases "remaining = 0")
    case True
    then show ?thesis by (simp add: payload_crc_loop.simps)
  next
    case False
    define chunk where "chunk = (if remaining > BL_CRC_CHUNK then BL_CRC_CHUNK else remaining)"
    have c: "0 < chunk" "chunk \<le> remaining"
      using False by (auto simp: chunk_def word_neq_0_conv intro: less_imp_le)
    have range: "lo \<le> unat address" "unat address + unat remaining \<le> hi" using less.prems False by auto
    have le: "unat chunk \<le> unat remaining" using c(2) by (simp add: word_le_nat_alt)
    have sub: "unat (remaining - chunk) = unat remaining - unat chunk" using c(2) by (simp add: unat_sub)
    have next_ok: "remaining - chunk = 0 \<or>
      lo \<le> unat (address + chunk) \<and> unat (address + chunk) + unat (remaining - chunk) \<le> hi \<and>
      unat (address + chunk) = unat address + unat chunk"
    proof (cases "remaining = chunk")
      case False
      with le have "unat chunk < unat remaining" by (simp add: word_unat_eq_iff)
      with range hi_bound have "unat address + unat chunk < 2 ^ 32" by linarith
      then have "unat (address + chunk) = unat address + unat chunk" by (simp add: unat_add_lem [where 'a = 32, simplified])
      with range le sub show ?thesis by simp
    qed simp
    have rd: "port_flash_read P s address False chunk = Some (BL_OK, bytes_at (mem s) (unat address) (unat chunk))"
      using read_ok [OF assms(1), of address chunk] range le by simp
    have "payload_crc_loop P s address remaining crc =
        payload_crc_loop P s (address + chunk) (remaining - chunk)
          (bl_crc32 crc (bytes_at (mem s) (unat address) (unat chunk)))"
      using False rd by (subst payload_crc_loop.simps) (simp only: chunk_def [symmetric] Let_def, simp add: crc_ok word_neq_0_conv)
    also have "\<dots> = Some (Inr (bl_crc32 (bl_crc32 crc (bytes_at (mem s) (unat address) (unat chunk)))
        (bytes_at (mem s) (unat (address + chunk)) (unat (remaining - chunk)))))"
      using next_ok unat_sub_less [OF c] by (intro less.hyps) auto
    also have "\<dots> = Some (Inr (bl_crc32 crc (bytes_at (mem s) (unat address) (unat remaining))))"
      using next_ok le sub by (auto simp: bl_crc32_append bytes_at_append)
    finally show ?thesis .
  qed
qed

lemma validate_slot_eq:
  assumes inv: "pinv s" and slot: "slot_is_valid slot"
  shows "bl_core_validate_slot P slot False s = Some (slot_image (port_layout P) (mem s) slot)"
proof -
  let ?r = "layout_slot (port_layout P) ! unat slot"
  note r = slot_in_flash [OF slot_is_valid_unat [OF slot]]
  define bytes where "bytes = bytes_at (mem s) (region_lo ?r) 40"
  define hdr where "hdr = hdr_of_bytes bytes"
  have rd: "port_flash_read P s (region_base ?r) False 40 = Some (BL_OK, bytes)"
    using read_ok [OF inv, of "region_base ?r" 40] r by (simp add: bytes_def)
  have hb: "hdr_bytes hdr = bytes" by (simp add: hdr_def bytes_def hdr_bytes_of_bytes)
  have loop: "payload_crc_loop P s (region_base ?r + entry_offset hdr) (img_size hdr) 0 =
      Some (Inr (bl_crc32 0 (bytes_at (mem s) (region_lo ?r + unat (entry_offset hdr)) (unat (img_size hdr)))))"
    if "entry_offset hdr < region_size ?r" "img_size hdr \<noteq> 0" "img_size hdr \<le> region_size ?r - entry_offset hdr"
  proof -
    have a: "unat (entry_offset hdr) + unat (img_size hdr) \<le> unat (region_size ?r)"
      and b: "unat (entry_offset hdr) < unat (region_size ?r)"
      using that by (auto simp: word_less_nat_alt word_le_nat_alt unat_sub)
    then have "region_lo ?r + unat (entry_offset hdr) < 2 ^ 32" using r(2) hi_bound by linarith
    then have "unat (region_base ?r + entry_offset hdr) = region_lo ?r + unat (entry_offset hdr)"
      by (simp add: unat_add_lem [where 'a = 32, simplified])
    with payload_crc_loop_eq [OF inv, of "img_size hdr" "region_base ?r + entry_offset hdr" 0] a r
    show ?thesis by simp
  qed
  have size: "img_size hdr > region_size ?r - entry_offset hdr \<longleftrightarrow>
      unat (region_size ?r) < unat (entry_offset hdr) + unat (img_size hdr)"
    if "\<not> region_size ?r \<le> entry_offset hdr"
    using that by (auto simp: word_less_nat_alt word_le_nat_alt unat_sub)
  show ?thesis
    using rd loop size slot
    by (simp add: bl_core_validate_slot_def slot_image_def Let_def bytes_def [symmetric] hdr_def [symmetric]
        hb and_511_eq_0_iff word_less_nat_alt word_le_nat_alt unat_eq_0 unat_sub)
qed

lemma select_slot_eq:
  assumes "pinv s"
  shows "bl_core_select_slot P False False s = Some (select_spec (port_layout P) (mem s))"
proof (cases "meta_authoritative (port_layout P) (mem s)")
  case None
  then show ?thesis
    by (simp add: bl_core_select_slot_def bl_meta_read_eq [OF assms] select_spec_def select_by_version_def
        validate_slot_eq [OF assms] slot_is_valid_iff Let_def)
next
  case (Some ri)
  then obtain r i where ri: "meta_authoritative (port_layout P) (mem s) = Some (r, i)" by (cases ri) simp
  then have v: "slot_is_valid (meta_active_slot r)"
    unfolding slot_is_valid_def using meta_view_valid meta_authoritative_Some by blast
  then show ?thesis
    using other_slot_valid [OF v] ri
    by (auto simp: bl_core_select_slot_def bl_meta_read_eq [OF assms] select_spec_def Let_def
        validate_slot_eq [OF assms] split: sum.split)
qed

lemma slot_image_slots_agree:
  assumes "slots_agree (port_layout P) m m'" and "slot_is_valid slot"
  shows "slot_image (port_layout P) m slot = slot_image (port_layout P) m' slot"
  using assms slot_in_flash(4) [OF slot_is_valid_unat [OF assms(2)]] slot_is_valid_unat [OF assms(2)]
  by (intro slot_image_cong) (auto simp: slots_agree_def)

end

end
