(* ===== verification/Bl_Boot.thy ===== *)
theory Bl_Boot
  imports Bl_Image
begin

text \<open>
  Booting and the trial/rollback policy, \<open>core/src/bl_core.c\<close>: \<open>advance_trial_state\<close>,
  \<open>bl_core_boot\<close>, \<open>bl_core_mark_pending\<close>, \<open>bl_core_confirm\<close>.

  A port's \<open>bl_jump_to_app\<close> that transfers control never returns; the model records the
  jump in the device state and lets the caller continue, which is what the host port
  does and what a refusing port does.

  The specification is a small state machine: \<open>boot_status\<close> abstracts the
  authoritative metadata record, \<open>policy_advance\<close>, \<open>policy_slot\<close> say what a boot does
  with it. The lemmas show that every operation refines it, on any port that keeps the
  contract: a failed commit leaves the status as it was, a successful one makes it the
  policy's.
\<close>

section \<open>The code\<close>

definition advance_trial_state :: "'s bl_port \<Rightarrow> 's \<Rightarrow> 's option" where
  "advance_trial_state P s = do {
     read \<leftarrow> bl_meta_read P False s;
     case read of
       Inl _ \<Rightarrow> Some s
     | Inr meta \<Rightarrow>
         if meta_state meta \<noteq> BL_BOOT_TRIAL then Some s
         else if meta_boot_attempts meta < BL_MAX_BOOT_ATTEMPTS
         then do {
           (_, s) \<leftarrow> bl_meta_commit P (meta_active_slot meta) BL_BOOT_TRIAL (meta_boot_attempts meta + 1) s;
           Some s
         }
         else do {
           let other = other_slot (meta_active_slot meta);
           valid \<leftarrow> bl_core_validate_slot P other False s;
           if is_ok valid
           then do { (_, s) \<leftarrow> bl_meta_commit P other BL_BOOT_CONFIRMED 0 s; Some s }
           else Some s
         }
   }"

definition bl_core_boot :: "'s bl_port \<Rightarrow> 's \<Rightarrow> (bl_result \<times> 's) option" where
  "bl_core_boot P s = do {
     s \<leftarrow> advance_trial_state P s;
     selected \<leftarrow> bl_core_select_slot P False False s;
     case selected of
       Inl result \<Rightarrow> Some (result, s)
     | Inr (slot, hdr) \<Rightarrow>
         let app_base = region_base (layout_slot (port_layout P) ! unat slot) + entry_offset hdr in
         Some (BL_ERR_JUMP_REFUSED, port_jump_to_app P s app_base)
   }"

definition bl_core_mark_pending :: "'s bl_port \<Rightarrow> u8 \<Rightarrow> 's \<Rightarrow> (bl_result \<times> 's) option" where
  "bl_core_mark_pending P slot s =
     (if \<not> slot_is_valid slot then Some (BL_ERR_INVALID_ARGUMENT, s)
      else do {
        valid \<leftarrow> bl_core_validate_slot P slot False s;
        case valid of
          Inl result \<Rightarrow> Some (result, s)
        | Inr hdr \<Rightarrow> bl_meta_commit P slot BL_BOOT_TRIAL 0 s
      })"

definition bl_core_confirm :: "'s bl_port \<Rightarrow> 's \<Rightarrow> (bl_result \<times> 's) option" where
  "bl_core_confirm P s = do {
     read \<leftarrow> bl_meta_read P False s;
     case read of
       Inl result \<Rightarrow> Some (result, s)
     | Inr meta \<Rightarrow>
         if meta_state meta = BL_BOOT_CONFIRMED then Some (BL_OK, s)
         else bl_meta_commit P (meta_active_slot meta) BL_BOOT_CONFIRMED 0 s
   }"

section \<open>The policy\<close>

datatype boot_status = No_record | Confirmed u8 | Trial u8 nat

definition boot_status_of :: "bl_layout \<Rightarrow> (nat \<Rightarrow> u8) \<Rightarrow> boot_status" where
  "boot_status_of L m =
     (case meta_authoritative L m of
        None \<Rightarrow> No_record
      | Some (r, _) \<Rightarrow>
          if meta_state r = BL_BOOT_TRIAL then Trial (meta_active_slot r) (unat (meta_boot_attempts r))
          else Confirmed (meta_active_slot r))"

text \<open>What a boot does to the status before it selects a slot.\<close>

fun policy_advance :: "(u8 \<Rightarrow> bool) \<Rightarrow> boot_status \<Rightarrow> boot_status" where
  "policy_advance valid (Trial a n) =
     (if n < 3 then Trial a (n + 1) else if valid (other_slot a) then Confirmed (other_slot a) else Trial a n)"
| "policy_advance valid st = st"

fun nominated :: "boot_status \<Rightarrow> u8 option" where
  "nominated No_record = None"
| "nominated (Confirmed a) = Some a"
| "nominated (Trial a n) = Some a"

text \<open>The slot that runs: the nominated one, the other one as a fallback, the newer of the
  valid ones without a nomination.\<close>

definition policy_slot :: "(u8 \<Rightarrow> bl_result + bl_img_hdr) \<Rightarrow> boot_status \<Rightarrow> u8 option" where
  "policy_slot img st =
     (case nominated st of
        Some a \<Rightarrow> if is_ok (img a) then Some a else if is_ok (img (other_slot a)) then Some (other_slot a) else None
      | None \<Rightarrow>
          if is_ok (img 0) \<and> is_ok (img 1)
          then Some (if fw_version (projr (img 1)) > fw_version (projr (img 0)) then 1 else 0)
          else if is_ok (img 0) then Some 0 else if is_ok (img 1) then Some 1 else None)"

definition boot_entry :: "bl_layout \<Rightarrow> (nat \<Rightarrow> u8) \<Rightarrow> u8 \<Rightarrow> u32" where
  "boot_entry L m a = region_base (layout_slot L ! unat a) + entry_offset (projr (slot_image L m a))"

lemma select_spec_policy:
  "select_spec L m =
     (case policy_slot (slot_image L m) (boot_status_of L m) of
        None \<Rightarrow> Inl BL_ERR_NO_VALID_IMAGE
      | Some a \<Rightarrow> Inr (a, projr (slot_image L m a)))"
  by (auto simp: select_spec_def policy_slot_def boot_status_of_def Let_def is_ok_def
      split: sum.split option.split)

lemma policy_slot_valid: "policy_slot img st = Some a \<Longrightarrow> is_ok (img a)"
  by (auto simp: policy_slot_def split: option.splits if_splits)

lemma policy_slot_None_iff:
  assumes "\<And>a. nominated st = Some a \<Longrightarrow> slot_is_valid a"
  shows "policy_slot img st = None \<longleftrightarrow> \<not> is_ok (img 0) \<and> \<not> is_ok (img 1)"
proof (cases "nominated st")
  case None
  then show ?thesis by (simp add: policy_slot_def)
next
  case (Some a)
  with assms have "a = 0 \<or> a = 1" by (simp add: slot_is_valid_iff)
  with Some show ?thesis by (auto simp: policy_slot_def)
qed

lemma nominated_valid: "nominated (boot_status_of L m) = Some a \<Longrightarrow> slot_is_valid a"
  unfolding slot_is_valid_def
  by (auto simp: boot_status_of_def simp del: BL_SLOT_COUNT_def split: option.splits if_splits
      dest!: meta_authoritative_Some meta_view_valid)

lemma boot_status_of_record:
  "meta_authoritative L m = Some (meta_record q a t n, i) \<Longrightarrow>
   boot_status_of L m = (if t = BL_BOOT_TRIAL then Trial a (unat n) else Confirmed a)"
  by (simp add: boot_status_of_def)

lemma boot_status_of_cong:
  "meta_authoritative L m = meta_authoritative L m' \<Longrightarrow> boot_status_of L m = boot_status_of L m'"
  by (simp add: boot_status_of_def)

section \<open>Refinement\<close>

text \<open>The sequence number the status rests on; no record counts as zero.\<close>

definition meta_seq_of :: "bl_layout \<Rightarrow> (nat \<Rightarrow> u8) \<Rightarrow> nat" where
  "meta_seq_of L m = (case meta_authoritative L m of None \<Rightarrow> 0 | Some (r, _) \<Rightarrow> unat (meta_seq r))"

lemma next_seq_eq_0_iff:
  "fst (commit_target (meta_authoritative L m)) = 0 \<longleftrightarrow> meta_seq_of L m = 2 ^ 32 - 1"
proof (cases "meta_authoritative L m")
  case (Some ri)
  obtain r i where [simp]: "ri = (r, i)" by (cases ri)
  have "meta_seq r + 1 = 0 \<longleftrightarrow> meta_seq r = - 1" by (metis add.commute add.right_inverse add_left_cancel)
  also have "\<dots> \<longleftrightarrow> unat (meta_seq r) = 2 ^ 32 - 1" by (simp add: word_unat_eq_iff unsigned_minus_1_eq_mask mask_eq_exp_minus_1)
  finally show ?thesis using Some by (simp add: commit_target_def meta_seq_of_def)
qed (simp add: commit_target_def meta_seq_of_def)

lemma unat_next_seq:
  "fst (commit_target (meta_authoritative L m)) \<noteq> 0 \<Longrightarrow>
   unat (fst (commit_target (meta_authoritative L m))) = meta_seq_of L m + 1"
  by (auto simp: commit_target_def meta_seq_of_def unatSuc add.commute split: option.splits)

lemma next_seq_of_nat: "fst (commit_target (meta_authoritative L m)) = of_nat (meta_seq_of L m + 1)"
  by (auto simp: commit_target_def meta_seq_of_def add.commute split: option.split)

lemma boot_status_trial_iff:
  "boot_status_of L m = Trial a n \<longleftrightarrow>
   (\<exists>r i. meta_authoritative L m = Some (r, i) \<and> meta_state r = BL_BOOT_TRIAL \<and>
      meta_active_slot r = a \<and> unat (meta_boot_attempts r) = n)"
  by (auto simp: boot_status_of_def split: option.splits)

context reliable_flash_port
begin

abbreviation status :: "'a \<Rightarrow> boot_status" where
  "status s \<equiv> boot_status_of (port_layout P) (mem s)"

abbreviation image :: "'a \<Rightarrow> u8 \<Rightarrow> bl_result + bl_img_hdr" where
  "image s \<equiv> slot_image (port_layout P) (mem s)"

abbreviation seq :: "'a \<Rightarrow> nat" where
  "seq s \<equiv> meta_seq_of (port_layout P) (mem s)"

lemma commit_ready:
  assumes inv: "pinv s" and args: "a < BL_SLOT_COUNT" "state_is_valid t" and legal: "meta_erasable P"
    and "ready s" and commit: "bl_meta_commit P a t n s = Some (res, s')"
  shows "res = BL_OK"
proof -
  let ?r = "layout_meta (port_layout P) ! meta_target s"
  have el: "erase_legal P (region_base ?r) (region_size ?r)"
    by (rule meta_erasable_nth [OF legal meta_target_less])
  show ?thesis
  proof (rule commit_outcome [OF inv args el, of n])
    fix res2 s2
    assume "bl_meta_commit P a t n s = Some (res2, s2)"
      and bad: "res2 \<noteq> BL_OK \<longrightarrow> port_flash_erase P s (region_base ?r) (region_size ?r) = Some (res2, s2) \<or>
      (\<exists>s1. port_flash_erase P s (region_base ?r) (region_size ?r) = Some (BL_OK, s1) \<and> pinv s1 \<and>
         bytes_at (mem s1) (region_lo ?r) 16 = replicate 16 0xFF \<and>
         port_flash_write P s1 (region_base ?r) (Some (meta_bytes (meta_record (meta_next_seq s) a t n))) 16 =
           Some (res2, s2))"
    with commit have "res2 = res" by simp
    with bad erase_succeeds [OF inv] ready_erase [OF \<open>ready s\<close>] ready_write show ?thesis by blast
  qed
qed

lemma commit_status:
  assumes inv: "pinv s" and a: "slot_is_valid a" and t: "state_is_valid t" and legal: "meta_erasable P"
  obtains res s' where "bl_meta_commit P a t n s = Some (res, s')" and "pinv s'"
    and "slots_agree (port_layout P) (mem s') (mem s)" and "slots_agree (port_layout P) (prog s') (prog s)"
    and "status s' = (if t = BL_BOOT_TRIAL then Trial a (unat n) else Confirmed a) \<and> res = BL_OK \<or>
         status s' = status s \<and> (\<not> ready s \<and> res = BL_ERR_FLASH_PROGRAM \<or> seq s = 2 ^ 32 - 1)"
    and "seq s' \<le> seq s + 1"
proof (rule commit_atomic [OF inv a [unfolded slot_is_valid_def] t legal, of n])
  fix res s'
  assume c: "bl_meta_commit P a t n s = Some (res, s')" "pinv s'"
    "slots_agree (port_layout P) (mem s') (mem s)" "slots_agree (port_layout P) (prog s') (prog s)"
    and ok: "res = BL_OK \<longrightarrow> meta_next_seq s \<noteq> 0 \<longrightarrow> meta_authoritative (port_layout P) (mem s') =
           Some (meta_record (meta_next_seq s) a t n, meta_target s)"
    and wrap: "res = BL_OK \<longrightarrow> meta_next_seq s = 0 \<longrightarrow>
           meta_authoritative (port_layout P) (mem s') = meta_authoritative (port_layout P) (mem s)"
    and bad: "res \<noteq> BL_OK \<longrightarrow> res = BL_ERR_FLASH_PROGRAM \<and>
           meta_authoritative (port_layout P) (mem s') = meta_authoritative (port_layout P) (mem s)"
  have ready: "ready s \<Longrightarrow> res = BL_OK"
    using commit_ready [OF inv a [unfolded slot_is_valid_def] t legal _ c(1)] .
  show ?thesis
  proof (cases "res = BL_OK \<and> meta_next_seq s \<noteq> 0")
    case True
    with ok have new: "meta_authoritative (port_layout P) (mem s') =
        Some (meta_record (meta_next_seq s) a t n, meta_target s)" by blast
    then have "seq s' = seq s + 1"
      using unat_next_seq True by (simp add: meta_seq_of_def)
    then show ?thesis using that [OF c] boot_status_of_record [OF new] True by simp
  next
    case False
    with wrap bad have same: "meta_authoritative (port_layout P) (mem s') =
        meta_authoritative (port_layout P) (mem s)" by blast
    then have "status s' = status s" "seq s' = seq s" by (simp_all add: boot_status_of_def meta_seq_of_def)
    moreover have "\<not> ready s \<and> res = BL_ERR_FLASH_PROGRAM \<or> seq s = 2 ^ 32 - 1"
      using False bad ready next_seq_eq_0_iff by blast
    ultimately show ?thesis using that [OF c] by simp
  qed
qed

lemma advance_refines:
  assumes inv: "pinv s" and legal: "meta_erasable P"
  obtains s' where "advance_trial_state P s = Some s'" and "pinv s'"
    and "slots_agree (port_layout P) (mem s') (mem s)" and "slots_agree (port_layout P) (prog s') (prog s)"
    and "status s' = policy_advance (\<lambda>a. is_ok (image s a)) (status s) \<or>
         status s' = status s \<and> (\<not> ready s \<or> seq s = 2 ^ 32 - 1)"
    and "seq s' \<le> seq s + 1"
proof (cases "\<exists>a n. status s = Trial a n \<and> (n < 3 \<or> is_ok (image s (other_slot a)))")
  case False
  then have "advance_trial_state P s = Some s"
    and "policy_advance (\<lambda>a. is_ok (image s a)) (status s) = status s"
    using other_slot_valid nominated_valid [of "port_layout P" "mem s"]
    by (auto simp: advance_trial_state_def bl_meta_read_eq [OF inv] boot_status_trial_iff
        validate_slot_eq [OF inv] word_less_nat_alt boot_status_of_def Let_def split: option.split prod.split)
  then show ?thesis using that [of s] inv by (simp add: slots_agree_def)
next
  case True
  then obtain a n r i where st: "status s = Trial a n" "n < 3 \<or> is_ok (image s (other_slot a))"
    and r: "meta_authoritative (port_layout P) (mem s) = Some (r, i)" "meta_state r = BL_BOOT_TRIAL"
      "meta_active_slot r = a" "unat (meta_boot_attempts r) = n"
    by (auto simp: boot_status_trial_iff)
  have a: "slot_is_valid a" using nominated_valid [of "port_layout P" "mem s" a] st(1) by simp
  note result = that
  have step: ?thesis
    if c: "slot_is_valid b" "state_is_valid t"
      "advance_trial_state P s = do { (_, s') \<leftarrow> bl_meta_commit P b t k s; Some s' }"
      "policy_advance (\<lambda>a. is_ok (image s a)) (status s) =
        (if t = BL_BOOT_TRIAL then Trial b (unat k) else Confirmed b)" for b t k
    by (rule commit_status [OF inv c(1,2) legal, of k]) (use c(3,4) in \<open>auto intro!: result\<close>)
  have read: "bl_meta_read P False s = Some (Inr r)" by (simp add: bl_meta_read_eq [OF inv] r(1))
  show ?thesis
  proof (cases "n < 3")
    case True
    then have "unat (meta_boot_attempts r + 1) = n + 1" using r(4) by (simp add: unat_word_ariths)
    with True r read a st(1) show ?thesis
      by (intro step [of a BL_BOOT_TRIAL "meta_boot_attempts r + 1"])
        (simp_all add: advance_trial_state_def state_is_valid_def word_less_nat_alt)
  next
    case False
    with r read a st show ?thesis
      by (intro step [of "other_slot a" BL_BOOT_CONFIRMED 0])
        (simp_all add: advance_trial_state_def state_is_valid_def word_less_nat_alt other_slot_valid
          validate_slot_eq [OF inv])
  qed
qed

lemma image_agree:
  "slots_agree (port_layout P) (mem s') (mem s) \<Longrightarrow> slot_is_valid a \<Longrightarrow> image s' a = image s a"
  by (rule slot_image_slots_agree)

lemma policy_slot_agree:
  assumes "slots_agree (port_layout P) (mem s') (mem s)"
  shows "policy_slot (image s') (status t) = policy_slot (image s) (status t)"
proof -
  have "image s' 0 = image s 0" "image s' 1 = image s 1"
    using image_agree [OF assms] by (simp_all add: slot_is_valid_iff)
  moreover have "a = 0 \<or> a = 1" if "nominated (status t) = Some a" for a
    using nominated_valid [OF that] by (simp add: slot_is_valid_iff)
  ultimately show ?thesis by (auto simp: policy_slot_def split: option.split)
qed

lemma boot_entry_agree:
  "slots_agree (port_layout P) (mem s') (mem s) \<Longrightarrow> slot_is_valid a \<Longrightarrow>
   boot_entry (port_layout P) (mem s') a = boot_entry (port_layout P) (mem s) a"
  by (simp add: boot_entry_def image_agree)

lemma policy_slot_range: "policy_slot img (status t) = Some a \<Longrightarrow> slot_is_valid a"
  using nominated_valid [of "port_layout P" "mem t"] other_slot_valid
  by (auto simp: policy_slot_def slot_is_valid_iff split: option.splits if_splits)

lemma boot_refines:
  assumes inv: "pinv s" and legal: "meta_erasable P"
  obtains r s1 s' where "bl_core_boot P s = Some (r, s')" and "advance_trial_state P s = Some s1"
    and "pinv s'" and "mem s' = mem s1" and "prog s' = prog s1"
    and "slots_agree (port_layout P) (mem s') (mem s)" and "slots_agree (port_layout P) (prog s') (prog s)"
    and "status s' = policy_advance (\<lambda>a. is_ok (image s a)) (status s) \<or>
         status s' = status s \<and> (\<not> ready s \<or> seq s = 2 ^ 32 - 1)"
    and "seq s' \<le> seq s + 1"
    and "case policy_slot (image s) (status s') of
           None \<Rightarrow> r = BL_ERR_NO_VALID_IMAGE \<and> s' = s1
         | Some a \<Rightarrow> r = BL_ERR_JUMP_REFUSED \<and>
             s' = port_jump_to_app P s1 (boot_entry (port_layout P) (mem s) a)"
proof (rule advance_refines [OF inv legal])
  fix s1
  assume s1: "advance_trial_state P s = Some s1" "pinv s1"
    "slots_agree (port_layout P) (mem s1) (mem s)" "slots_agree (port_layout P) (prog s1) (prog s)"
    "status s1 = policy_advance (\<lambda>a. is_ok (image s a)) (status s) \<or>
     status s1 = status s \<and> (\<not> ready s \<or> seq s = 2 ^ 32 - 1)" "seq s1 \<le> seq s + 1"
  note sel = select_slot_eq [OF s1(2), unfolded select_spec_policy]
  note ps = policy_slot_agree [OF s1(3), of s1]
  show ?thesis
  proof (cases "policy_slot (image s) (status s1)")
    case None
    then have "bl_core_boot P s = Some (BL_ERR_NO_VALID_IMAGE, s1)"
      using sel ps by (simp add: bl_core_boot_def s1(1))
    then show ?thesis using that [of _ s1 s1] s1 None by simp
  next
    case (Some a)
    let ?s' = "port_jump_to_app P s1 (boot_entry (port_layout P) (mem s) a)"
    have "bl_core_boot P s = Some (BL_ERR_JUMP_REFUSED, ?s')"
      using sel ps Some boot_entry_agree [OF s1(3) policy_slot_range [OF Some]]
      by (simp add: bl_core_boot_def s1(1) boot_entry_def Let_def)
    then show ?thesis using that [of _ ?s' s1] s1 Some jump_frame by simp
  qed
qed

text \<open>A device with one valid image always finds it.\<close>

lemma boot_selects_iff:
  "policy_slot (image s) (status t) = None \<longleftrightarrow> \<not> is_ok (image s 0) \<and> \<not> is_ok (image s 1)"
  by (rule policy_slot_None_iff) (rule nominated_valid)

lemma mark_pending_refines:
  assumes inv: "pinv s" and legal: "meta_erasable P"
  obtains r s' where "bl_core_mark_pending P a s = Some (r, s')" and "pinv s'"
    and "slots_agree (port_layout P) (mem s') (mem s)" and "slots_agree (port_layout P) (prog s') (prog s)"
    and "\<not> slot_is_valid a \<longrightarrow> r = BL_ERR_INVALID_ARGUMENT \<and> s' = s"
    and "slot_is_valid a \<longrightarrow> (\<forall>e. image s a = Inl e \<longrightarrow> r = e \<and> s' = s)"
    and "slot_is_valid a \<and> is_ok (image s a) \<longrightarrow>
         status s' = Trial a 0 \<and> r = BL_OK \<or>
         status s' = status s \<and> (\<not> ready s \<and> r = BL_ERR_FLASH_PROGRAM \<or> seq s = 2 ^ 32 - 1)"
    and "seq s' \<le> seq s + 1"
proof (cases "slot_is_valid a \<and> is_ok (image s a)")
  case False
  then show ?thesis
    using that [of _ s] inv
    by (cases "slot_is_valid a")
      (auto simp: bl_core_mark_pending_def validate_slot_eq [OF inv] slots_agree_def is_ok_def split: sum.splits)
next
  case True
  then have "bl_core_mark_pending P a s = bl_meta_commit P a BL_BOOT_TRIAL 0 s"
    by (auto simp: bl_core_mark_pending_def validate_slot_eq [OF inv] is_ok_def split: sum.splits)
  note eq = this
  have t: "state_is_valid BL_BOOT_TRIAL" by (simp add: state_is_valid_def)
  show ?thesis
  proof (rule commit_status [OF inv True [THEN conjunct1] t legal, of 0])
    fix r s'
    assume "bl_meta_commit P a BL_BOOT_TRIAL 0 s = Some (r, s')" "pinv s'"
      "slots_agree (port_layout P) (mem s') (mem s)" "slots_agree (port_layout P) (prog s') (prog s)"
      "status s' = (if BL_BOOT_TRIAL = BL_BOOT_TRIAL then Trial a (unat (0 :: u8)) else Confirmed a) \<and> r = BL_OK \<or>
       status s' = status s \<and> (\<not> ready s \<and> r = BL_ERR_FLASH_PROGRAM \<or> seq s = 2 ^ 32 - 1)"
      "seq s' \<le> seq s + 1"
    with eq True show ?thesis by (intro that [of r s']) (auto simp: is_ok_def)
  qed
qed

lemma confirm_refines:
  assumes inv: "pinv s" and legal: "meta_erasable P"
  obtains r s' where "bl_core_confirm P s = Some (r, s')" and "pinv s'"
    and "slots_agree (port_layout P) (mem s') (mem s)" and "slots_agree (port_layout P) (prog s') (prog s)"
    and "status s = No_record \<longrightarrow> r = BL_ERR_NO_METADATA \<and> s' = s"
    and "\<forall>a. status s = Confirmed a \<longrightarrow> r = BL_OK \<and> s' = s"
    and "\<forall>a n. status s = Trial a n \<longrightarrow>
         status s' = Confirmed a \<and> r = BL_OK \<or>
         status s' = status s \<and> (\<not> ready s \<and> r = BL_ERR_FLASH_PROGRAM \<or> seq s = 2 ^ 32 - 1)"
    and "seq s' \<le> seq s + 1"
proof (cases "\<exists>a n. status s = Trial a n")
  case False
  have "meta_state r = 1" if "meta_authoritative (port_layout P) (mem s) = Some (r, i)" for r i
    using meta_authoritative_Some [OF that] meta_view_valid [of _ _ i r] False that
    by (auto simp: boot_status_trial_iff state_is_valid_def)
  then have "bl_core_confirm P s = Some (case status s of No_record \<Rightarrow> BL_ERR_NO_METADATA | _ \<Rightarrow> BL_OK, s)"
    by (auto simp: bl_core_confirm_def bl_meta_read_eq [OF inv] boot_status_of_def split: option.split)
  then show ?thesis using that [of _ s] inv False by (cases "status s") (simp_all add: slots_agree_def)
next
  case True
  then obtain a n r i where st: "status s = Trial a n"
    and r: "meta_authoritative (port_layout P) (mem s) = Some (r, i)" "meta_state r = BL_BOOT_TRIAL"
      "meta_active_slot r = a"
    by (auto simp: boot_status_trial_iff)
  have eq: "bl_core_confirm P s = bl_meta_commit P a BL_BOOT_CONFIRMED 0 s"
    using r by (simp add: bl_core_confirm_def bl_meta_read_eq [OF inv])
  have t: "state_is_valid BL_BOOT_CONFIRMED" by (simp add: state_is_valid_def)
  have a: "slot_is_valid a" using nominated_valid [of "port_layout P" "mem s" a] st by simp
  show ?thesis
  proof (rule commit_status [OF inv a t legal, of 0])
    fix r s'
    assume "bl_meta_commit P a BL_BOOT_CONFIRMED 0 s = Some (r, s')" "pinv s'"
      "slots_agree (port_layout P) (mem s') (mem s)" "slots_agree (port_layout P) (prog s') (prog s)"
      "status s' = (if BL_BOOT_CONFIRMED = BL_BOOT_TRIAL then Trial a (unat (0 :: u8)) else Confirmed a) \<and> r = BL_OK \<or>
       status s' = status s \<and> (\<not> ready s \<and> r = BL_ERR_FLASH_PROGRAM \<or> seq s = 2 ^ 32 - 1)"
      "seq s' \<le> seq s + 1"
    with eq st show ?thesis by (intro that [of r s']) auto
  qed
qed

end

end
