(* ===== verification/Bl_Session.thy ===== *)
theory Bl_Session
  imports Bl_Boot Bl_Frame
begin

text \<open>
  The update protocol, the second half of \<open>core/src/bl_core.c\<close>: one function per
  command, \<open>respond\<close> that encodes every answer, and the dispatcher
  \<open>bl_core_handle_frame\<close>. The caller's session structure is the record \<open>bl_session\<close>;
  the response buffer, its stated capacity and the length the handler stores are the
  record \<open>bl_response\<close>.

  The lemmas: every request is answered by one frame that echoes the command, whatever
  the request holds; the session invariant \<open>session_inv\<close> ties the session to the
  programmed bytes of the target slot, so that a write that passes the guards never
  programs a byte twice -- with one exception, the header write at offset zero after
  payload bytes below its end; no command changes anything outside the slot or the
  metadata regions it is about.
\<close>

section \<open>State\<close>

record bl_session =
  target_slot :: u8
  erased :: bool
  highest_offset :: u32
  header_written :: bool
  reset_requested :: bool

definition session_zero :: bl_session where
  "session_zero = \<lparr>target_slot = 0, erased = False, highest_offset = 0, header_written = False,
     reset_requested = False\<rparr>"

record bl_response =
  resp_buf :: "u8 list"
  resp_size :: nat
  resp_len :: nat

definition BL_MAX_RESPONSE_DATA :: u16 where [simp]: "BL_MAX_RESPONSE_DATA = 20"
definition BL_MIN_RESPONSE_SIZE :: nat where [simp]: "BL_MIN_RESPONSE_SIZE = 29"

section \<open>The handlers\<close>

definition respond ::
    "u8 \<Rightarrow> bl_result \<Rightarrow> u8 list option \<Rightarrow> u16 \<Rightarrow> bl_response \<Rightarrow> bl_result \<times> bl_response" where
  "respond cmd status data data_len resp =
     (if data_len > BL_MAX_RESPONSE_DATA then (BL_ERR_UNKNOWN, resp)
      else
        let payload = result_code status # (if data_len > 0 then take (unat data_len) (the data) else []);
            (len, out) = bl_frame_encode cmd (Some payload) (data_len + 1) (resp_buf resp) (resp_size resp) in
        if len = 0 then (BL_ERR_UNKNOWN, resp\<lparr>resp_buf := out\<rparr>)
        else (BL_OK, resp\<lparr>resp_buf := out, resp_len := len\<rparr>))"

definition handle_hello ::
    "'s bl_port \<Rightarrow> u8 \<Rightarrow> u16 \<Rightarrow> 's \<Rightarrow> bl_response \<Rightarrow> (bl_result \<times> bl_response) option" where
  "handle_hello P cmd request_len s resp =
     (if request_len \<noteq> 0 then Some (respond cmd BL_ERR_INVALID_PACKET None 0 resp)
      else do {
        erase_granularity \<leftarrow> port_erase_granularity P (region_base (layout_slot (port_layout P) ! unat BL_SLOT_A));
        read \<leftarrow> bl_meta_read P False s;
        let data =
          [BL_PROTO_VERSION, ucast BL_IMG_HDR_VERSION, BL_SLOT_COUNT] @
          put_u32_le (region_size (layout_slot (port_layout P) ! unat BL_SLOT_A)) @
          put_u32_le (port_write_granularity P) @
          put_u32_le erase_granularity @
          [ucast (BL_MAX_WRITE_DATA AND 0xFF), ucast (drop_bit 8 BL_MAX_WRITE_DATA AND 0xFF)] @
          (case read of
             Inr meta \<Rightarrow> [meta_active_slot meta, meta_state meta, meta_boot_attempts meta]
           | Inl _ \<Rightarrow> [BL_SLOT_NONE, BL_BOOT_STATE_NONE, 0]);
        Some (respond cmd BL_OK (Some data) 20 resp)
      })"

definition handle_erase_slot ::
    "'s bl_port \<Rightarrow> bl_session \<Rightarrow> u8 \<Rightarrow> bl_frame \<Rightarrow> 's \<Rightarrow> bl_response \<Rightarrow>
     ((bl_result \<times> bl_response) \<times> bl_session \<times> 's) option" where
  "handle_erase_slot P session cmd request s resp =
     (if frame_len request \<noteq> 1 then Some (respond cmd BL_ERR_INVALID_PACKET None 0 resp, session, s)
      else
        let slot = frame_payload request ! 0 in
        if \<not> slot_is_valid slot then Some (respond cmd BL_ERR_INVALID_ARGUMENT None 0 resp, session, s)
        else do {
          let base = region_base (layout_slot (port_layout P) ! unat slot);
          let rsize = region_size (layout_slot (port_layout P) ! unat slot);
          erasable \<leftarrow> region_is_erasable P base rsize;
          if \<not> erasable then Some (respond cmd BL_ERR_INVALID_ARGUMENT None 0 resp, session, s)
          else do {
            (result, s) \<leftarrow> port_flash_erase P s base rsize;
            if result \<noteq> BL_OK then Some (respond cmd result None 0 resp, session, s)
            else
              let session = session\<lparr>target_slot := slot, erased := True, highest_offset := 0,
                              header_written := False\<rparr> in
              Some (respond cmd BL_OK None 0 resp, session, s)
          }
        })"

definition handle_write ::
    "'s bl_port \<Rightarrow> bl_session \<Rightarrow> u8 \<Rightarrow> bl_frame \<Rightarrow> 's \<Rightarrow> bl_response \<Rightarrow>
     ((bl_result \<times> bl_response) \<times> bl_session \<times> 's) option" where
  "handle_write P session cmd request s resp =
     (if frame_len request < 5 then Some (respond cmd BL_ERR_INVALID_PACKET None 0 resp, session, s)
      else if \<not> erased session then Some (respond cmd BL_ERR_NOT_ERASED None 0 resp, session, s)
      else
        let offset = get_u32_le (take 4 (frame_payload request));
            data_len = ucast (frame_len request) - 4 :: u32;
            granularity = port_write_granularity P in
        if offset mod granularity \<noteq> 0 \<or> data_len mod granularity \<noteq> 0
        then Some (respond cmd BL_ERR_INVALID_ARGUMENT None 0 resp, session, s)
        else if offset = 0 \<and> header_written session
        then Some (respond cmd BL_ERR_NOT_ERASED None 0 resp, session, s)
        else if offset \<noteq> 0 \<and> offset < highest_offset session
        then Some (respond cmd BL_ERR_NOT_ERASED None 0 resp, session, s)
        else
          let slot_base = region_base (layout_slot (port_layout P) ! unat (target_slot session));
              slot_size = region_size (layout_slot (port_layout P) ! unat (target_slot session)) in
          if offset > slot_size \<or> data_len > slot_size - offset
          then Some (respond cmd BL_ERR_IMAGE_SIZE None 0 resp, session, s)
          else do {
            (result, s) \<leftarrow> port_flash_write P s (slot_base + offset)
                             (Some (take (unat data_len) (drop 4 (frame_payload request)))) data_len;
            if result \<noteq> BL_OK then Some (respond cmd result None 0 resp, session, s)
            else
              let session = (if offset = 0 then session\<lparr>header_written := True\<rparr> else session);
                  end = offset + data_len;
                  session = (if end > highest_offset session then session\<lparr>highest_offset := end\<rparr> else session) in
              Some (respond cmd BL_OK (Some (put_u32_le offset)) 4 resp, session, s)
          })"

definition handle_verify ::
    "'s bl_port \<Rightarrow> u8 \<Rightarrow> bl_frame \<Rightarrow> 's \<Rightarrow> bl_response \<Rightarrow> (bl_result \<times> bl_response) option" where
  "handle_verify P cmd request s resp =
     (if frame_len request \<noteq> 1 then Some (respond cmd BL_ERR_INVALID_PACKET None 0 resp)
      else
        let slot = frame_payload request ! 0 in
        if \<not> slot_is_valid slot then Some (respond cmd BL_ERR_INVALID_ARGUMENT None 0 resp)
        else do {
          valid \<leftarrow> bl_core_validate_slot P slot False s;
          case valid of
            Inl result \<Rightarrow> Some (respond cmd result None 0 resp)
          | Inr hdr \<Rightarrow>
              let data = put_u32_le (img_size hdr) @ put_u32_le (img_crc32 hdr) @ put_u32_le (fw_version hdr) in
              Some (respond cmd BL_OK (Some data) 12 resp)
        })"

definition handle_set_active ::
    "'s bl_port \<Rightarrow> u8 \<Rightarrow> bl_frame \<Rightarrow> 's \<Rightarrow> bl_response \<Rightarrow> ((bl_result \<times> bl_response) \<times> 's) option" where
  "handle_set_active P cmd request s resp =
     (if frame_len request \<noteq> 1 then Some (respond cmd BL_ERR_INVALID_PACKET None 0 resp, s)
      else do {
        (result, s) \<leftarrow> bl_core_mark_pending P (frame_payload request ! 0) s;
        Some (respond cmd result None 0 resp, s)
      })"

definition handle_reset ::
    "bl_session \<Rightarrow> u8 \<Rightarrow> bl_frame \<Rightarrow> bl_response \<Rightarrow> (bl_result \<times> bl_response) \<times> bl_session" where
  "handle_reset session cmd request resp =
     (if frame_len request \<noteq> 0 then (respond cmd BL_ERR_INVALID_PACKET None 0 resp, session)
      else (respond cmd BL_OK None 0 resp, session\<lparr>reset_requested := True\<rparr>))"

text \<open>
  The dispatcher. \<open>session_null\<close>, \<open>request_null\<close>, \<open>response_null\<close>, \<open>response_len_null\<close>
  say which pointers are null; with a null pointer nothing is touched.
\<close>

record null_args =
  session_null :: bool
  request_null :: bool
  response_null :: bool
  response_len_null :: bool

definition no_null :: null_args where
  "no_null = \<lparr>session_null = False, request_null = False, response_null = False, response_len_null = False\<rparr>"

definition bl_core_handle_frame ::
    "'s bl_port \<Rightarrow> null_args \<Rightarrow> bl_session \<Rightarrow> bl_frame \<Rightarrow> 's \<Rightarrow> bl_response \<Rightarrow>
     ((bl_result \<times> bl_response) \<times> bl_session \<times> 's) option" where
  "bl_core_handle_frame P nulls session request s resp =
     (if session_null nulls \<or> request_null nulls \<or> response_null nulls \<or> response_len_null nulls
      then Some ((BL_ERR_NULL_POINTER, resp), session, s)
      else
        let cmd = frame_cmd request in
        if cmd = BL_CMD_HELLO
        then do { r \<leftarrow> handle_hello P cmd (frame_len request) s resp; Some (r, session, s) }
        else if cmd = BL_CMD_ERASE_SLOT then handle_erase_slot P session cmd request s resp
        else if cmd = BL_CMD_WRITE then handle_write P session cmd request s resp
        else if cmd = BL_CMD_VERIFY
        then do { r \<leftarrow> handle_verify P cmd request s resp; Some (r, session, s) }
        else if cmd = BL_CMD_SET_ACTIVE
        then do { (r, s) \<leftarrow> handle_set_active P cmd request s resp; Some (r, session, s) }
        else if cmd = BL_CMD_RESET
        then let (r, session) = handle_reset session cmd request resp in Some (r, session, s)
        else Some (respond cmd BL_ERR_INVALID_PACKET None 0 resp, session, s))"

section \<open>Every answer is one frame\<close>

text \<open>The answer a handler gives: a frame with the status and the data, or nothing when the
  caller's buffer has no room for it.\<close>

definition reply :: "bl_response \<Rightarrow> u8 \<Rightarrow> bl_result \<Rightarrow> u8 list \<Rightarrow> bl_result \<times> bl_response" where
  "reply resp cmd status data =
     (if 9 + length data \<le> resp_size resp
      then (BL_OK, resp\<lparr>resp_buf := frame_bytes cmd (result_code status # data) @ drop (9 + length data) (resp_buf resp),
                        resp_len := 9 + length data\<rparr>)
      else (BL_ERR_UNKNOWN, resp))"

definition resp_wf :: "bl_response \<Rightarrow> bool" where
  "resp_wf resp \<longleftrightarrow> resp_size resp \<le> length (resp_buf resp)"

lemma unat_of_nat_Suc_u16: "n \<le> 20 \<Longrightarrow> unat (of_nat n + 1 :: u16) = n + 1"
  by (simp add: unat_word_ariths unat_of_nat)

lemma respond_data:
  assumes wf: "resp_wf resp" and n: "length data \<le> 20" "data_len = of_nat (length data)"
  shows "respond cmd status (Some data) data_len resp = reply resp cmd status data"
proof -
  have len: "unat data_len = length data" using n by (simp add: unat_of_nat)
  then have nz: "data_len > 0 \<longleftrightarrow> data \<noteq> []" and le: "\<not> data_len > BL_MAX_RESPONSE_DATA"
    using n(1) by (auto simp: word_less_nat_alt)
  have len1: "unat (data_len + 1) = length data + 1" using n unat_of_nat_Suc_u16 by simp
  show ?thesis
  proof (cases "9 + length data \<le> resp_size resp")
    case True
    then have "bl_frame_encode cmd (Some (result_code status # data)) (data_len + 1) (resp_buf resp) (resp_size resp) =
        (9 + length data, frame_bytes cmd (result_code status # data) @ drop (9 + length data) (resp_buf resp))"
      using bl_frame_encode_ok [of "result_code status # data" "data_len + 1" "resp_size resp" "resp_buf resp" cmd]
        wf n(1) len1 by (simp add: resp_wf_def)
    then show ?thesis using True le nz len by (auto simp: respond_def reply_def)
  next
    case False
    then have "bl_frame_encode cmd (Some (result_code status # data)) (data_len + 1) (resp_buf resp) (resp_size resp) =
        (0, resp_buf resp)"
      using len1 by (simp add: bl_frame_encode_def)
    then show ?thesis using False le nz len by (auto simp: respond_def reply_def)
  qed
qed

lemma respond_status: "resp_wf resp \<Longrightarrow> respond cmd status None 0 resp = reply resp cmd status []"
  using respond_data [of resp "[]" 0 cmd status] by (simp add: respond_def)

lemmas respond_simps = respond_status respond_data

lemma dispatch:
  "frame_cmd request = BL_CMD_HELLO \<Longrightarrow> bl_core_handle_frame P no_null session request s resp =
     do { r \<leftarrow> handle_hello P (frame_cmd request) (frame_len request) s resp; Some (r, session, s) }"
  "frame_cmd request = BL_CMD_ERASE_SLOT \<Longrightarrow> bl_core_handle_frame P no_null session request s resp =
     handle_erase_slot P session (frame_cmd request) request s resp"
  "frame_cmd request = BL_CMD_WRITE \<Longrightarrow> bl_core_handle_frame P no_null session request s resp =
     handle_write P session (frame_cmd request) request s resp"
  "frame_cmd request = BL_CMD_VERIFY \<Longrightarrow> bl_core_handle_frame P no_null session request s resp =
     do { r \<leftarrow> handle_verify P (frame_cmd request) request s resp; Some (r, session, s) }"
  "frame_cmd request = BL_CMD_SET_ACTIVE \<Longrightarrow> bl_core_handle_frame P no_null session request s resp =
     do { (r, s) \<leftarrow> handle_set_active P (frame_cmd request) request s resp; Some (r, session, s) }"
  "frame_cmd request = BL_CMD_RESET \<Longrightarrow> bl_core_handle_frame P no_null session request s resp =
     (let (r, session) = handle_reset session (frame_cmd request) request resp in Some (r, session, s))"
  by (simp_all add: bl_core_handle_frame_def no_null_def)

lemma dispatch_unknown:
  "frame_cmd request \<notin> {BL_CMD_HELLO, BL_CMD_ERASE_SLOT, BL_CMD_WRITE, BL_CMD_VERIFY, BL_CMD_SET_ACTIVE,
     BL_CMD_RESET} \<Longrightarrow>
   bl_core_handle_frame P no_null session request s resp =
     Some (respond (frame_cmd request) BL_ERR_INVALID_PACKET None 0 resp, session, s)"
  by (simp add: bl_core_handle_frame_def no_null_def Let_def)

text \<open>The commands that only answer.\<close>

lemma quiet_commands:
  assumes "frame_cmd request \<notin> {BL_CMD_ERASE_SLOT, BL_CMD_WRITE, BL_CMD_SET_ACTIVE}"
    and "bl_core_handle_frame P no_null session request s resp = Some (out, session', s')"
  shows "s' = s \<and> (session' = session \<or> session' = session\<lparr>reset_requested := True\<rparr>)"
proof -
  consider "frame_cmd request = BL_CMD_HELLO" | "frame_cmd request = BL_CMD_VERIFY" | "frame_cmd request = BL_CMD_RESET"
    | "frame_cmd request \<notin> {BL_CMD_HELLO, BL_CMD_ERASE_SLOT, BL_CMD_WRITE, BL_CMD_VERIFY, BL_CMD_SET_ACTIVE,
        BL_CMD_RESET}" using assms(1) by blast
  then show ?thesis
  proof cases
    case 4
    then show ?thesis using assms(2) dispatch_unknown [OF 4, of P session s resp] by simp
  qed (use assms(2) in \<open>auto simp only: dispatch handle_reset_def Let_def bind_eq_Some_conv split: if_splits prod.splits\<close>)
qed

lemma reply_ex:
  "length data \<le> 20 \<Longrightarrow>
   \<exists>status' data'. reply resp cmd status data = reply resp cmd status' data' \<and> length data' \<le> 20"
  by blast

lemma handle_frame_replies:
  assumes wf: "resp_wf resp"
    and ret: "bl_core_handle_frame P no_null session request s resp = Some (r, session', s')"
  shows "\<exists>status data. r = reply resp (frame_cmd request) status data \<and> length data \<le> 20"
proof -
  show ?thesis
    using ret wf
    by (auto simp: reply_ex bl_core_handle_frame_def no_null_def handle_hello_def handle_erase_slot_def handle_write_def
        handle_verify_def handle_set_active_def handle_reset_def Let_def respond_simps
        split: if_splits bind_splits prod.splits sum.splits)
qed

section \<open>Requests and the session invariant\<close>

text \<open>What the frame parser delivers: a payload array of 512 bytes and a length within it.\<close>

definition request_wf :: "bl_frame \<Rightarrow> bool" where
  "request_wf request \<longleftrightarrow> length (frame_payload request) = 512 \<and> unat (frame_len request) \<le> 512"

definition req_offset :: "bl_frame \<Rightarrow> nat" where
  "req_offset request = unat (get_u32_le (take 4 (frame_payload request)))"

definition req_data :: "bl_frame \<Rightarrow> u8 list" where
  "req_data request = take (unat (frame_len request) - 4) (drop 4 (frame_payload request))"

text \<open>The guards of a write, on unbounded numbers; \<open>BL_OK\<close> when all of them pass.\<close>

definition write_check :: "'s bl_port \<Rightarrow> bl_session \<Rightarrow> bl_frame \<Rightarrow> bl_result" where
  "write_check P session request =
     (let off = req_offset request; n = length (req_data request); g = unat (port_write_granularity P) in
      if n = 0 then BL_ERR_INVALID_PACKET
      else if \<not> erased session then BL_ERR_NOT_ERASED
      else if off mod g \<noteq> 0 \<or> n mod g \<noteq> 0 then BL_ERR_INVALID_ARGUMENT
      else if if off = 0 then header_written session else off < unat (highest_offset session)
      then BL_ERR_NOT_ERASED
      else if off + n > unat (region_size (layout_slot (port_layout P) ! unat (target_slot session)))
      then BL_ERR_IMAGE_SIZE
      else BL_OK)"

text \<open>Nothing at or above \<open>highest_offset\<close> has been programmed in the slot under update.\<close>

definition session_inv :: "bl_layout \<Rightarrow> (nat \<Rightarrow> bool) \<Rightarrow> bl_session \<Rightarrow> bool" where
  "session_inv L pr session \<longleftrightarrow>
     (let r = layout_slot L ! unat (target_slot session) in
      erased session \<longrightarrow>
        slot_is_valid (target_slot session) \<and> unat (highest_offset session) \<le> unat (region_size r) \<and>
        (\<forall>x. unat (highest_offset session) \<le> x \<and> x < unat (region_size r) \<longrightarrow> \<not> pr (region_lo r + x)))"

lemma session_inv_zero [simp]: "session_inv L pr session_zero"
  by (simp add: session_inv_def session_zero_def)

lemma length_req_data: "request_wf request \<Longrightarrow> length (req_data request) = unat (frame_len request) - 4"
  by (auto simp: request_wf_def req_data_def)

lemma unat_data_len: "5 \<le> unat len \<Longrightarrow> unat (ucast len - 4 :: u32) = unat len - 4" for len :: u16
proof -
  assume "5 \<le> unat len"
  moreover have uc: "unat (ucast len :: u32) = unat len"
    by (simp add: unsigned_ucast_eq take_bit_nat_eq_self_iff) (rule order_less_le_trans [OF unsigned_less], simp)
  ultimately have "(4 :: u32) \<le> ucast len" by (simp add: word_le_nat_alt)
  then show ?thesis using uc by (simp add: unat_sub)
qed

definition same_outside :: "bl_region \<Rightarrow> (nat \<Rightarrow> 'b) \<Rightarrow> (nat \<Rightarrow> 'b) \<Rightarrow> bool" where
  "same_outside r m m' \<longleftrightarrow> (\<forall>x. x < region_lo r \<or> region_hi r \<le> x \<longrightarrow> m' x = m x)"

lemma same_outside_refl [simp]: "same_outside r m m"
  by (simp add: same_outside_def)

definition erase_check :: "'s bl_port \<Rightarrow> bl_frame \<Rightarrow> bl_result" where
  "erase_check P request =
     (let slot = frame_payload request ! 0; r = layout_slot (port_layout P) ! unat slot in
      if frame_len request \<noteq> 1 then BL_ERR_INVALID_PACKET
      else if \<not> slot_is_valid slot \<or> \<not> erase_legal P (region_base r) (region_size r)
      then BL_ERR_INVALID_ARGUMENT
      else BL_OK)"

text \<open>The part of flash a command may change: one metadata region for \<open>SET_ACTIVE\<close>, the
  target slot otherwise.\<close>

definition confined :: "bl_layout \<Rightarrow> u8 \<Rightarrow> bl_session \<Rightarrow> (nat \<Rightarrow> 'b) \<Rightarrow> (nat \<Rightarrow> 'b) \<Rightarrow> bool" where
  "confined L cmd session m m' \<longleftrightarrow>
     (if cmd = BL_CMD_SET_ACTIVE then \<exists>i<2. same_outside (layout_meta L ! i) m m'
      else same_outside (layout_slot L ! unat (target_slot session)) m m')"

text \<open>The bytes a header write would program are still erased.\<close>

definition header_clear :: "bl_layout \<Rightarrow> (nat \<Rightarrow> bool) \<Rightarrow> nat \<Rightarrow> bl_session \<Rightarrow> bool" where
  "header_clear L pr n session \<longleftrightarrow>
     (erased session \<and> \<not> header_written session \<longrightarrow>
      (\<forall>x<n. \<not> pr (region_lo (layout_slot L ! unat (target_slot session)) + x)))"

context flash_port
begin

lemma write_eq:
  fixes request :: bl_frame
  assumes wf: "request_wf request" "resp_wf resp"
  defines "off \<equiv> get_u32_le (take 4 (frame_payload request))" and "n \<equiv> ucast (frame_len request) - 4 :: u32"
  shows "handle_write P session cmd request s resp =
    (if write_check P session request \<noteq> BL_OK
     then Some (reply resp cmd (write_check P session request) [], session, s)
     else do {
       (result, s) \<leftarrow> port_flash_write P s
          (region_base (layout_slot (port_layout P) ! unat (target_slot session)) + off) (Some (req_data request)) n;
       if result \<noteq> BL_OK then Some (reply resp cmd result [], session, s)
       else Some (reply resp cmd BL_OK (put_u32_le off),
              session\<lparr>header_written := header_written session \<or> off = 0,
                      highest_offset := max (highest_offset session) (off + n)\<rparr>, s)
     })"
proof (cases "frame_len request < 5")
  case True
  then have "unat (frame_len request) < 5" by (simp add: word_less_nat_alt)
  then show ?thesis
    using True length_req_data [OF wf(1)]
    by (simp add: handle_write_def write_check_def Let_def respond_status [OF wf(2)])
next
  case False
  let ?r = "layout_slot (port_layout P) ! unat (target_slot session)"
  have five: "5 \<le> unat (frame_len request)" using False by (simp add: word_less_nat_alt)
  have n: "unat n = unat (frame_len request) - 4" unfolding n_def by (rule unat_data_len [OF five])
  have len: "length (req_data request) = unat n" using length_req_data [OF wf(1)] n by simp
  have data: "take (unat n) (drop 4 (frame_payload request)) = req_data request"
    by (simp add: req_data_def n)
  have off: "req_offset request = unat off" by (simp add: req_offset_def off_def)
  have mods: "off mod port_write_granularity P = 0 \<longleftrightarrow> unat off mod unat (port_write_granularity P) = 0"
    "n mod port_write_granularity P = 0 \<longleftrightarrow> unat n mod unat (port_write_granularity P) = 0"
    by (simp_all add: word_unat_eq_iff unat_mod)
  have size: "off > region_size ?r \<or> n > region_size ?r - off \<longleftrightarrow> unat (region_size ?r) < unat off + unat n"
    by (cases "off \<le> region_size ?r") (auto simp: word_less_nat_alt word_le_nat_alt unat_sub)
  have max: "(if off + n > highest_offset x then x\<lparr>highest_offset := off + n\<rparr> else x) =
      x\<lparr>highest_offset := max (highest_offset x) (off + n)\<rparr>" for x
    by (cases x) (auto simp: max_def)
  have zero: "off = 0 \<longleftrightarrow> unat off = 0" by (simp add: unat_eq_0)
  have chk: "write_check P session request =
     (if \<not> erased session then BL_ERR_NOT_ERASED
      else if off mod port_write_granularity P \<noteq> 0 \<or> n mod port_write_granularity P \<noteq> 0 then BL_ERR_INVALID_ARGUMENT
      else if off = 0 \<and> header_written session then BL_ERR_NOT_ERASED
      else if off \<noteq> 0 \<and> off < highest_offset session then BL_ERR_NOT_ERASED
      else if off > region_size ?r \<or> n > region_size ?r - off then BL_ERR_IMAGE_SIZE
      else BL_OK)"
    unfolding size mods zero write_check_def Let_def len off using five n by (simp add: word_less_nat_alt)
  show ?thesis
    unfolding handle_write_def Let_def chk
      off_def [symmetric] n_def [symmetric] data respond_status [OF wf(2)]
      respond_data [OF wf(2), of "put_u32_le off" 4, simplified] max
    using False by (auto intro!: bind_option_cong)
qed

end

lemma region_is_erasable_legal:
  "port_erase_granularity P b = Some g \<Longrightarrow> region_is_erasable P b z = Some (erase_legal P b z)"
  by (simp add: region_is_erasable_def erase_legal_def)

context atomic_flash_port
begin

lemma erase_step:
  assumes inv: "pinv s" and wf: "resp_wf resp" and ok: "erase_check P request = BL_OK"
  defines "slot \<equiv> frame_payload request ! 0"
  defines "r \<equiv> layout_slot (port_layout P) ! unat slot"
  obtains s' where "handle_erase_slot P session cmd request s resp =
      Some (reply resp cmd BL_OK [],
        session\<lparr>target_slot := slot, erased := True, highest_offset := 0, header_written := False\<rparr>, s')"
    and "pinv s'" and "same_outside r (mem s) (mem s')" and "same_outside r (prog s) (prog s')"
    and "\<forall>x. region_lo r \<le> x \<and> x < region_hi r \<longrightarrow> mem s' x = 0xFF \<and> \<not> prog s' x"
proof -
  from ok have g: "frame_len request = 1" "slot_is_valid slot" "erase_legal P (region_base r) (region_size r)"
    by (auto simp: erase_check_def Let_def slot_def r_def split: if_splits)
  note rr = slot_in_flash [OF slot_is_valid_unat [OF g(2)], folded r_def]
  from erase_contract [OF inv rr(1,2) g(3)] erase_succeeds [OF inv] obtain s' where
    s': "port_flash_erase P s (region_base r) (region_size r) = Some (BL_OK, s')" "pinv s'"
    "\<forall>x. x < region_lo r \<or> region_hi r \<le> x \<longrightarrow> mem s' x = mem s x \<and> prog s' x = prog s x"
    "\<forall>x. region_lo r \<le> x \<and> x < region_hi r \<longrightarrow> mem s' x = 0xFF \<and> \<not> prog s' x" by blast
  have "region_is_erasable P (region_base r) (region_size r) = Some True"
    using g(3) region_is_erasable_legal [of P "region_base r" _ "region_size r"]
    by (auto simp: erase_legal_def split: option.splits)
  then have "handle_erase_slot P session cmd request s resp =
      Some (reply resp cmd BL_OK [],
        session\<lparr>target_slot := slot, erased := True, highest_offset := 0, header_written := False\<rparr>, s')"
    using g s'(1) by (simp add: handle_erase_slot_def Let_def respond_status [OF wf] slot_def r_def)
  then show ?thesis using that s' by (simp add: same_outside_def)
qed

lemma erase_refused:
  assumes wf: "resp_wf resp" and bad: "erase_check P request \<noteq> BL_OK"
  shows "handle_erase_slot P session cmd request s resp =
    Some (reply resp cmd (erase_check P request) [], session, s)"
proof (cases "frame_len request = 1 \<and> slot_is_valid (frame_payload request ! 0)")
  case False
  then show ?thesis by (auto simp: handle_erase_slot_def erase_check_def Let_def respond_status [OF wf])
next
  case True
  let ?r = "layout_slot (port_layout P) ! unat (frame_payload request ! 0)"
  note rr = slot_in_flash [OF slot_is_valid_unat [OF True [THEN conjunct2]]]
  have "unat (region_base ?r) < hi" using rr(2,4) by simp
  with erase_granularity_defined [of "region_base ?r"] rr(1) obtain g where
    g: "port_erase_granularity P (region_base ?r) = Some g" by blast
  with True bad have "region_is_erasable P (region_base ?r) (region_size ?r) = Some False"
    by (simp add: region_is_erasable_legal erase_check_def Let_def split: if_splits)
  with True bad show ?thesis
    by (auto simp: handle_erase_slot_def erase_check_def Let_def respond_status [OF wf])
qed

lemma write_step:
  fixes request :: bl_frame and session :: bl_session
  assumes inv: "pinv s" and sinv: "session_inv (port_layout P) (prog s) session"
    and wf: "request_wf request" "resp_wf resp" and ok: "write_check P session request = BL_OK"
    and hdr: "req_offset request = 0 \<Longrightarrow> header_clear (port_layout P) (prog s) (length (req_data request)) session"
  defines "r \<equiv> layout_slot (port_layout P) ! unat (target_slot session)"
    and "off \<equiv> req_offset request" and "n \<equiv> length (req_data request)"
  obtains status s' where
      "handle_write P session cmd request s resp =
         (if status = BL_OK
          then Some (reply resp cmd BL_OK (take 4 (frame_payload request)),
            session\<lparr>header_written := header_written session \<or> off = 0,
                    highest_offset := of_nat (max (unat (highest_offset session)) (off + n))\<rparr>, s')
          else Some (reply resp cmd status [], session, s'))"
    and "pinv s'"
    and "\<forall>x. x < region_lo r + off \<or> region_lo r + off + n \<le> x \<longrightarrow> mem s' x = mem s x \<and> prog s' x = prog s x"
    and "status = BL_OK \<longrightarrow> bytes_at (mem s') (region_lo r + off) n = req_data request"
    and "status \<noteq> BL_OK \<longrightarrow> status = BL_ERR_FLASH_PROGRAM \<and> mem s' = mem s \<and> prog s' = prog s"
    and "off + n \<le> unat (region_size r)"
    and "\<exists>a d k. k \<noteq> 0 \<and> port_flash_write P s a (Some d) k = Some (status, s')"
proof -
  let ?w = "get_u32_le (take 4 (frame_payload request))"
  let ?n = "ucast (frame_len request) - 4 :: u32"
  from ok have g: "erased session" "off mod unat (port_write_granularity P) = 0"
    "n mod unat (port_write_granularity P) = 0" "n \<noteq> 0" "off + n \<le> unat (region_size r)"
    and guard: "off = 0 \<and> \<not> header_written session \<or> unat (highest_offset session) \<le> off"
    by (auto simp: write_check_def Let_def off_def n_def r_def split: if_splits)
  have slot: "slot_is_valid (target_slot session)" using sinv g(1) by (simp add: session_inv_def Let_def)
  note rr = slot_in_flash [OF slot_is_valid_unat [OF slot], folded r_def]
  have woff: "unat ?w = off" by (simp add: off_def req_offset_def)
  have bound: "region_lo r + off + n \<le> hi" using g(5) rr(2) by simp
  then have addr: "unat (region_base r + ?w) = region_lo r + off"
    using g(4) hi_bound woff by (simp add: unat_word_ariths)
  have fl: "5 \<le> unat (frame_len request)" using g(4) length_req_data [OF wf(1)] by (simp add: n_def)
  have nn: "unat ?n = n" using unat_data_len [OF fl] by (simp add: n_def length_req_data [OF wf(1)])
  have fresh: "\<not> prog s x" if "region_lo r + off \<le> x" "x < region_lo r + off + n" for x
  proof (cases "off = 0 \<and> \<not> header_written session")
    case True
    then show ?thesis
      using that hdr g(1) spec [of _ "x - region_lo r"]
      by (fastforce simp: header_clear_def off_def n_def r_def le_iff_add)
  next
    case False
    with guard have "unat (highest_offset session) \<le> off" by blast
    then have "unat (highest_offset session) \<le> x - region_lo r" "x - region_lo r < unat (region_size r)"
      "region_lo r + (x - region_lo r) = x" using that g(5) by auto
    then show ?thesis using sinv g(1) unfolding session_inv_def Let_def r_def by metis
  qed
  have al: "(region_lo r + off) mod unat (port_write_granularity P) = 0"
    using rr(3) g(2) granule(2) by (metis dvd_add dvd_trans mod_eq_0_iff_dvd)
  obtain status s' where w: "port_flash_write P s (region_base r + ?w) (Some (req_data request)) ?n = Some (status, s')"
    "pinv s'"
    "\<forall>x. x < region_lo r + off \<or> region_lo r + off + n \<le> x \<longrightarrow> mem s' x = mem s x \<and> prog s' x = prog s x"
    "status = BL_OK \<longrightarrow> bytes_at (mem s') (region_lo r + off) n = req_data request"
    using write_contract [OF inv, of "region_base r + ?w" ?n "req_data request", unfolded addr nn,
        OF _ bound _ al g(3) fresh] rr(1) n_def by fastforce
  have at: "status \<noteq> BL_OK \<longrightarrow> status = BL_ERR_FLASH_PROGRAM \<and> mem s' = mem s \<and> prog s' = prog s"
    using write_atomic [OF inv w(1)] by blast
  have "?n \<noteq> 0" using nn g(4) by auto
  with w(1) have call: "\<exists>a d k. k \<noteq> 0 \<and> port_flash_write P s a (Some d) k = Some (status, s')" by blast
  have "off + n < 2 ^ 32" using g(5) unsigned_less [of "region_size r", where ?'a = nat] by simp
  then have mx: "max (highest_offset session) (?w + ?n) = of_nat (max (unat (highest_offset session)) (off + n))"
  proof -
    have sum: "unat (?w + ?n) = off + n" using \<open>off + n < 2 ^ 32\<close> by (simp add: unat_word_ariths woff nn)
    have "?w + ?n = of_nat (off + n)" using word_arith_nat_add [of ?w ?n] by (simp only: woff nn)
    then show ?thesis using sum by (auto simp: max_def word_le_nat_alt simp del: of_nat_add)
  qed
  have "put_u32_le ?w = take 4 (frame_payload request)"
    using wf(1) by (simp add: request_wf_def)
  moreover have "?w = 0 \<longleftrightarrow> off = 0" using woff by (metis unat_eq_0)
  ultimately have "handle_write P session cmd request s resp =
         (if status = BL_OK
          then Some (reply resp cmd BL_OK (take 4 (frame_payload request)),
            session\<lparr>header_written := header_written session \<or> off = 0,
                    highest_offset := of_nat (max (unat (highest_offset session)) (off + n))\<rparr>, s')
          else Some (reply resp cmd status [], session, s'))"
    using w(1) ok mx by (simp add: write_eq [OF wf] r_def)
  then show ?thesis by (rule that) (use w at g(5) call in auto)
qed

lemma session_inv_erased:
  assumes "\<forall>x. region_lo r \<le> x \<and> x < region_hi r \<longrightarrow> \<not> pr x" and "slot_is_valid slot"
    and "r = layout_slot L ! unat slot"
  shows "session_inv L pr (session\<lparr>target_slot := slot, erased := True, highest_offset := 0, header_written := h\<rparr>)"
  using assms by (simp add: session_inv_def)

lemma session_inv_write:
  fixes session :: bl_session
  assumes inv: "session_inv L pr session" and erased: "erased session"
    and r: "r = layout_slot L ! unat (target_slot session)"
    and frame: "\<forall>x. x < region_lo r + off \<or> region_lo r + off + n \<le> x \<longrightarrow> pr' x = pr x"
    and size: "off + n \<le> unat (region_size r)"
  shows "session_inv L pr' (session\<lparr>header_written := h,
           highest_offset := of_nat (max (unat (highest_offset session)) (off + n))\<rparr>)"
proof -
  have hi: "unat (highest_offset session) \<le> unat (region_size r)"
    and free: "\<And>x. unat (highest_offset session) \<le> x \<Longrightarrow> x < unat (region_size r) \<Longrightarrow> \<not> pr (region_lo r + x)"
    and slot: "slot_is_valid (target_slot session)"
    using inv erased r by (auto simp: session_inv_def Let_def)
  have "max (unat (highest_offset session)) (off + n) < 2 ^ 32"
    using hi size unsigned_less [of "region_size r", where ?'a = nat] by simp
  then have "unat (of_nat (max (unat (highest_offset session)) (off + n)) :: u32) =
      max (unat (highest_offset session)) (off + n)" by (simp add: unat_of_nat del: of_nat_max)
  moreover have "\<not> pr' (region_lo r + x)"
    if "max (unat (highest_offset session)) (off + n) \<le> x" "x < unat (region_size r)" for x
    using free [of x] that frame by simp
  ultimately show ?thesis
    using slot hi size r by (simp add: session_inv_def Let_def del: of_nat_max)
qed

lemma session_inv_agree:
  assumes "slots_agree L pr' pr" and "session_inv L pr session"
  shows "session_inv L pr' session"
proof (cases "erased session")
  case True
  with assms have "slot_is_valid (target_slot session)" by (simp add: session_inv_def Let_def)
  then show ?thesis
    using assms slot_is_valid_unat [of "target_slot session"] by (auto simp: session_inv_def Let_def slots_agree_def)
qed (simp add: session_inv_def)

lemma mark_pending_frame:
  assumes inv: "pinv s" and ret: "bl_core_mark_pending P a s = Some (res, s')"
  shows "pinv s' \<and> (\<exists>i<2. same_outside (layout_meta (port_layout P) ! i) (mem s) (mem s') \<and>
           same_outside (layout_meta (port_layout P) ! i) (prog s) (prog s'))"
proof (cases "bl_core_mark_pending P a s = bl_meta_commit P a BL_BOOT_TRIAL 0 s")
  case True
  with ret commit_frame [OF inv] show ?thesis by (simp add: same_outside_def) metis
next
  case False
  with ret inv have "s' = s"
    by (auto simp: bl_core_mark_pending_def split: if_splits bind_splits sum.splits)
  with inv show ?thesis by (auto intro: exI [of _ 0])
qed

lemma mark_pending_returns:
  assumes inv: "pinv s"
  obtains res s' where "bl_core_mark_pending P a s = Some (res, s')"
proof (cases "slot_is_valid a")
  case True
  obtain res s' where "bl_meta_commit P a BL_BOOT_TRIAL 0 s = Some (res, s')"
    by (rule commit_returns [OF inv])
  with True show ?thesis
    using that by (cases "slot_image (port_layout P) (mem s) a")
      (auto simp: bl_core_mark_pending_def validate_slot_eq [OF inv])
qed (use that in \<open>simp add: bl_core_mark_pending_def\<close>)

lemma slots_agree_same_outside:
  assumes "same_outside (layout_meta (port_layout P) ! i) m m'" and "i < 2"
  shows "slots_agree (port_layout P) m' m"
  using assms slot_meta_disjoint [OF _ assms(2)]
  by (fastforce simp: slots_agree_def same_outside_def regions_disjoint_def)

lemma hello_returns:
  assumes inv: "pinv s" and wf: "resp_wf resp"
  shows "\<exists>status data. handle_hello P cmd len s resp = Some (reply resp cmd status data) \<and> length data \<le> 20"
proof -
  let ?b = "region_base (layout_slot (port_layout P) ! 0)"
  note rr = slot_in_flash [of 0]
  have "unat ?b < hi" "lo \<le> unat ?b" using rr by simp_all
  with erase_granularity_defined [of ?b] obtain g where "port_erase_granularity P ?b = Some g" by blast
  then show ?thesis
    by (auto simp: handle_hello_def bl_meta_read_eq [OF inv] respond_simps [OF wf] Let_def reply_ex split: sum.split)
qed

lemma verify_returns:
  assumes inv: "pinv s" and wf: "resp_wf resp"
  shows "\<exists>status data. handle_verify P cmd request s resp = Some (reply resp cmd status data) \<and> length data \<le> 20"
  by (auto simp: handle_verify_def validate_slot_eq [OF inv] respond_simps [OF wf] Let_def reply_ex split: sum.split)

text \<open>
  One request: the handler returns, answers, keeps the invariant and stays inside the
  regions the command is about. The header write is the one case the guards do not
  cover.
\<close>

abbreviation served_ok :: "bl_session \<Rightarrow> bl_frame \<Rightarrow> 'a \<Rightarrow> bl_response \<Rightarrow> bool" where
  "served_ok session request s resp \<equiv>
     (\<exists>status data session' s'.
        bl_core_handle_frame P no_null session request s resp =
          Some (reply resp (frame_cmd request) status data, session', s') \<and>
        length data \<le> 20 \<and> pinv s' \<and> session_inv (port_layout P) (prog s') session' \<and>
        confined (port_layout P) (frame_cmd request) session' (mem s) (mem s') \<and>
        confined (port_layout P) (frame_cmd request) session' (prog s) (prog s') \<and>
        (frame_cmd request \<notin> {BL_CMD_ERASE_SLOT, BL_CMD_WRITE, BL_CMD_SET_ACTIVE} \<longrightarrow> s' = s))"

lemma served_okI:
  assumes "bl_core_handle_frame P no_null session request s resp =
      Some (reply resp (frame_cmd request) status data, session', s')"
    and "length data \<le> 20" and "pinv s'" and "session_inv (port_layout P) (prog s') session'"
    and "confined (port_layout P) (frame_cmd request) session' (mem s) (mem s')"
    and "confined (port_layout P) (frame_cmd request) session' (prog s) (prog s')"
    and "frame_cmd request \<in> {BL_CMD_ERASE_SLOT, BL_CMD_WRITE, BL_CMD_SET_ACTIVE} \<or> s' = s"
  shows "served_ok session request s resp"
  using assms by blast

lemma served_quiet:
  assumes "bl_core_handle_frame P no_null session request s resp =
      Some (reply resp (frame_cmd request) status data, session', s)"
    and "length data \<le> 20" and "session' = session \<or> session' = session\<lparr>reset_requested := True\<rparr>"
    and "pinv s" and "session_inv (port_layout P) (prog s) session"
  shows "served_ok session request s resp"
  using assms(2-)
  by (intro served_okI [OF assms(1)]) (auto simp: session_inv_def Let_def confined_def intro: exI [of _ "0 :: nat"])

lemma served_erase:
  assumes inv: "pinv s" and sinv: "session_inv (port_layout P) (prog s) session"
    and wf: "resp_wf resp" and cmd: "frame_cmd request = BL_CMD_ERASE_SLOT"
  shows "served_ok session request s resp"
proof -
  have d: "bl_core_handle_frame P no_null session request s resp =
      handle_erase_slot P session (frame_cmd request) request s resp"
    by (simp add: bl_core_handle_frame_def no_null_def cmd)
  show ?thesis
  proof (cases "erase_check P request = BL_OK")
    case True
    then have slot: "slot_is_valid (frame_payload request ! 0)"
      by (auto simp: erase_check_def Let_def split: if_splits)
    show ?thesis
      by (rule erase_step [OF inv wf True, of session "frame_cmd request"], unfold d, intro exI conjI)
        (use slot cmd session_inv_erased in \<open>auto simp: confined_def\<close>)
  next
    case False
    then show ?thesis
      by (intro served_quiet [OF _ _ _ inv sinv]) (auto simp: d erase_refused [OF wf False])
  qed
qed

lemma served_write:
  assumes inv: "pinv s" and sinv: "session_inv (port_layout P) (prog s) session"
    and wf: "request_wf request" "resp_wf resp" and cmd: "frame_cmd request = BL_CMD_WRITE"
    and hdr: "req_offset request = 0 \<Longrightarrow> header_clear (port_layout P) (prog s) (length (req_data request)) session"
  shows "served_ok session request s resp"
proof -
  let ?r = "layout_slot (port_layout P) ! unat (target_slot session)"
  have d: "bl_core_handle_frame P no_null session request s resp =
      handle_write P session (frame_cmd request) request s resp"
    by (simp add: bl_core_handle_frame_def no_null_def cmd)
  show ?thesis
  proof (cases "write_check P session request = BL_OK")
    case False
    then show ?thesis
      by (intro served_quiet [OF _ _ _ inv sinv]) (auto simp: d write_eq [OF wf])
  next
    case True
    then have erased: "erased session" by (auto simp: write_check_def Let_def split: if_splits)
    show ?thesis
    proof (rule write_step [OF inv sinv wf True hdr, of "frame_cmd request"])
      fix status s'
      let ?off = "req_offset request" and ?n = "length (req_data request)"
      assume h: "handle_write P session (frame_cmd request) request s resp =
         (if status = BL_OK
          then Some (reply resp (frame_cmd request) BL_OK (take 4 (frame_payload request)),
            session\<lparr>header_written := header_written session \<or> ?off = 0,
                    highest_offset := of_nat (max (unat (highest_offset session)) (?off + ?n))\<rparr>, s')
          else Some (reply resp (frame_cmd request) status [], session, s'))"
        and s': "pinv s'"
        and frame: "\<forall>x. x < region_lo ?r + ?off \<or> region_lo ?r + ?off + ?n \<le> x \<longrightarrow>
          mem s' x = mem s x \<and> prog s' x = prog s x"
        and bad: "status \<noteq> BL_OK \<longrightarrow> status = BL_ERR_FLASH_PROGRAM \<and> mem s' = mem s \<and> prog s' = prog s"
        and size: "?off + ?n \<le> unat (region_size ?r)"
      have c: "same_outside ?r (mem s) (mem s')" "same_outside ?r (prog s) (prog s')"
        using frame size by (auto simp: same_outside_def)
      show ?thesis
      proof (cases "status = BL_OK")
        case True
        have "session_inv (port_layout P) (prog s') (session\<lparr>header_written := header_written session \<or> ?off = 0,
            highest_offset := of_nat (max (unat (highest_offset session)) (?off + ?n))\<rparr>)"
          using frame size by (intro session_inv_write [OF sinv erased refl]) auto
        with True s' c cmd wf(1) show ?thesis
          by (intro served_okI [OF d [unfolded h if_P [OF True]]]) (auto simp: confined_def request_wf_def)
      next
        case False
        with s' c cmd sinv bad show ?thesis
          by (intro served_okI [OF d [unfolded h if_not_P [OF False]]]) (auto simp: confined_def)
      qed
    qed
  qed
qed

lemma served_set_active:
  assumes inv: "pinv s" and sinv: "session_inv (port_layout P) (prog s) session"
    and wf: "resp_wf resp" and cmd: "frame_cmd request = BL_CMD_SET_ACTIVE"
  shows "served_ok session request s resp"
proof (cases "frame_len request = 1")
  case False
  then show ?thesis
    by (intro served_quiet [OF _ _ _ inv sinv, of _ _ BL_ERR_INVALID_PACKET "[]" session])
      (simp_all add: bl_core_handle_frame_def no_null_def cmd handle_set_active_def respond_status [OF wf])
next
  case True
  obtain res s' where m: "bl_core_mark_pending P (frame_payload request ! 0) s = Some (res, s')"
    by (rule mark_pending_returns [OF inv])
  from mark_pending_frame [OF inv m] obtain i where i: "pinv s'" "i < 2"
    "same_outside (layout_meta (port_layout P) ! i) (mem s) (mem s')"
    "same_outside (layout_meta (port_layout P) ! i) (prog s) (prog s')" by blast
  have "session_inv (port_layout P) (prog s') session"
    by (rule session_inv_agree [OF slots_agree_same_outside [OF i(4,2)] sinv])
  moreover have "bl_core_handle_frame P no_null session request s resp =
      Some (reply resp (frame_cmd request) res [], session, s')"
    using True m by (simp add: bl_core_handle_frame_def no_null_def cmd handle_set_active_def respond_status [OF wf])
  ultimately show ?thesis using i cmd by (intro exI conjI) (auto simp: confined_def)
qed

lemma handle_frame_step:
  assumes inv: "pinv s" and sinv: "session_inv (port_layout P) (prog s) session"
    and wf: "request_wf request" "resp_wf resp"
    and hdr: "frame_cmd request = BL_CMD_WRITE \<longrightarrow> req_offset request = 0 \<longrightarrow>
      header_clear (port_layout P) (prog s) (length (req_data request)) session"
  shows "served_ok session request s resp"
proof -
  let ?cmd = "frame_cmd request"
  consider "?cmd = BL_CMD_ERASE_SLOT" | "?cmd = BL_CMD_WRITE" | "?cmd = BL_CMD_SET_ACTIVE"
    | "?cmd \<notin> {BL_CMD_ERASE_SLOT, BL_CMD_WRITE, BL_CMD_SET_ACTIVE}" by blast
  then show ?thesis
  proof cases
    case 4
    obtain st1 d1 where h: "handle_hello P ?cmd (frame_len request) s resp = Some (reply resp ?cmd st1 d1)" "length d1 \<le> 20"
      using hello_returns [OF inv wf(2)] by blast
    obtain st2 d2 where v: "handle_verify P ?cmd request s resp = Some (reply resp ?cmd st2 d2)" "length d2 \<le> 20"
      using verify_returns [OF inv wf(2)] by blast
    have "bl_core_handle_frame P no_null session request s resp \<noteq> None"
      using 4 h(1) v(1) dispatch [of request P session s resp] dispatch_unknown [of request P session s resp]
      by (cases "?cmd = BL_CMD_HELLO \<or> ?cmd = BL_CMD_VERIFY \<or> ?cmd = BL_CMD_RESET") (auto simp: Let_def case_prod_beta)
    then obtain out session' s' where ret: "bl_core_handle_frame P no_null session request s resp = Some (out, session', s')"
      by auto
    show ?thesis
      using quiet_commands [OF 4 ret] handle_frame_replies [OF wf(2) ret] ret served_quiet [OF _ _ _ inv sinv] by blast
  next
    case 1
    then show ?thesis by (rule served_erase [OF inv sinv wf(2)])
  next
    case 2
    then show ?thesis by (rule served_write [OF inv sinv wf]) (use hdr 2 in simp)
  next
    case 3
    then show ?thesis by (rule served_set_active [OF inv sinv wf(2)])
  qed
qed

end

section \<open>Whole sessions\<close>

text \<open>
  A host that keeps the header apart: payload writes start at \<open>H\<close> or above, the header
  write ends at \<open>H\<close> or below. The update tool does so with the header region's 512
  bytes.
\<close>

definition disciplined :: "nat \<Rightarrow> bl_frame \<Rightarrow> bool" where
  "disciplined H request \<longleftrightarrow>
     (frame_cmd request = BL_CMD_WRITE \<longrightarrow>
      (if req_offset request = 0 then length (req_data request) \<le> H else H \<le> req_offset request))"

text \<open>The states a device reaches from \<open>s0\<close> by serving requests; a power cycle starts a new
  session.\<close>

inductive served :: "'s bl_port \<Rightarrow> nat \<Rightarrow> 's \<Rightarrow> bl_session \<Rightarrow> 's \<Rightarrow> bool" for P H s0 where
  served_start: "served P H s0 session_zero s0"
| served_restart: "served P H s0 session s \<Longrightarrow> served P H s0 session_zero s"
| served_request:
    "served P H s0 session s \<Longrightarrow> request_wf request \<Longrightarrow> disciplined H request \<Longrightarrow> resp_wf resp \<Longrightarrow>
     bl_core_handle_frame P no_null session request s resp = Some (out, session', s') \<Longrightarrow>
     served P H s0 session' s'"

lemma header_clear_zero [simp]: "header_clear L pr H session_zero"
  by (simp add: header_clear_def session_zero_def)

lemma header_clear_mono: "header_clear L pr H session \<Longrightarrow> n \<le> H \<Longrightarrow> header_clear L pr n session"
  by (auto simp: header_clear_def)

context atomic_flash_port
begin

abbreviation session_ready :: "nat \<Rightarrow> bl_session \<Rightarrow> 'a \<Rightarrow> bool" where
  "session_ready H session s \<equiv>
     pinv s \<and> session_inv (port_layout P) (prog s) session \<and> header_clear (port_layout P) (prog s) H session"

lemma header_clear_erase:
  assumes inv: "pinv s" and wf: "resp_wf resp" and cl: "header_clear (port_layout P) (prog s) H session"
    and H: "\<forall>i<2. H \<le> unat (region_size (layout_slot (port_layout P) ! i))"
    and ret: "handle_erase_slot P session cmd request s resp = Some (out, session', s')"
  shows "header_clear (port_layout P) (prog s') H session'"
proof (cases "erase_check P request = BL_OK")
  case True
  then have "unat (frame_payload request ! 0) < 2"
    by (intro slot_is_valid_unat) (auto simp: erase_check_def Let_def split: if_splits)
  with H have "H \<le> unat (region_size (layout_slot (port_layout P) ! unat (frame_payload request ! 0)))" by blast
  note le = this
  show ?thesis
    by (rule erase_step [OF inv wf True, of session cmd]) (use ret le in \<open>auto simp: header_clear_def\<close>)
next
  case False
  with ret cl erase_refused [OF wf False] show ?thesis by simp
qed

lemma header_clear_write:
  assumes rdy: "session_ready H session s" and wf: "request_wf request" "resp_wf resp"
    and dis: "if req_offset request = 0 then length (req_data request) \<le> H else H \<le> req_offset request"
    and ret: "handle_write P session cmd request s resp = Some (out, session', s')"
  shows "header_clear (port_layout P) (prog s') H session'"
proof (cases "write_check P session request = BL_OK")
  case False
  with ret rdy show ?thesis by (simp add: write_eq [OF wf])
next
  case True
  let ?r = "layout_slot (port_layout P) ! unat (target_slot session)"
  let ?off = "req_offset request" and ?n = "length (req_data request)"
  have hdr: "header_clear (port_layout P) (prog s) ?n session" if "?off = 0"
    using that dis rdy header_clear_mono by auto
  show ?thesis
  proof (rule write_step [OF rdy [THEN conjunct1] rdy [THEN conjunct2, THEN conjunct1] wf True hdr, of cmd])
    fix status s2
    assume h: "handle_write P session cmd request s resp =
         (if status = BL_OK
          then Some (reply resp cmd BL_OK (take 4 (frame_payload request)),
            session\<lparr>header_written := header_written session \<or> ?off = 0,
                    highest_offset := of_nat (max (unat (highest_offset session)) (?off + ?n))\<rparr>, s2)
          else Some (reply resp cmd status [], session, s2))"
      and frame: "\<forall>x. x < region_lo ?r + ?off \<or> region_lo ?r + ?off + ?n \<le> x \<longrightarrow>
          mem s2 x = mem s x \<and> prog s2 x = prog s x"
      and bad: "status \<noteq> BL_OK \<longrightarrow> status = BL_ERR_FLASH_PROGRAM \<and> mem s2 = mem s \<and> prog s2 = prog s"
    have "header_clear (port_layout P) (prog s2) H session'"
      if "session' = session\<lparr>header_written := header_written session \<or> ?off = 0,
                    highest_offset := of_nat (max (unat (highest_offset session)) (?off + ?n))\<rparr>"
      using that rdy dis frame by (cases "?off = 0") (auto simp: header_clear_def)
    with ret h bad rdy show ?thesis by (cases "status = BL_OK") auto
  qed
qed

lemma header_clear_agree:
  assumes "slots_agree (port_layout P) pr' pr" and "session_inv (port_layout P) pr session"
    and H: "\<forall>i<2. H \<le> unat (region_size (layout_slot (port_layout P) ! i))"
    and cl: "header_clear (port_layout P) pr H session"
  shows "header_clear (port_layout P) pr' H session"
proof (cases "erased session")
  case True
  with assms(2) have i: "unat (target_slot session) < 2"
    by (intro slot_is_valid_unat) (simp add: session_inv_def Let_def)
  with H have "H \<le> unat (region_size (layout_slot (port_layout P) ! unat (target_slot session)))" by blast
  with i assms(1) cl show ?thesis by (auto simp: header_clear_def slots_agree_def)
qed (simp add: header_clear_def)

lemma header_clear_step:
  assumes rdy: "session_ready H session s" and wf: "request_wf request" "resp_wf resp"
    and dis: "disciplined H request"
    and H: "\<forall>i<2. H \<le> unat (region_size (layout_slot (port_layout P) ! i))"
    and ret: "bl_core_handle_frame P no_null session request s resp = Some (out, session', s')"
  shows "header_clear (port_layout P) (prog s') H session'"
proof -
  let ?cmd = "frame_cmd request"
  consider "?cmd = BL_CMD_ERASE_SLOT" | "?cmd = BL_CMD_WRITE" | "?cmd = BL_CMD_SET_ACTIVE"
    | "?cmd \<notin> {BL_CMD_ERASE_SLOT, BL_CMD_WRITE, BL_CMD_SET_ACTIVE}" by blast
  then show ?thesis
  proof cases
    case 1
    then show ?thesis
      using rdy ret header_clear_erase [OF _ wf(2) _ H] by (simp only: dispatch) blast
  next
    case 2
    then show ?thesis
      using dis ret header_clear_write [OF rdy wf] by (simp only: dispatch disciplined_def) blast
  next
    case 3
    then have "session' = session \<and> (s' = s \<or> (\<exists>r. bl_core_mark_pending P (frame_payload request ! 0) s = Some (r, s')))"
      using ret dispatch(5) [of request P session s resp]
      by (auto simp: handle_set_active_def split: if_splits bind_splits)
    moreover have "slots_agree (port_layout P) (prog s') (prog s)"
      if "bl_core_mark_pending P (frame_payload request ! 0) s = Some (r, s')" for r
      using mark_pending_frame [OF rdy [THEN conjunct1] that] slots_agree_same_outside by blast
    ultimately show ?thesis
      using rdy header_clear_agree [of "prog s'" "prog s" session H] H by auto
  next
    case 4
    then have "s' = s \<and> (session' = session \<or> session' = session\<lparr>reset_requested := True\<rparr>)"
      by (rule quiet_commands [OF _ ret])
    then show ?thesis using rdy by (auto simp: header_clear_def)
  qed
qed

lemma disciplined_header: "disciplined H request \<Longrightarrow> session_ready H session s \<Longrightarrow>
  frame_cmd request = BL_CMD_WRITE \<longrightarrow> req_offset request = 0 \<longrightarrow>
  header_clear (port_layout P) (prog s) (length (req_data request)) session"
  by (auto simp: disciplined_def intro: header_clear_mono)

lemma served_ready:
  assumes "served P H s0 session s" and "pinv s0"
    and H: "\<forall>i<2. H \<le> unat (region_size (layout_slot (port_layout P) ! i))"
  shows "session_ready H session s"
  using assms(1)
proof (induction rule: served.induct)
  case (served_request session s request resp out session' s')
  note step = handle_frame_step [OF served_request.IH [THEN conjunct1] served_request.IH [THEN conjunct2, THEN conjunct1]
      served_request.hyps(2,4) disciplined_header [OF served_request.hyps(3) served_request.IH]]
  with served_request.hyps(5) header_clear_step [OF served_request.IH served_request.hyps(2,4,3) H]
  show ?case by auto
qed (simp_all add: assms(2))

lemma served_never_aborts:
  assumes "served P H s0 session s" and "pinv s0"
    and H: "\<forall>i<2. H \<le> unat (region_size (layout_slot (port_layout P) ! i))"
    and wf: "request_wf request" "resp_wf resp" and "disciplined H request"
  shows "served_ok session request s resp"
proof -
  note rdy = served_ready [OF assms(1-3)]
  show ?thesis
    by (rule handle_frame_step [OF rdy [THEN conjunct1] rdy [THEN conjunct2, THEN conjunct1] wf
        disciplined_header [OF assms(6) rdy]])
qed

end

end
