(* ===== verification/Bl_Sim.thy ===== *)
theory Bl_Sim
  imports Bl_Session
begin

text \<open>
  The simulated device behind the shared-library interface, \<open>sim/bl_sim.c\<close>: the
  bootloader core on the host port, with the parser and the session it owns. This is
  where the components meet, so the lemmas here are about whole devices: a request fed
  byte by byte is served as the handler serves it, and power cycles follow the boot
  policy.
\<close>

section \<open>State\<close>

record sim =
  sim_host :: host
  g_parser :: bl_frame_parser
  g_session :: bl_session

definition sim_zero :: sim where
  "sim_zero =
     \<lparr>sim_host = host_zero,
      g_parser = parser_zero,
      g_session = session_zero\<rparr>"

section \<open>The interface\<close>

definition sim_init :: "sim \<Rightarrow> sim" where
  "sim_init d =
     d\<lparr>sim_host := snd (bl_port_init (sim_host d)),
       g_parser := bl_frame_parser_init (g_parser d),
       g_session := session_zero\<rparr>"

definition sim_reboot :: "sim \<Rightarrow> sim" where
  "sim_reboot d =
     d\<lparr>sim_host := bl_host_reboot (sim_host d),
       g_parser := bl_frame_parser_init (g_parser d),
       g_session := session_zero\<rparr>"

text \<open>The \<open>for\<close> loop over the bytes; the second component is the response buffer.\<close>

fun sim_feed_loop :: "sim \<Rightarrow> u8 list \<Rightarrow> u8 list \<Rightarrow> u32 \<Rightarrow> (u32 \<times> u8 list \<times> sim) option" where
  "sim_feed_loop d [] response response_capacity = Some (0, response, d)"
| "sim_feed_loop d (b # bs) response response_capacity =
     (let (status, p) = bl_frame_feed (g_parser d) b; d = d\<lparr>g_parser := p\<rparr> in
      if status \<noteq> BL_FRAME_COMPLETE then sim_feed_loop d bs response response_capacity
      else do {
        ((result, resp), session, h) \<leftarrow>
          bl_core_handle_frame host_port no_null (g_session d) (parser_frame (g_parser d)) (sim_host d)
            \<lparr>resp_buf = response, resp_size = unat response_capacity, resp_len = 0\<rparr>;
        let d = d\<lparr>g_session := session, sim_host := h\<rparr>;
        if result \<noteq> BL_OK then Some (0, resp_buf resp, d)
        else Some (of_nat (resp_len resp), resp_buf resp, d)
      })"

definition sim_feed ::
    "sim \<Rightarrow> u8 list option \<Rightarrow> u32 \<Rightarrow> u8 list option \<Rightarrow> u32 \<Rightarrow> (u32 \<times> u8 list \<times> sim) option" where
  "sim_feed d data len response response_capacity =
     (if data = None \<or> response = None then Some (0, case response of None \<Rightarrow> [] | Some r \<Rightarrow> r, d)
      else sim_feed_loop d (take (unat len) (the data)) (the response) response_capacity)"

definition sim_boot :: "sim \<Rightarrow> (u32 \<times> sim) option" where
  "sim_boot d = do {
     (_, h) \<leftarrow> bl_core_boot host_port (sim_host d);
     let d = d\<lparr>sim_host := h\<rparr>;
     if \<not> bl_host_did_jump (sim_host d) then Some (0, d)
     else Some (bl_host_jump_target (sim_host d), d)
   }"

definition sim_confirm :: "sim \<Rightarrow> (u32 \<times> sim) option" where
  "sim_confirm d = do {
     (result, h) \<leftarrow> bl_core_confirm host_port (sim_host d);
     Some (ucast (result_code result), d\<lparr>sim_host := h\<rparr>)
   }"

definition sim_reset_requested :: "sim \<Rightarrow> u32" where
  "sim_reset_requested d = (if reset_requested (g_session d) then 1 else 0)"

text \<open>The values stored through the three pointers; \<open>None\<close> where nothing is stored.\<close>

definition sim_meta ::
    "sim \<Rightarrow> bool \<Rightarrow> bool \<Rightarrow> bool \<Rightarrow> (u32 \<times> u32 option \<times> u32 option \<times> u32 option) option" where
  "sim_meta d active_slot_null state_null boot_attempts_null = do {
     read \<leftarrow> bl_meta_read host_port False (sim_host d);
     case read of
       Inl result \<Rightarrow> Some (ucast (result_code result), None, None, None)
     | Inr meta \<Rightarrow>
         Some (ucast (result_code BL_OK),
           if active_slot_null then None else Some (ucast (meta_active_slot meta)),
           if state_null then None else Some (ucast (meta_state meta)),
           if boot_attempts_null then None else Some (ucast (meta_boot_attempts meta)))
   }"

definition sim_slot_base :: "u32 \<Rightarrow> u32" where
  "sim_slot_base slot =
     (if slot \<ge> ucast BL_SLOT_COUNT then 0 else region_base (layout_slot bl_port_layout ! unat slot))"

definition sim_slot_size :: "u32 \<Rightarrow> u32" where
  "sim_slot_size slot =
     (if slot \<ge> ucast BL_SLOT_COUNT then 0 else region_size (layout_slot bl_port_layout ! unat slot))"

function sim_corrupt_loop :: "host \<Rightarrow> u32 \<Rightarrow> u32 \<Rightarrow> host option" where
  "sim_corrupt_loop h addr len =
     (if len > 0
      then let chunk = (if len > 256 then 256 else len) in do {
        (result, buffer) \<leftarrow> bl_flash_read h addr False chunk;
        if result \<noteq> BL_OK then Some h
        else do {
          h \<leftarrow> bl_host_flash_poke h addr (Some (map (\<lambda>b. b XOR 0xFF) buffer)) (unat chunk);
          sim_corrupt_loop h (addr + chunk) (len - chunk)
        }
      }
      else Some h)"
  by pat_completeness auto

termination
  by (relation "measure (\<lambda>(h, addr, len). unat len)")
    (auto simp: unat_sub_less unat_gt_0 word_neq_0_conv)

declare sim_corrupt_loop.simps [simp del]

definition sim_corrupt :: "sim \<Rightarrow> u32 \<Rightarrow> u32 \<Rightarrow> sim option" where
  "sim_corrupt d addr len = do {
     h \<leftarrow> sim_corrupt_loop (sim_host d) addr len;
     Some (d\<lparr>sim_host := h\<rparr>)
   }"

definition sim_fail_after_n_writes :: "sim \<Rightarrow> u32 \<Rightarrow> sim" where
  "sim_fail_after_n_writes d n = d\<lparr>sim_host := bl_host_fail_after_n_writes (sim_host d) n\<rparr>"

definition sim_clear_failures :: "sim \<Rightarrow> sim" where
  "sim_clear_failures d = d\<lparr>sim_host := bl_host_clear_failures (sim_host d)\<rparr>"

section \<open>Serving a request byte by byte\<close>

definition sim_inv :: "sim \<Rightarrow> bool" where
  "sim_inv d \<longleftrightarrow> host_inv (sim_host d) \<and> parser_inv (g_parser d)"

definition serve_frame :: "sim \<Rightarrow> u8 list \<Rightarrow> u32 \<Rightarrow> (u32 \<times> u8 list \<times> sim) option" where
  "serve_frame d response response_capacity = do {
     ((result, resp), session, h) \<leftarrow>
       bl_core_handle_frame host_port no_null (g_session d) (parser_frame (g_parser d)) (sim_host d)
         \<lparr>resp_buf = response, resp_size = unat response_capacity, resp_len = 0\<rparr>;
     Some (if result \<noteq> BL_OK then 0 else of_nat (resp_len resp), resp_buf resp,
       d\<lparr>g_session := session, sim_host := h\<rparr>)
   }"

lemma sim_feed_loop_complete:
  assumes "feed_all (g_parser d) bs = (replicate (length bs - 1) BL_FRAME_INCOMPLETE @ [BL_FRAME_COMPLETE], p')"
    and "bs \<noteq> []"
  shows "sim_feed_loop d (bs @ rest) response cap = serve_frame (d\<lparr>g_parser := p'\<rparr>) response cap"
  using assms
proof (induction bs arbitrary: d)
  case (Cons b bs)
  obtain st p1 where f: "bl_frame_feed (g_parser d) b = (st, p1)" by (cases "bl_frame_feed (g_parser d) b")
  show ?case
  proof (cases "bs = []")
    case True
    with Cons.prems f show ?thesis
      by (auto simp: serve_frame_def Let_def intro!: bind_option_cong)
  next
    case False
    obtain sts p2 where f2: "feed_all p1 bs = (sts, p2)" by (cases "feed_all p1 bs")
    from False Cons.prems f f2 have "st = BL_FRAME_INCOMPLETE"
      "sts = replicate (length bs - 1) BL_FRAME_INCOMPLETE @ [BL_FRAME_COMPLETE]" "p2 = p'"
      by (cases bs; auto)+
    with Cons.IH [of "d\<lparr>g_parser := p1\<rparr>"] f f2 False show ?thesis by simp
  qed
qed simp

text \<open>The request the handler sees: the command and the payload of the frame.\<close>

definition is_request :: "u8 \<Rightarrow> u8 list \<Rightarrow> bl_frame \<Rightarrow> bool" where
  "is_request cmd pl request \<longleftrightarrow>
     frame_cmd request = cmd \<and> frame_len request = of_nat (length pl) \<and>
     length (frame_payload request) = 512 \<and> take (length pl) (frame_payload request) = pl"

lemma is_request_wf: "is_request cmd pl request \<Longrightarrow> length pl \<le> 512 \<Longrightarrow> request_wf request"
  by (simp add: is_request_def request_wf_def)

lemma sim_feed_frame:
  assumes inv: "parser_inv (g_parser d)" and idle: "parser_state (g_parser d) = BL_FRAME_WAIT_SOF"
    and pl: "length pl \<le> 512"
  obtains p' where "parser_inv p'" and "parser_state p' = BL_FRAME_WAIT_SOF" and "is_request cmd pl (parser_frame p')"
    and "\<forall>rest response cap. sim_feed_loop d (frame_bytes cmd pl @ rest) response cap =
           serve_frame (d\<lparr>g_parser := p'\<rparr>) response cap"
proof -
  have ne: "frame_bytes cmd pl \<noteq> []" by (simp add: frame_bytes_def)
  have "frame_consumed (g_parser d) @ frame_bytes cmd pl = frame_bytes cmd pl"
    using idle by (simp add: frame_consumed_def Let_def)
  from feed_all_towards_frame [OF inv pl ne this] obtain p' where
    p': "feed_all (g_parser d) (frame_bytes cmd pl) =
        (replicate (length (frame_bytes cmd pl) - 1) BL_FRAME_INCOMPLETE @ [BL_FRAME_COMPLETE], p')"
      "parser_inv p'" "parser_state p' = BL_FRAME_WAIT_SOF" "frame_cmd (parser_frame p') = cmd"
      "frame_len (parser_frame p') = of_nat (length pl)" "take (length pl) (frame_payload (parser_frame p')) = pl"
    by blast
  have "length (frame_payload (parser_frame p')) = 512" using p'(2) by (simp add: parser_inv_def)
  with p' sim_feed_loop_complete [OF p'(1) ne] that show ?thesis by (simp add: is_request_def)
qed

section \<open>Power cycles follow the boot policy\<close>

text \<open>Reboot and boot, \<open>n\<close> times; the addresses control went to, oldest first.\<close>

fun power_cycles :: "nat \<Rightarrow> sim \<Rightarrow> (u32 list \<times> sim) option" where
  "power_cycles 0 d = Some ([], d)"
| "power_cycles (Suc n) d = do {
     (target, d) \<leftarrow> sim_boot (sim_reboot d);
     (targets, d) \<leftarrow> power_cycles n d;
     Some (target # targets, d)
   }"

abbreviation dev_mem :: "sim \<Rightarrow> nat \<Rightarrow> u8" where
  "dev_mem d \<equiv> host_mem (sim_host d)"

abbreviation dev_status :: "sim \<Rightarrow> boot_status" where
  "dev_status d \<equiv> boot_status_of g_layout (dev_mem d)"

lemma reboot_unchanged [simp]:
  "host_mem (bl_host_reboot h) = host_mem h" "host_prog (bl_host_reboot h) = host_prog h"
  "host_inv (bl_host_reboot h)"
  by (simp_all add: bl_host_reboot_def host_mem_def host_prog_def host_inv_def fun_eq_iff)

lemma host_meta_erasable [simp]: "meta_erasable host_port"
  by (simp add: meta_erasable_def host_erase_legal g_layout_def)

text \<open>The entry point of a valid image and its vector table lie in the image's slot.\<close>

lemma slot_image_entry:
  assumes "slot_image g_layout m a = Inr hdr" and "slot_is_valid a"
  shows "unat (entry_offset hdr) mod 512 = 0" and "unat (entry_offset hdr) + 512 \<le> 0x1B000"
    and "unat (boot_entry g_layout m a) = region_lo (layout_slot g_layout ! unat a) + unat (entry_offset hdr)"
proof -
  have r: "region_size (layout_slot g_layout ! unat a) = 0x1B000" "region_lo (layout_slot g_layout ! unat a) < 0x08030000"
    using assms(2) by (auto simp: slot_is_valid_iff g_layout_def)
  have "0 < unat (img_size hdr)"
    "unat (entry_offset hdr) + unat (img_size hdr) \<le> unat (region_size (layout_slot g_layout ! unat a))"
    using assms(1) unfolding slot_image_Inr_iff Let_def by blast+
  then have lt: "unat (entry_offset hdr) < 0x1B000" using r(1) by simp
  show al: "unat (entry_offset hdr) mod 512 = 0"
    using assms(1) unfolding slot_image_Inr_iff Let_def by blast
  from al obtain k where k: "unat (entry_offset hdr) = 512 * k" by (auto simp: mod_eq_0_iff_dvd elim: dvdE)
  with lt have "k < 216" by simp
  with k show "unat (entry_offset hdr) + 512 \<le> 0x1B000" by simp
  show "unat (boot_entry g_layout m a) = region_lo (layout_slot g_layout ! unat a) + unat (entry_offset hdr)"
    using assms(1) lt r by (simp add: boot_entry_def unat_word_ariths)
qed

lemma jump_ok_agree:
  assumes agree: "slots_agree g_layout m' m" and "slot_is_valid a" and "is_ok (slot_image g_layout m a)"
  shows "jump_ok m' (boot_entry g_layout m a) = jump_ok m (boot_entry g_layout m a)"
proof -
  let ?e = "boot_entry g_layout m a" and ?r = "layout_slot g_layout ! unat a"
  obtain hdr where hdr: "slot_image g_layout m a = Inr hdr" using assms(3) by (auto simp: is_ok_iff)
  note e = slot_image_entry [OF hdr assms(2)]
  have "m' x = m x" if "unat ?e \<le> x" "x < unat ?e + 8" for x
    using agree that e slot_is_valid_unat [OF assms(2)] assms(2)
    by (auto simp: slots_agree_def slot_is_valid_iff g_layout_def)
  then have "bytes_at m' (unat ?e) 4 = bytes_at m (unat ?e) 4" "bytes_at m' (unat ?e + 4) 4 = bytes_at m (unat ?e + 4) 4"
    by (auto intro!: bytes_at_cong)
  then show ?thesis by (simp only: jump_ok_def)
qed

text \<open>Nothing before the jump touches the record of the last one.\<close>

lemma commit_jumped:
  "bl_meta_commit host_port a t n h = Some (r, h') \<Longrightarrow> g_jumped h' = g_jumped h"
  by (rule commit_keeps [where Q = "\<lambda>x. g_jumped x = g_jumped h"])
    (auto simp: bl_flash_erase_def bl_flash_write_def Let_def split: if_splits)

lemma advance_jumped: "advance_trial_state host_port h = Some h' \<Longrightarrow> g_jumped h' = g_jumped h"
  unfolding advance_trial_state_def Let_def
  by (auto elim!: bind_SomeE split: if_splits sum.splits dest!: commit_jumped)

definition boot_target :: "(nat \<Rightarrow> u8) \<Rightarrow> boot_status \<Rightarrow> u32" where
  "boot_target m st =
     (case policy_slot (slot_image g_layout m) st of
        None \<Rightarrow> 0
      | Some a \<Rightarrow> if jump_ok m (boot_entry g_layout m a) then boot_entry g_layout m a else 0)"

text \<open>A boot follows the policy; only with the sequence counter at its end the status stays.\<close>

lemma boot_any:
  obtains d' where "sim_boot (sim_reboot d) = Some (boot_target (dev_mem d) (dev_status d'), d')"
    and "slots_agree g_layout (dev_mem d') (dev_mem d)"
    and "dev_status d' = policy_advance (\<lambda>a. is_ok (slot_image g_layout (dev_mem d) a)) (dev_status d) \<or>
      dev_status d' = dev_status d \<and> meta_seq_of g_layout (dev_mem d) = 2 ^ 32 - 1"
    and "meta_seq_of g_layout (dev_mem d') \<le> meta_seq_of g_layout (dev_mem d) + 1"
    and "g_parser d' = g_parser (sim_reboot d)" and "host_inv (sim_host d')"
proof (rule host.boot_refines [of "bl_host_reboot (sim_host d)", OF _ host_meta_erasable])
  let ?h = "bl_host_reboot (sim_host d)"
  show "host_inv ?h" by simp
  fix r s1 s'
  assume b: "bl_core_boot host_port ?h = Some (r, s')" "advance_trial_state host_port ?h = Some s1"
    and mem: "host_mem s' = host_mem s1" and inv: "host_inv s'"
    and agree: "slots_agree (port_layout host_port) (host_mem s') (host_mem ?h)"
    and st: "host.status s' = policy_advance (\<lambda>a. is_ok (host.image ?h a)) (host.status ?h) \<or>
        host.status s' = host.status ?h \<and> (\<not> host_ready ?h \<or> host.seq ?h = 2 ^ 32 - 1)"
    and seq: "host.seq s' \<le> host.seq ?h + 1"
    and sel: "case policy_slot (host.image ?h) (host.status s') of
        None \<Rightarrow> r = BL_ERR_NO_VALID_IMAGE \<and> s' = s1
      | Some a \<Rightarrow> r = BL_ERR_JUMP_REFUSED \<and>
          s' = port_jump_to_app host_port s1 (boot_entry (port_layout host_port) (host_mem ?h) a)"
  let ?d' = "(sim_reboot d)\<lparr>sim_host := s'\<rparr>"
  have nj: "\<not> g_jumped s1" using advance_jumped [OF b(2)] by (simp add: bl_host_reboot_def)
  have "host_ready ?h" by (simp add: bl_host_reboot_def host_ready_def flip: word_neq_0_conv)
  then have status: "dev_status ?d' = policy_advance (\<lambda>a. is_ok (slot_image g_layout (dev_mem d) a)) (dev_status d) \<or>
      dev_status ?d' = dev_status d \<and> meta_seq_of g_layout (dev_mem d) = 2 ^ 32 - 1"
    using st by auto
  have "sim_boot (sim_reboot d) = Some (boot_target (dev_mem d) (dev_status ?d'), ?d')"
  proof (cases "policy_slot (slot_image g_layout (dev_mem d)) (dev_status ?d')")
    case None
    with sel nj b(1) show ?thesis
      by (simp add: sim_boot_def sim_reboot_def boot_target_def bl_host_did_jump_def)
  next
    case (Some a)
    let ?e = "boot_entry g_layout (dev_mem d) a"
    have "jump_ok (host_mem s1) ?e = jump_ok (dev_mem d) ?e"
      using agree mem Some host.policy_slot_range [of "slot_image g_layout (dev_mem d)" s' a]
      by (intro jump_ok_agree) (auto dest: policy_slot_valid)
    with Some sel nj b(1) show ?thesis
      by (auto simp: sim_boot_def sim_reboot_def boot_target_def bl_host_did_jump_def bl_host_jump_target_def jump_eq)
  qed
  then show ?thesis using that status agree seq inv by simp
qed

lemma boot_cycle:
  assumes room: "meta_seq_of g_layout (dev_mem d) < 2 ^ 32 - 1"
  obtains d' where "sim_boot (sim_reboot d) = Some (boot_target (dev_mem d) (dev_status d'), d')"
    and "slots_agree g_layout (dev_mem d') (dev_mem d)"
    and "dev_status d' = policy_advance (\<lambda>a. is_ok (slot_image g_layout (dev_mem d) a)) (dev_status d)"
    and "meta_seq_of g_layout (dev_mem d') \<le> meta_seq_of g_layout (dev_mem d) + 1"
  by (rule boot_any [of d]) (use room that in auto)

text \<open>Without a reboot the record of an earlier jump survives a boot that jumps nowhere, and is reported as its target.\<close>

lemma commit_jump_target:
  "bl_meta_commit host_port a t n h = Some (r, h') \<Longrightarrow> g_jump_target h' = g_jump_target h"
  by (rule commit_keeps [where Q = "\<lambda>x. g_jump_target x = g_jump_target h"])
    (auto simp: bl_flash_erase_def bl_flash_write_def Let_def split: if_splits)

lemma sim_boot_stale:
  assumes "host_inv (sim_host d)" and "bl_host_did_jump (sim_host d)"
    and none: "\<And>a. slot_is_valid a \<Longrightarrow> \<not> is_ok (slot_image g_layout (dev_mem d) a)"
  shows "\<exists>d'. sim_boot d = Some (bl_host_jump_target (sim_host d), d')"
proof (rule host.boot_refines [OF assms(1) host_meta_erasable])
  fix r s1 s'
  assume b: "bl_core_boot host_port (sim_host d) = Some (r, s')" "advance_trial_state host_port (sim_host d) = Some s1"
    and sel: "case policy_slot (host.image (sim_host d)) (host.status s') of
        None \<Rightarrow> r = BL_ERR_NO_VALID_IMAGE \<and> s' = s1
      | Some a \<Rightarrow> r = BL_ERR_JUMP_REFUSED \<and>
          s' = port_jump_to_app host_port s1 (boot_entry (port_layout host_port) (host_mem (sim_host d)) a)"
  have "policy_slot (host.image (sim_host d)) (host.status s') = None"
    using none nominated_valid [of g_layout "host_mem s'"] other_slot_valid
    by (auto simp: policy_slot_def slot_is_valid_iff split: option.splits if_splits)
  with sel have s': "s' = s1" by simp
  have "g_jumped s1 = g_jumped (sim_host d)" "g_jump_target s1 = g_jump_target (sim_host d)"
    using advance_jumped [OF b(2)] b(2) unfolding advance_trial_state_def Let_def
    by (auto elim!: bind_SomeE split: if_splits sum.splits dest!: commit_jump_target)
  with b(1) assms(2) show ?thesis by (simp add: sim_boot_def s' bl_host_did_jump_def bl_host_jump_target_def)
qed

lemma policy_slot_cong:
  assumes "\<And>a. slot_is_valid a \<Longrightarrow> img a = img' a" and "\<And>a. nominated st = Some a \<Longrightarrow> slot_is_valid a"
  shows "policy_slot img st = policy_slot img' st"
proof -
  have "img 0 = img' 0" "img 1 = img' 1" using assms(1) by (simp_all add: slot_is_valid_iff)
  moreover have "a = 0 \<or> a = 1" if "nominated st = Some a" for a
    using assms(2) [OF that] by (simp add: slot_is_valid_iff)
  ultimately show ?thesis by (auto simp: policy_slot_def split: option.split)
qed

lemma boot_target_agree:
  assumes agree: "slots_agree g_layout m' m" and "\<And>a. nominated st = Some a \<Longrightarrow> slot_is_valid a"
  shows "boot_target m' st = boot_target m st"
proof -
  have img: "slot_image g_layout m' a = slot_image g_layout m a" if "slot_is_valid a" for a
    using host.slot_image_slots_agree [of m' m a] agree that by simp
  have "policy_slot (slot_image g_layout m') st = policy_slot (slot_image g_layout m) st"
    by (rule policy_slot_cong) (auto simp: img assms(2))
  moreover have "boot_entry g_layout m' a = boot_entry g_layout m a \<and>
      jump_ok m' (boot_entry g_layout m a) = jump_ok m (boot_entry g_layout m a)"
    if "policy_slot (slot_image g_layout m) st = Some a" for a
  proof -
    have "slot_is_valid a"
      using that assms(2) other_slot_valid by (auto simp: policy_slot_def slot_is_valid_iff split: option.splits if_splits)
    then show ?thesis
      using img jump_ok_agree [OF agree] policy_slot_valid [OF that] by (simp add: boot_entry_def)
  qed
  ultimately show ?thesis by (auto simp: boot_target_def split: option.split)
qed

text \<open>A run of boots on trial: the policy, step by step.\<close>

fun policy_run :: "(u8 \<Rightarrow> bool) \<Rightarrow> nat \<Rightarrow> boot_status \<Rightarrow> boot_status list" where
  "policy_run valid 0 st = []"
| "policy_run valid (Suc n) st = policy_advance valid st # policy_run valid n (policy_advance valid st)"

definition nominates_valid :: "boot_status \<Rightarrow> bool" where
  "nominates_valid st \<longleftrightarrow> (case nominated st of None \<Rightarrow> True | Some a \<Rightarrow> slot_is_valid a)"

lemma nominates_valid_status: "nominates_valid (boot_status_of L m)"
  by (auto simp: nominates_valid_def dest: nominated_valid split: option.split)

lemma nominates_valid_advance: "nominates_valid st \<Longrightarrow> nominates_valid (policy_advance v st)"
  by (cases st) (auto simp: nominates_valid_def other_slot_valid)

lemma policy_run_valid: "nominates_valid st \<Longrightarrow> x \<in> set (policy_run v n st) \<Longrightarrow> nominates_valid x"
  by (induction n arbitrary: st) (auto dest: nominates_valid_advance [of _ v])

lemma policy_run_cong:
  assumes "\<And>a. slot_is_valid a \<Longrightarrow> v a = v' a" and "nominates_valid st"
  shows "policy_run v n st = policy_run v' n st"
  using assms(2)
proof (induction n arbitrary: st)
  case (Suc n)
  have "policy_advance v st = policy_advance v' st"
    using Suc.prems assms(1) by (cases st) (auto simp: nominates_valid_def other_slot_valid)
  with Suc nominates_valid_advance show ?case by simp
qed simp

lemma power_cycles_policy:
  assumes "meta_seq_of g_layout (dev_mem d) + n < 2 ^ 32"
  shows "\<exists>d'. power_cycles n d =
      Some (map (boot_target (dev_mem d))
              (policy_run (\<lambda>a. is_ok (slot_image g_layout (dev_mem d) a)) n (dev_status d)), d') \<and>
      slots_agree g_layout (dev_mem d') (dev_mem d)"
  using assms
proof (induction n arbitrary: d)
  case 0
  then show ?case by (simp add: slots_agree_def)
next
  case (Suc n)
  let ?v = "\<lambda>d a. is_ok (slot_image g_layout (dev_mem d) a)"
  have "meta_seq_of g_layout (dev_mem d) < 2 ^ 32 - 1" using Suc.prems by simp
  then obtain d1 where d1: "sim_boot (sim_reboot d) = Some (boot_target (dev_mem d) (dev_status d1), d1)"
    and agree: "slots_agree g_layout (dev_mem d1) (dev_mem d)"
    and st: "dev_status d1 = policy_advance (?v d) (dev_status d)"
    and seq: "meta_seq_of g_layout (dev_mem d1) \<le> meta_seq_of g_layout (dev_mem d) + 1"
    by (rule boot_cycle)
  from Suc.prems seq have "meta_seq_of g_layout (dev_mem d1) + n < 2 ^ 32" by simp
  from Suc.IH [OF this] obtain d2 where
    d2: "power_cycles n d1 = Some (map (boot_target (dev_mem d1)) (policy_run (?v d1) n (dev_status d1)), d2)"
      "slots_agree g_layout (dev_mem d2) (dev_mem d1)" by blast
  have "policy_run (?v d1) n (dev_status d1) = policy_run (?v d) n (dev_status d1)"
    using agree host.slot_image_slots_agree [of "dev_mem d1" "dev_mem d"]
    by (intro policy_run_cong) (simp_all add: nominates_valid_status)
  moreover have "boot_target (dev_mem d1) x = boot_target (dev_mem d) x"
    if "x \<in> set (policy_run (?v d) n (dev_status d1))" for x
    using policy_run_valid [OF nominates_valid_status that]
    by (intro boot_target_agree [OF agree]) (simp add: nominates_valid_def)
  moreover have "slots_agree g_layout (dev_mem d2) (dev_mem d)"
    using d2(2) agree by (simp add: slots_agree_def)
  ultimately show ?case using d1 d2(1) st by (auto cong: map_cong)
qed

lemma power_cycles_status:
  assumes "meta_seq_of g_layout (dev_mem d) + n < 2 ^ 32" and "power_cycles n d = Some (targets, d')"
  shows "dev_status d' = last (dev_status d # policy_run (\<lambda>a. is_ok (slot_image g_layout (dev_mem d) a)) n (dev_status d))"
  using assms
proof (induction n arbitrary: d targets)
  case (Suc n)
  let ?v = "\<lambda>d a. is_ok (slot_image g_layout (dev_mem d) a)"
  have "meta_seq_of g_layout (dev_mem d) < 2 ^ 32 - 1" using Suc.prems(1) by simp
  then obtain d1 where d1: "sim_boot (sim_reboot d) = Some (boot_target (dev_mem d) (dev_status d1), d1)"
    and agree: "slots_agree g_layout (dev_mem d1) (dev_mem d)"
    and st: "dev_status d1 = policy_advance (?v d) (dev_status d)"
    and seq: "meta_seq_of g_layout (dev_mem d1) \<le> meta_seq_of g_layout (dev_mem d) + 1"
    by (rule boot_cycle)
  from Suc.prems(2) d1 obtain ts where "power_cycles n d1 = Some (ts, d')" by (auto elim!: bind_SomeE)
  with Suc.IH [of d1 ts] Suc.prems(1) seq
  have "dev_status d' = last (dev_status d1 # policy_run (?v d1) n (dev_status d1))" by simp
  moreover have "policy_run (?v d1) n (dev_status d1) = policy_run (?v d) n (dev_status d1)"
    using agree host.slot_image_slots_agree [of "dev_mem d1" "dev_mem d"]
    by (intro policy_run_cong) (simp_all add: nominates_valid_status)
  ultimately show ?case using st by simp
qed simp

text \<open>An image that never confirms: three boots, then the other slot for good.\<close>

lemma policy_run_confirmed: "policy_run v n (Confirmed a) = replicate n (Confirmed a)"
  by (induction n) simp_all

lemma policy_run_trial:
  assumes "v (other_slot a)"
  shows "policy_run v n (Trial a k) =
    map (\<lambda>i. if k + i < 3 then Trial a (k + i + 1) else Confirmed (other_slot a)) [0..<n]"
proof (induction n arbitrary: k)
  case (Suc n)
  have "map (\<lambda>i. if k + i < 3 then Trial a (k + i + 1) else Confirmed (other_slot a)) [0..<Suc n] =
      (if k < 3 then Trial a (k + 1) else Confirmed (other_slot a)) #
      map (\<lambda>i. if Suc k + i < 3 then Trial a (Suc k + i + 1) else Confirmed (other_slot a)) [0..<n]"
    by (simp add: map_upt_Suc del: upt_Suc)
  moreover have "policy_run v n (Confirmed b) = map (\<lambda>i. if Suc k + i < 3 then x i else Confirmed b) [0..<n]"
    if "3 \<le> k" for b x
    using that by (intro nth_equalityI) (auto simp: policy_run_confirmed)
  ultimately show ?case using Suc.IH [of "Suc k"] assms by simp
qed simp

end
