(* ===== verification/Bl_Api.thy ===== *)
theory Bl_Api
  imports Bl_Prelude
begin

text \<open>
  The service table the bootloader publishes to the application,
  \<open>core/include/bl_api.h\<close> and \<open>core/src/bl_api.c\<close>. \<open>uintptr_t\<close> and \<open>size_t\<close> are a
  word type \<open>'a word\<close>, 32 bits on the target and 64 on the host; the theorems hold for
  every width that is a whole number of bytes. The table is read as bytes from memory,
  as the \<open>memcpy\<close> of the source does.
\<close>

section \<open>The table\<close>

definition BL_API_MAGIC :: u32 where [simp]: "BL_API_MAGIC = 0x49504142"
definition BL_API_VERSION :: u16 where [simp]: "BL_API_VERSION = 1"
definition BL_API_ADDRESS :: u32 where [simp]: "BL_API_ADDRESS = 0x08000200"

record 'p bl_api =
  api_magic :: u32
  api_version :: u16
  api_size :: u16
  api_confirm :: 'p

text \<open>The type parameter is that of the pointer. \<open>sizeof(bl_api_t)\<close>: eight bytes and one pointer, which is aligned there.\<close>

definition SIZEOF_API :: "'a :: len itself \<Rightarrow> nat" where
  "SIZEOF_API _ = 8 + LENGTH('a) div 8"

text \<open>Pointers in little-endian byte order.\<close>

primrec get_ptr_le :: "u8 list \<Rightarrow> 'a :: len word" where
  "get_ptr_le [] = 0"
| "get_ptr_le (b # bs) = ucast b OR push_bit 8 (get_ptr_le bs)"

definition put_ptr_le :: "'a :: len word \<Rightarrow> u8 list" where
  "put_ptr_le p = map (\<lambda>i. ucast (drop_bit (8 * i) p)) [0..<LENGTH('a) div 8]"

definition api_of_bytes :: "u8 list \<Rightarrow> 'a :: len word bl_api" where
  "api_of_bytes bs =
     \<lparr>api_magic = get_u32_le (take 4 bs),
      api_version = get_u16_le (take 2 (drop 4 bs)),
      api_size = get_u16_le (take 2 (drop 6 bs)),
      api_confirm = get_ptr_le (take (LENGTH('a) div 8) (drop 8 bs))\<rparr>"

definition api_bytes :: "'a :: len word bl_api \<Rightarrow> u8 list" where
  "api_bytes t =
     put_u32_le (api_magic t) @ put_u16_le (api_version t) @ put_u16_le (api_size t) @
     put_ptr_le (api_confirm t)"

text \<open>The published table; \<open>confirm\<close> is the address of \<open>bl_core_confirm\<close>.\<close>

definition bl_api_table :: "'a :: len word \<Rightarrow> 'a word bl_api" where
  "bl_api_table confirm =
     \<lparr>api_magic = BL_API_MAGIC,
      api_version = BL_API_VERSION,
      api_size = of_nat (SIZEOF_API TYPE('a)),
      api_confirm = confirm\<rparr>"

section \<open>Looking it up\<close>

definition address_in_region :: "'a :: len word \<Rightarrow> 'a word \<Rightarrow> 'a word \<Rightarrow> bool" where
  "address_in_region v base sz =
     (if v = 0 then False else if v < base then False else v - base < sz)"

text \<open>\<open>None\<close> is the null pointer; \<open>m\<close> is the memory the address points into.\<close>

definition bl_api_lookup ::
    "(nat \<Rightarrow> u8) \<Rightarrow> 'a :: len word \<Rightarrow> 'a word \<Rightarrow> 'a word \<Rightarrow> 'a word option" where
  "bl_api_lookup m address base sz =
     (if address = 0 \<or> sz = 0 then None
      else
        let candidate = api_of_bytes (bytes_at m (unat address) (SIZEOF_API TYPE('a))) :: 'a word bl_api in
        if api_magic candidate \<noteq> BL_API_MAGIC then None
        else if api_version candidate \<noteq> BL_API_VERSION then None
        else if api_size candidate \<noteq> of_nat (SIZEOF_API TYPE('a)) then None
        else if \<not> address_in_region (api_confirm candidate) base sz then None
        else Some address)"

section \<open>Lemmas\<close>

text \<open>The subtraction form of the test is the interval on unbounded numbers.\<close>

lemma address_in_region_iff:
  "address_in_region v base sz \<longleftrightarrow>
     unat v \<noteq> 0 \<and> unat base \<le> unat v \<and> unat v < unat base + unat sz"
proof (cases "base \<le> v")
  case True
  then have "v - base < sz \<longleftrightarrow> unat v - unat base < unat sz" by (simp add: word_less_nat_alt unat_sub)
  with True show ?thesis
    by (auto simp: address_in_region_def word_le_nat_alt word_less_nat_alt unat_eq_0)
qed (auto simp: address_in_region_def word_le_nat_alt linorder_not_le word_less_nat_alt)

lemma bit_get_ptr_le:
  "bit (get_ptr_le bs :: 'a :: len word) n \<longleftrightarrow>
     n < LENGTH('a) \<and> n div 8 < length bs \<and> bit (bs ! (n div 8)) (n mod 8)"
proof (induction bs arbitrary: n)
  case (Cons b bs)
  show ?case
  proof (cases "n < 8")
    case True
    then show ?thesis by (auto simp: bit_simps bit_push_bit_word)
  next
    case False
    then have "n div 8 = Suc ((n - 8) div 8)" "n mod 8 = (n - 8) mod 8"
      by (simp_all add: le_div_geq le_mod_geq)
    with False Cons.IH [of "n - 8"] show ?thesis by (auto simp: bit_or_iff bit_push_bit_word bit_unsigned_iff)
  qed
qed simp

lemma length_put_ptr_le [simp]: "length (put_ptr_le (p :: 'a :: len word)) = LENGTH('a) div 8"
  by (simp add: put_ptr_le_def)

lemma get_put_ptr_le [le_simps]:
  assumes "8 dvd LENGTH('a :: len)"
  shows "get_ptr_le (put_ptr_le p) = (p :: 'a word)"
proof (rule bit_word_eqI)
  fix n assume n: "n < LENGTH('a)"
  then have "n div 8 < LENGTH('a) div 8" using assms by (auto elim!: dvdE simp: less_mult_imp_div_less mult.commute)
  then show "bit (get_ptr_le (put_ptr_le p) :: 'a word) n = bit p n"
    using n by (simp add: bit_get_ptr_le put_ptr_le_def bit_simps)
qed

lemma length_api_bytes [simp]: "length (api_bytes (t :: 'a :: len word bl_api)) = SIZEOF_API TYPE('a)"
  by (simp add: api_bytes_def SIZEOF_API_def)

lemma api_of_api_bytes [le_simps]:
  assumes "8 dvd LENGTH('a :: len)"
  shows "api_of_bytes (api_bytes t) = (t :: 'a word bl_api)"
  by (simp add: api_of_bytes_def api_bytes_def get_put_ptr_le [OF assms])

lemma put_get_ptr_le [le_simps]:
  assumes "length bs = LENGTH('a :: len) div 8"
  shows "put_ptr_le (get_ptr_le bs :: 'a word) = bs"
proof (rule nth_equalityI)
  fix i assume "i < length (put_ptr_le (get_ptr_le bs :: 'a word))"
  then have i: "i < LENGTH('a) div 8" by simp
  have "ucast (drop_bit (8 * i) (get_ptr_le bs :: 'a word)) = bs ! i"
  proof (rule bit_word_eqI)
    fix n assume n: "n < LENGTH(8)"
    then have "8 * i + n < LENGTH('a)" using i by (simp add: less_eq_Suc_le)
    then show "bit (ucast (drop_bit (8 * i) (get_ptr_le bs :: 'a word)) :: u8) n = bit (bs ! i) n"
      using n i assms by (simp add: bit_simps bit_get_ptr_le)
  qed
  then show "put_ptr_le (get_ptr_le bs :: 'a word) ! i = bs ! i" using i by (simp add: put_ptr_le_def)
qed (simp add: assms)

lemma api_bytes_of_bytes [le_simps]:
  assumes "length bs = SIZEOF_API TYPE('a :: len)"
  shows "api_bytes (api_of_bytes bs :: 'a word bl_api) = bs"
proof -
  have "length (drop 8 bs) = LENGTH('a) div 8" using assms by (simp add: SIZEOF_API_def)
  then have "api_bytes (api_of_bytes bs :: 'a word bl_api) = take 4 bs @ take 2 (drop 4 bs) @ take 2 (drop 6 bs) @ drop 8 bs"
    using assms by (simp add: api_bytes_def api_of_bytes_def put_get_ptr_le SIZEOF_API_def)
  also have "\<dots> = bs"
    using append_take_drop_id [of 2 "drop 6 bs"] append_take_drop_id [of 2 "drop 4 bs"] append_take_drop_id [of 4 bs]
    by simp
  finally show ?thesis .
qed

text \<open>
  C39. The application finds the service table exactly when the bytes at the address are
  the published table and the function it offers lies inside the bootloader's region;
  erased, foreign or relocated tables give a null pointer. The region test is exact even
  for a region at the top of the address space. Pointers of any whole number of bytes.
\<close>

theorem api_lookup_exact:
  fixes address base sz :: "'a :: len word"
  assumes "8 dvd LENGTH('a)"
  shows "bl_api_lookup m address base sz =
    (if address \<noteq> 0 \<and>
        (\<exists>confirm. bytes_at m (unat address) (SIZEOF_API TYPE('a)) = api_bytes (bl_api_table confirm :: 'a word bl_api) \<and>
           confirm \<noteq> 0 \<and> unat base \<le> unat confirm \<and> unat confirm < unat base + unat sz)
     then Some address else None)"
proof -
  define bs where "bs = bytes_at m (unat address) (SIZEOF_API TYPE('a))"
  define c where "c = (api_of_bytes bs :: 'a word bl_api)"
  have bytes: "bs = api_bytes c" by (simp add: c_def bs_def api_bytes_of_bytes)
  have inj: "bs = api_bytes (t :: 'a word bl_api) \<longleftrightarrow> c = t" for t
    using bytes api_of_api_bytes [OF assms] by metis
  have table: "c = bl_api_table confirm \<longleftrightarrow> api_magic c = BL_API_MAGIC \<and> api_version c = BL_API_VERSION \<and>
      api_size c = of_nat (SIZEOF_API TYPE('a)) \<and> api_confirm c = confirm" for confirm
    by (cases c) (simp add: bl_api_table_def)
  show ?thesis
    unfolding bl_api_lookup_def Let_def bs_def [symmetric] c_def [symmetric] address_in_region_iff inj table
    by (auto simp: unat_eq_0)
qed

theorem api_lookup_exact_witness:
  "bl_api_lookup (mem_upd (\<lambda>_. 0xFF) 0x08000200 (api_bytes (bl_api_table 0x08000101 :: 32 word bl_api)))
     0x08000200 0x08000000 0x8000 = Some (0x08000200 :: 32 word) \<and>
   bl_api_lookup (\<lambda>_. 0xFF) 0x08000200 0x08000000 0x8000 = (None :: 64 word option)"
proof
  let ?t = "bl_api_table 0x08000101 :: 32 word bl_api"
  have "bytes_at (mem_upd (\<lambda>_. 0xFF) 0x08000200 (api_bytes ?t)) 0x08000200 (SIZEOF_API TYPE(32)) = api_bytes ?t"
    by (metis bytes_at_mem_upd_same length_api_bytes)
  then show "bl_api_lookup (mem_upd (\<lambda>_. 0xFF) 0x08000200 (api_bytes ?t)) 0x08000200 0x08000000 0x8000 =
      Some (0x08000200 :: 32 word)"
    by (subst api_lookup_exact) (auto intro!: exI [of _ "0x08000101"])
  have "bytes_at (\<lambda>_. 0xFF) a (SIZEOF_API TYPE(64)) \<noteq> api_bytes (bl_api_table p :: 64 word bl_api)" for a p
  proof
    assume "bytes_at (\<lambda>_. 0xFF) a (SIZEOF_API TYPE(64)) = api_bytes (bl_api_table p :: 64 word bl_api)"
    from arg_cong [OF this, of "\<lambda>xs. xs ! 0"] show False
      by (simp add: SIZEOF_API_def api_bytes_def bl_api_table_def put_u32_le_def)
  qed
  then show "bl_api_lookup (\<lambda>_. 0xFF) 0x08000200 0x08000000 0x8000 = (None :: 64 word option)"
    by (subst api_lookup_exact) auto
qed

end
