(* ===== verification/Bl_Examples.thy ===== *)
theory Bl_Examples
  imports Bl_Sim Bl_Api
begin

text \<open>
  Concrete devices the theorems are applied to: the factory state, and a device that
  runs version 1 from slot A with version 2 armed for its trial in slot B. Both images
  are eight-byte vector tables behind a packaged header.
\<close>

definition factory_host :: host where
  "factory_host = snd (bl_port_init host_zero)"

definition factory :: sim where
  "factory = sim_init sim_zero"

lemma factory_host_inv [simp]: "host_inv factory_host"
  by (simp add: factory_host_def host_inv_init)

lemma factory_mem [simp]: "0x08000000 \<le> x \<Longrightarrow> x < 0x08040000 \<Longrightarrow> host_mem factory_host x = 0xFF"
  by (auto simp: factory_host_def bl_port_init_def host_mem_def mem_fill_def)

lemma factory_prog [simp]: "\<not> host_prog factory_host x"
  by (simp add: factory_host_def bl_port_init_def host_zero_def host_prog_def prog_bit_def mem_fill_def)

lemma factory_ready [simp]: "host_ready factory_host"
  by (simp add: factory_host_def bl_port_init_def host_ready_def word_neq_0_conv [symmetric])

definition vectors_a :: "u8 list" where
  "vectors_a = put_u32_le 0x20008000 @ put_u32_le 0x08009209"

definition vectors_b :: "u8 list" where
  "vectors_b = put_u32_le 0x20008000 @ put_u32_le 0x08024209"

definition demo_host :: host where
  "demo_host = factory_host\<lparr>g_flash :=
     mem_upd (mem_upd (mem_upd (\<lambda>_. 0xFF) 0x9000 (image_bytes 1 vectors_a)) 0x24000 (image_bytes 2 vectors_b))
       0x8000 (meta_bytes (meta_record 1 1 BL_BOOT_TRIAL 0))\<rparr>"

definition demo :: sim where
  "demo = factory\<lparr>sim_host := demo_host\<rparr>"

lemma length_vectors [simp]: "length vectors_a = 8" "length vectors_b = 8"
  by (simp_all add: vectors_a_def vectors_b_def)

lemma demo_host_inv [simp]: "host_inv demo_host"
  using factory_host_inv by (simp add: demo_host_def host_inv_def)

lemma length_demo_record [simp]: "length (meta_bytes (meta_record q a t n)) = 16"
  using length_meta_bytes [of "meta_record q a t n"] by simp

lemma demo_bytes:
  "bytes_at (host_mem demo_host) 0x08009000 520 = image_bytes 1 vectors_a"
  "bytes_at (host_mem demo_host) 0x08024000 520 = image_bytes 2 vectors_b"
  "bytes_at (host_mem demo_host) 0x08008000 16 = meta_bytes (meta_record 1 1 BL_BOOT_TRIAL 0)"
  "bytes_at (host_mem demo_host) 0x08008800 16 = replicate 16 0xFF"
proof -
  have A: "bytes_at (mem_upd m a (image_bytes v vs)) a 520 = image_bytes v vs" if "length vs = 8" for m a v vs
    using bytes_at_mem_upd_same [of m a "image_bytes v vs"] that by simp
  have M: "bytes_at (mem_upd m a (meta_bytes (meta_record q b t n))) a 16 = meta_bytes (meta_record q b t n)" for m a q b t n
    using bytes_at_mem_upd_same [of m a "meta_bytes (meta_record q b t n)"] by simp
  show "bytes_at (host_mem demo_host) 0x08009000 520 = image_bytes 1 vectors_a"
    "bytes_at (host_mem demo_host) 0x08024000 520 = image_bytes 2 vectors_b"
    "bytes_at (host_mem demo_host) 0x08008000 16 = meta_bytes (meta_record 1 1 BL_BOOT_TRIAL 0)"
    by (simp_all add: bytes_at_host_mem demo_host_def bytes_at_mem_upd_other A M del: BL_BOOT_TRIAL_def)
  show "bytes_at (host_mem demo_host) 0x08008800 16 = replicate 16 0xFF"
    by (intro nth_equalityI) (simp_all add: bytes_at_host_mem demo_host_def bytes_at_mem_upd_other)
qed

lemma demo_images [simp]:
  "slot_image g_layout (host_mem demo_host) 0 = Inr (image_hdr 1 vectors_a)"
  "slot_image g_layout (host_mem demo_host) 1 = Inr (image_hdr 2 vectors_b)"
  by (rule slot_image_packaged; simp add: g_layout_def demo_bytes vectors_a_def vectors_b_def put_u32_le_def)+

lemma demo_authoritative [simp]:
  "meta_authoritative g_layout (host_mem demo_host) = Some (meta_record 1 1 BL_BOOT_TRIAL 0, 0)"
proof -
  have "meta_view g_layout (host_mem demo_host) 0 = Some (meta_record 1 1 BL_BOOT_TRIAL 0)"
    using region_record_meta_record [of 1 BL_BOOT_TRIAL 1 0] demo_bytes(3)
    by (simp add: meta_view_def g_layout_def state_is_valid_def)
  moreover have "meta_view g_layout (host_mem demo_host) 1 = None"
    using demo_bytes(4) region_record_erased by (simp add: meta_view_def g_layout_def)
  ultimately show ?thesis by (simp add: meta_authoritative_def)
qed

lemma demo_status [simp]: "boot_status_of g_layout (host_mem demo_host) = Trial 1 0"
  by (simp add: boot_status_of_def)

lemma demo_seq [simp]: "meta_seq_of g_layout (host_mem demo_host) = 1"
  by (simp add: meta_seq_of_def)

lemma demo_entry [simp]:
  "boot_entry g_layout (host_mem demo_host) 0 = 0x08009200"
  "boot_entry g_layout (host_mem demo_host) 1 = 0x08024200"
  by (simp_all add: boot_entry_def) (simp_all add: g_layout_def)

lemma demo_vectors:
  "bytes_at (host_mem demo_host) 0x08009200 8 = vectors_a"
  "bytes_at (host_mem demo_host) 0x08024200 8 = vectors_b"
proof -
  have "drop 512 (image_bytes v vs) = vs" for v vs
    by (simp add: image_bytes_def length_hdr_bytes)
  then show "bytes_at (host_mem demo_host) 0x08009200 8 = vectors_a"
    "bytes_at (host_mem demo_host) 0x08024200 8 = vectors_b"
    using arg_cong [OF demo_bytes(1), of "drop 512"] arg_cong [OF demo_bytes(2), of "drop 512"]
    by (simp_all add: drop_bytes_at)
qed

lemma demo_jump_ok [simp]:
  "jump_ok (host_mem demo_host) 0x08009200" "jump_ok (host_mem demo_host) 0x08024200"
proof -
  have a: "bytes_at (host_mem demo_host) 0x08009200 4 = put_u32_le 0x20008000"
    "bytes_at (host_mem demo_host) 0x08009204 4 = put_u32_le 0x08009209"
    using arg_cong [OF demo_vectors(1), of "take 4"] arg_cong [OF demo_vectors(1), of "drop 4"]
    by (simp_all add: take_bytes_at drop_bytes_at vectors_a_def)
  have b: "bytes_at (host_mem demo_host) 0x08024200 4 = put_u32_le 0x20008000"
    "bytes_at (host_mem demo_host) 0x08024204 4 = put_u32_le 0x08024209"
    using arg_cong [OF demo_vectors(2), of "take 4"] arg_cong [OF demo_vectors(2), of "drop 4"]
    by (simp_all add: take_bytes_at drop_bytes_at vectors_b_def)
  show "jump_ok (host_mem demo_host) 0x08009200" "jump_ok (host_mem demo_host) 0x08024200"
    by (simp_all add: jump_ok_def find_slot_for_address_def g_layout_def Let_def a b)
qed

lemma demo_host_of [simp]: "sim_host demo = demo_host"
  by (simp add: demo_def)

end
