(* ===== verification/Bl_Tool_Image.thy ===== *)
theory Bl_Tool_Image
  imports Bl_Tool_Proto Bl_Examples
begin

text \<open>
  The firmware image format of the host tools, \<open>tools/blimage.py\<close>, and the packager,
  \<open>tools/mkimage.py\<close>. Of the packager's \<open>main\<close> the computation of the output file from
  the input bytes and the version argument is modelled; \<open>parser.error\<close> is \<open>System_Exit\<close>.
  Version strings are ASCII.

  The lemmas relate the tool's validation to the device's \<open>slot_image\<close>.
\<close>

section \<open>The image format\<close>

definition IMG_MAGIC :: nat where [simp]: "IMG_MAGIC = 0x4D494C42"
definition HDR_VERSION :: nat where [simp]: "HDR_VERSION = 1"
definition HDR_STRUCT_SIZE :: nat where [simp]: "HDR_STRUCT_SIZE = 40"
definition HDR_REGION_SIZE :: nat where [simp]: "HDR_REGION_SIZE = 512"
definition WRITE_GRANULARITY :: nat where [simp]: "WRITE_GRANULARITY = 8"
definition PAD_BYTE :: nat where [simp]: "PAD_BYTE = 0xFF"

definition HDR_FORMAT_NO_CRC :: "struct_code list" where
  "HDR_FORMAT_NO_CRC = [Code_I, Code_H, Code_H, Code_I, Code_I, Code_I, Code_I, Code_s 12]"

definition HDR_FORMAT_WITH_CRC :: "struct_code list" where
  "HDR_FORMAT_WITH_CRC = [Code_I, Code_H, Code_H, Code_I, Code_I, Code_I, Code_I, Code_s 12, Code_I]"

record image_header =
  ih_magic :: nat
  ih_hdr_version :: nat
  ih_flags :: nat
  ih_img_size :: nat
  ih_img_crc32 :: nat
  ih_fw_version :: nat
  ih_entry_offset :: nat
  ih_reserved :: "u8 list"
  ih_hdr_crc32 :: nat

definition build_header :: "nat \<Rightarrow> nat \<Rightarrow> nat \<Rightarrow> nat \<Rightarrow> py_error + u8 list \<times> nat" where
  "build_header n crc version offset =
     (case struct_pack HDR_FORMAT_NO_CRC
        [Py_Int IMG_MAGIC, Py_Int HDR_VERSION, Py_Int 0, Py_Int n, Py_Int crc, Py_Int version, Py_Int offset,
         Py_Bytes (replicate 12 0)] of
        Inl e \<Rightarrow> Inl e
      | Inr head \<Rightarrow>
          let crc = and (zlib_crc32 head) 0xFFFFFFFF in
          (case struct_pack [Code_I] [Py_Int crc] of
             Inl e \<Rightarrow> Inl e
           | Inr tail \<Rightarrow>
               if length (head @ tail) \<noteq> HDR_STRUCT_SIZE then Inl Assertion_Error
               else Inr (head @ tail, crc)))"

definition decode_header :: "u8 list \<Rightarrow> py_error + image_header" where
  "decode_header header =
     (if length header < HDR_STRUCT_SIZE then Inl Value_Error
      else case struct_unpack HDR_FORMAT_WITH_CRC (take HDR_STRUCT_SIZE header) of
        Inr [Py_Int a, Py_Int b, Py_Int c, Py_Int d, Py_Int e, Py_Int f, Py_Int g, Py_Bytes h, Py_Int i] \<Rightarrow>
          Inr \<lparr>ih_magic = a, ih_hdr_version = b, ih_flags = c, ih_img_size = d, ih_img_crc32 = e,
               ih_fw_version = f, ih_entry_offset = g, ih_reserved = h, ih_hdr_crc32 = i\<rparr>
      | _ \<Rightarrow> Inl Struct_Error)"

text \<open>\<open>slot_size\<close> is \<open>None\<close> when the argument is left out.\<close>

definition validate :: "u8 list \<Rightarrow> nat option \<Rightarrow> py_error + image_header" where
  "validate img slot_size =
     (if length img < HDR_REGION_SIZE then Inl Value_Error
      else case decode_header img of
        Inl e \<Rightarrow> Inl e
      | Inr header \<Rightarrow>
          if ih_magic header \<noteq> IMG_MAGIC then Inl Value_Error
          else if ih_hdr_version header \<noteq> HDR_VERSION then Inl Value_Error
          else if ih_hdr_crc32 header \<noteq> and (zlib_crc32 (take (HDR_STRUCT_SIZE - 4) img)) 0xFFFFFFFF
          then Inl Value_Error
          else if ih_entry_offset header < HDR_STRUCT_SIZE then Inl Value_Error
          else if ih_entry_offset header mod HDR_REGION_SIZE \<noteq> 0 then Inl Value_Error
          else if ih_img_size header = 0 then Inl Value_Error
          else if ih_img_size header mod WRITE_GRANULARITY \<noteq> 0 then Inl Value_Error
          else
            let payload = drop (ih_entry_offset header) img in
            if length payload \<noteq> ih_img_size header then Inl Value_Error
            else if and (zlib_crc32 payload) 0xFFFFFFFF \<noteq> ih_img_crc32 header then Inl Value_Error
            else if (case slot_size of None \<Rightarrow> False | Some room \<Rightarrow>
                       ih_entry_offset header + ih_img_size header > room)
            then Inl Value_Error
            else Inr header)"

section \<open>The packager\<close>

definition pad_payload :: "u8 list \<Rightarrow> u8 list" where
  "pad_payload data =
     (let remainder = length data mod WRITE_GRANULARITY in
      if remainder \<noteq> 0 then data @ replicate (WRITE_GRANULARITY - remainder) (of_nat PAD_BYTE) else data)"

text \<open>\<open>str.split\<close> on one character, and \<open>int\<close> of a string: white space around, a sign, digits with
  single underscores between them.\<close>

fun py_split :: "char \<Rightarrow> string \<Rightarrow> string list" where
  "py_split sep [] = [[]]"
| "py_split sep (c # cs) =
     (if c = sep then [] # py_split sep cs
      else case py_split sep cs of [] \<Rightarrow> [[c]] | p # ps \<Rightarrow> (c # p) # ps)"

definition is_space :: "char \<Rightarrow> bool" where
  "is_space c \<longleftrightarrow> (let n = of_char c :: nat in 9 \<le> n \<and> n \<le> 13 \<or> 28 \<le> n \<and> n \<le> 32)"

definition digit_value :: "char \<Rightarrow> nat option" where
  "digit_value c = (let n = of_char c :: nat in if 48 \<le> n \<and> n \<le> 57 then Some (n - 48) else None)"

text \<open>The rest of a number after a digit; \<open>acc\<close> is its value so far.\<close>

fun digits_value :: "nat \<Rightarrow> string \<Rightarrow> nat option" where
  "digits_value acc [] = Some acc"
| "digits_value acc (c # cs) =
     (case digit_value c of
        Some d \<Rightarrow> digits_value (10 * acc + d) cs
      | None \<Rightarrow>
          if c = CHR ''_'' \<and> cs \<noteq> [] \<and> digit_value (hd cs) \<noteq> None then digits_value acc cs else None)"

definition number_value :: "string \<Rightarrow> nat option" where
  "number_value cs =
     (case cs of [] \<Rightarrow> None | c # cs \<Rightarrow> (case digit_value c of None \<Rightarrow> None | Some d \<Rightarrow> digits_value d cs))"

definition py_int :: "string \<Rightarrow> int option" where
  "py_int text =
     (let t = rev (dropWhile is_space (rev (dropWhile is_space text))) in
      case t of
        [] \<Rightarrow> None
      | c # cs \<Rightarrow>
          if c = CHR ''-'' then map_option (\<lambda>n. - int n) (number_value cs)
          else if c = CHR ''+'' then map_option int (number_value cs)
          else map_option int (number_value t))"

definition parse_version :: "string \<Rightarrow> py_error + nat" where
  "parse_version version =
     (case py_split (CHR ''.'') version of
        [a, b, c] \<Rightarrow>
          (case (py_int a, py_int b, py_int c) of
             (Some major, Some minor, Some patch) \<Rightarrow>
               if \<not> (0 \<le> major \<and> major \<le> 255) then Inl Value_Error
               else if \<not> (0 \<le> minor \<and> minor \<le> 255) then Inl Value_Error
               else if \<not> (0 \<le> patch \<and> patch \<le> 255) then Inl Value_Error
               else Inr (or (or (push_bit 16 (nat major)) (push_bit 8 (nat minor))) (nat patch))
           | _ \<Rightarrow> Inl Value_Error)
      | _ \<Rightarrow> Inl Value_Error)"

text \<open>Decimal rendering of an integer in a format string.\<close>

fun py_str :: "nat \<Rightarrow> string" where
  "py_str n = (if n < 10 then [char_of (48 + n)] else py_str (n div 10) @ [char_of (48 + n mod 10)])"

declare py_str.simps [simp del]

definition format_version :: "nat \<Rightarrow> string" where
  "format_version v =
     py_str (and (drop_bit 16 v) 0xFF) @ ''.'' @ py_str (and (drop_bit 8 v) 0xFF) @ ''.'' @ py_str (and v 0xFF)"

definition build_header_region :: "u8 list \<Rightarrow> py_error + u8 list" where
  "build_header_region header =
     (let region = header @ replicate (HDR_REGION_SIZE - length header) (of_nat PAD_BYTE) in
      if length region \<noteq> HDR_REGION_SIZE then Inl Assertion_Error else Inr region)"

text \<open>The bytes of the output file, from the bytes of the input file and \<open>--version\<close>.\<close>

definition mkimage :: "u8 list \<Rightarrow> string \<Rightarrow> py_error + u8 list" where
  "mkimage payload version =
     (if length payload = 0 then Inl System_Exit
      else
        let payload = pad_payload payload; crc = zlib_crc32 payload in
        case parse_version version of
          Inl _ \<Rightarrow> Inl System_Exit
        | Inr v \<Rightarrow>
            (case build_header (length payload) crc v HDR_REGION_SIZE of
               Inl e \<Rightarrow> Inl e
             | Inr (header, _) \<Rightarrow>
                 (case build_header_region header of
                    Inl e \<Rightarrow> Inl e
                  | Inr region \<Rightarrow> Inr (region @ payload))))"

section \<open>The header\<close>

text \<open>A header of the device as the tool sees it.\<close>

definition header_of :: "bl_img_hdr \<Rightarrow> image_header" where
  "header_of h =
     \<lparr>ih_magic = unat (hdr_magic h), ih_hdr_version = unat (hdr_version h), ih_flags = unat (hdr_flags h),
      ih_img_size = unat (img_size h), ih_img_crc32 = unat (img_crc32 h), ih_fw_version = unat (fw_version h),
      ih_entry_offset = unat (entry_offset h), ih_reserved = hdr_reserved h, ih_hdr_crc32 = unat (hdr_crc32 h)\<rparr>"

lemma header_of_fields [simp]:
  "ih_magic (header_of h) = unat (hdr_magic h)" "ih_hdr_version (header_of h) = unat (hdr_version h)"
  "ih_img_size (header_of h) = unat (img_size h)" "ih_img_crc32 (header_of h) = unat (img_crc32 h)"
  "ih_fw_version (header_of h) = unat (fw_version h)" "ih_entry_offset (header_of h) = unat (entry_offset h)"
  "ih_hdr_crc32 (header_of h) = unat (hdr_crc32 h)"
  by (simp_all add: header_of_def)

lemma from_bytes_get:
  "length bs = 4 \<Longrightarrow> from_bytes bs = unat (get_u32_le bs)" "length bs = 2 \<Longrightarrow> from_bytes bs = unat (get_u16_le bs)"
  by (metis from_put_le(1) put_get_u32_le) (metis from_put_le(2) put_get_u16_le)

lemma decode_header_eq:
  assumes "40 \<le> length bs"
  shows "decode_header bs = Inr (header_of (hdr_of_bytes (take 40 bs)))"
  using assms
  by (simp add: decode_header_def HDR_FORMAT_WITH_CRC_def header_of_def hdr_of_bytes_def from_bytes_get drop_take)

lemma zlib_crc32_eq: "and (zlib_crc32 xs) 0xFFFFFFFF = unat (bl_crc32 0 xs)" "zlib_crc32 xs = unat (bl_crc32 0 xs)"
  using crc32_eq [of xs] by (simp_all add: crc32_def zlib_crc32_def bl_crc32_iso_hdlc)

text \<open>What the tool accepts.\<close>

lemma validate_iff:
  "validate img (Some room) = Inr ih \<longleftrightarrow>
     (\<exists>hdr. ih = header_of hdr \<and> take 40 img = hdr_bytes hdr \<and>
        hdr_describes (unat (entry_offset hdr)) (drop (unat (entry_offset hdr)) img) hdr \<and>
        unat (img_size hdr) mod 8 = 0 \<and> length img \<le> room)"
proof (cases "512 \<le> length img")
  case False
  then show ?thesis by (auto simp: validate_def hdr_describes_def)
next
  case True
  define hdr where "hdr = hdr_of_bytes (take 40 img)"
  have l40: "length (take 40 img) = SIZEOF_IMG_HDR" using True by simp
  have hdr: "hdr_wf hdr" "hdr_bytes hdr = take 40 img"
    using hdr_of_bytes_wf [OF l40] hdr_bytes_of_bytes [OF l40] by (simp_all add: hdr_def)
  have uniq: "take 40 img = hdr_bytes h \<and> hdr_wf h \<longleftrightarrow> h = hdr" for h
    using hdr hdr_of_hdr_bytes [of h] by (auto simp: hdr_def)
  have t36: "take 36 (hdr_bytes hdr) = take 36 img" by (simp add: hdr(2))
  have words: "unat w = 0x4D494C42 \<longleftrightarrow> w = 0x4D494C42" "unat v = 1 \<longleftrightarrow> v = 1" for w :: u32 and v :: u16
    by (simp_all add: word_unat_eq_iff)
  let ?e = "unat (entry_offset hdr)"
  have chain: "(if a then x else if b then x else y) = (if a \<or> b then x else y)" for a b and x y :: "py_error + image_header"
    by simp
  have dec: "decode_header img = Inr (header_of hdr)" using True by (simp add: decode_header_eq hdr_def)
  let ?ok = "hdr_describes ?e (drop ?e img) hdr \<and> unat (img_size hdr) mod 8 = 0 \<and> length img \<le> room"
  have shape: "(e < 40 \<or> e mod 512 \<noteq> 0 \<or> n = 0 \<or> k - e \<noteq> n \<or> room < e + n) \<longleftrightarrow>
      \<not> (e mod 512 = 0 \<and> 512 \<le> e \<and> n = k - e \<and> e < k \<and> k \<le> room)" for e n k :: nat
    by (cases "e < 512") auto
  have desc: "?ok \<longleftrightarrow> hdr_magic hdr = 0x4D494C42 \<and> hdr_version hdr = 1 \<and> hdr_crc32 hdr = bl_crc32 0 (take 36 img) \<and>
      unat (img_size hdr) mod 8 = 0 \<and> bl_crc32 0 (drop ?e img) = img_crc32 hdr \<and>
      (?e mod 512 = 0 \<and> 512 \<le> ?e \<and> unat (img_size hdr) = length img - ?e \<and> ?e < length img \<and> length img \<le> room)"
    using hdr(1) by (auto simp: hdr_describes_def t36 not_le)
  have "(length img < 512 \<or> hdr_magic hdr \<noteq> 0x4D494C42 \<or> hdr_version hdr \<noteq> 1 \<or>
      hdr_crc32 hdr \<noteq> bl_crc32 0 (take 36 img) \<or> ?e < 40 \<or> ?e mod 512 \<noteq> 0 \<or> unat (img_size hdr) = 0 \<or>
      unat (img_size hdr) mod 8 \<noteq> 0 \<or> length img - ?e \<noteq> unat (img_size hdr) \<or>
      bl_crc32 0 (drop ?e img) \<noteq> img_crc32 hdr \<or> room < ?e + unat (img_size hdr)) \<longleftrightarrow> \<not> ?ok"
    unfolding desc using True [folded not_less] shape [of ?e "unat (img_size hdr)" "length img"] by argo
  note D = this
  have sub: "40 - 4 = (36 :: nat)" by simp
  have eq: "validate img (Some room) = (if ?ok then Inr (header_of hdr) else Inl Value_Error)"
    unfolding validate_def dec sum.case Let_def option.case header_of_fields zlib_crc32_eq(1) IMG_MAGIC_def HDR_VERSION_def
      HDR_STRUCT_SIZE_def HDR_REGION_SIZE_def WRITE_GRANULARITY_def sub words word_unat_eq_iff [symmetric] length_drop
      chain disj_assoc D by simp
  have same: "h = hdr" if "take 40 img = hdr_bytes h" "hdr_describes e pl h" for e pl h
    using uniq [of h] that by (simp add: hdr_describes_def)
  show ?thesis
  proof
    assume "validate img (Some room) = Inr ih"
    then have "?ok" "ih = header_of hdr" unfolding eq by (auto split: if_splits)
    with hdr(2) [symmetric] show "\<exists>hdr. ih = header_of hdr \<and> take 40 img = hdr_bytes hdr \<and>
        hdr_describes (unat (entry_offset hdr)) (drop (unat (entry_offset hdr)) img) hdr \<and>
        unat (img_size hdr) mod 8 = 0 \<and> length img \<le> room" by (intro exI [of _ hdr]) simp
  next
    assume "\<exists>hdr. ih = header_of hdr \<and> take 40 img = hdr_bytes hdr \<and>
        hdr_describes (unat (entry_offset hdr)) (drop (unat (entry_offset hdr)) img) hdr \<and>
        unat (img_size hdr) mod 8 = 0 \<and> length img \<le> room"
    then obtain h where h: "ih = header_of h" "take 40 img = hdr_bytes h"
      "hdr_describes (unat (entry_offset h)) (drop (unat (entry_offset h)) img) h"
      "unat (img_size h) mod 8 = 0" "length img \<le> room" by (elim exE conjE) (rule that)
    then have "h = hdr" by (intro same)
    with h show "validate img (Some room) = Inr ih" unfolding eq by simp
  qed
qed

lemma validate_error: "validate img room = Inl e \<Longrightarrow> e = Value_Error"
  unfolding validate_def Let_def by (auto simp: decode_header_eq split: if_splits)

text \<open>
  C16. The tool validates an image the way the bootloader will. Put an image file at the
  start of a slot: the tool accepts the file for a slot of that size exactly when the
  device accepts the slot, the file ends where the payload ends, and the payload is a
  whole number of write granules; both then see the same header.
\<close>

theorem host_validation_exact:
  assumes "bytes_at m (region_lo (layout_slot L ! unat slot)) (length img) = img"
  shows "validate img (Some (unat (region_size (layout_slot L ! unat slot)))) = Inr ih \<longleftrightarrow>
    (\<exists>hdr. ih = header_of hdr \<and> slot_image L m slot = Inr hdr \<and>
       length img = unat (entry_offset hdr) + unat (img_size hdr) \<and> unat (img_size hdr) mod 8 = 0)"
proof -
  let ?r = "layout_slot L ! unat slot"
  have pl: "drop e img = bytes_at m (region_lo ?r + e) n" if "length img = e + n" for e n
    using arg_cong [OF assms, of "drop e"] that by (simp add: drop_bytes_at)
  have hd: "take 40 img = bytes_at m (region_lo ?r) 40" if "40 \<le> length img"
    using arg_cong [OF assms, of "take 40"] that by (simp add: take_bytes_at)
  show ?thesis
    unfolding validate_iff
  proof (rule iff_exI, intro iffI)
    fix hdr :: bl_img_hdr
    let ?e = "unat (entry_offset hdr)" and ?n = "unat (img_size hdr)"
    assume *: "ih = header_of hdr \<and> take 40 img = hdr_bytes hdr \<and> hdr_describes ?e (drop ?e img) hdr \<and>
      ?n mod 8 = 0 \<and> length img \<le> unat (region_size ?r)"
    then have d: "hdr_describes ?e (drop ?e img) hdr" and len: "length img = ?e + ?n" "40 \<le> length img"
      by (auto simp: hdr_describes_def)
    have "slot_image L m slot = Inr hdr"
      by (rule slot_image_described [OF d]) (use * len hd pl [OF len(1)] in simp_all)
    with * len show "ih = header_of hdr \<and> slot_image L m slot = Inr hdr \<and> length img = ?e + ?n \<and> ?n mod 8 = 0" by simp
  next
    fix hdr :: bl_img_hdr
    let ?e = "unat (entry_offset hdr)" and ?n = "unat (img_size hdr)"
    assume *: "ih = header_of hdr \<and> slot_image L m slot = Inr hdr \<and> length img = ?e + ?n \<and> ?n mod 8 = 0"
    then have i: "hdr = hdr_of_bytes (bytes_at m (region_lo ?r) 40)" "hdr_magic hdr = BL_IMG_MAGIC"
      "hdr_version hdr = BL_IMG_HDR_VERSION" "hdr_crc32 hdr = bl_crc32 0 (take OFFSETOF_HDR_CRC32 (bytes_at m (region_lo ?r) 40))"
      "40 \<le> ?e" "?e mod 512 = 0" "0 < ?n" "?e + ?n \<le> unat (region_size ?r)"
      "img_crc32 hdr = bl_crc32 0 (bytes_at m (region_lo ?r + ?e) ?n)"
      unfolding slot_image_Inr_iff Let_def SIZEOF_IMG_HDR_def by blast+
    have b: "hdr_bytes hdr = bytes_at m (region_lo ?r) 40" "hdr_wf hdr"
      unfolding i(1) by (simp_all add: hdr_bytes_of_bytes hdr_of_bytes_wf)
    have "512 \<le> ?e" using i(5,6) by (cases "?e < 512") auto
    moreover have "drop ?e img \<noteq> []" using * i(7) by simp
    ultimately have "hdr_describes ?e (drop ?e img) hdr" using * i(2-9) b pl [of ?e ?n] by (simp add: hdr_describes_def)
    with * i(5,8) b(1) hd show "ih = header_of hdr \<and> take 40 img = hdr_bytes hdr \<and> hdr_describes ?e (drop ?e img) hdr \<and>
      ?n mod 8 = 0 \<and> length img \<le> unat (region_size ?r)" by simp
  qed
qed

theorem host_validation_exact_witness:
  "validate (image_bytes 1 vectors_a) (Some 0x1B000) = Inr (header_of (image_hdr 1 vectors_a))"
proof -
  have "bytes_at (host_mem demo_host) (region_lo (layout_slot g_layout ! unat (0 :: u8))) (length (image_bytes 1 vectors_a)) =
      image_bytes 1 vectors_a"
    using demo_bytes(1) by (simp add: g_layout_def)
  moreover have "unat (region_size (layout_slot g_layout ! unat (0 :: u8))) = 0x1B000" by (simp add: g_layout_def)
  ultimately show ?thesis
    using host_validation_exact [of "host_mem demo_host" g_layout 0 "image_bytes 1 vectors_a" "header_of (image_hdr 1 vectors_a)"]
    by auto
qed

section \<open>Packaged images\<close>

lemma le_bytes_of_nat:
  "n < 2 ^ 16 \<Longrightarrow> le_bytes 2 n = put_u16_le (of_nat n)" "n < 2 ^ 32 \<Longrightarrow> le_bytes 4 n = put_u32_le (of_nat n)"
  by (simp_all add: put_le_of_nat)

lemma build_header_eq:
  assumes "length pl < 2 ^ 32" and "v < 2 ^ 32"
  shows "build_header (length pl) (zlib_crc32 pl) v 512 =
    Inr (hdr_bytes (image_hdr (of_nat v) pl), unat (hdr_crc32 (image_hdr (of_nat v) pl)))"
proof -
  define h where "h = image_hdr (of_nat v) pl"
  have crc: "unat w < 2 ^ 32" for w :: u32 using unsigned_less [of w, where ?'a = nat] by simp
  have head: "struct_pack HDR_FORMAT_NO_CRC
      [Py_Int IMG_MAGIC, Py_Int HDR_VERSION, Py_Int 0, Py_Int (length pl), Py_Int (zlib_crc32 pl), Py_Int v, Py_Int 512,
       Py_Bytes (replicate 12 0)] = Inr (take 36 (hdr_bytes h))"
    using assms crc [of "bl_crc32 0 pl"]
    by (simp add: HDR_FORMAT_NO_CRC_def zlib_crc32_eq(2) le_bytes_of_nat h_def hdr_bytes_def image_hdr_def Let_def)
  have bytes: "hdr_bytes h = take 36 (hdr_bytes h) @ put_u32_le (hdr_crc32 h)"
    by (simp add: h_def hdr_bytes_def image_hdr_def Let_def)
  have crc_h: "hdr_crc32 h = bl_crc32 0 (take 36 (hdr_bytes h))" by (simp add: h_def)
  have tail: "struct_pack [Code_I] [Py_Int (unat w)] = Inr (put_u32_le w)" for w :: u32
    using crc [of w] by simp
  have "length (hdr_bytes h) = 40" by (simp add: h_def length_hdr_bytes)
  then show ?thesis
    unfolding build_header_def head sum.case Let_def zlib_crc32_eq(1) crc_h [symmetric] tail bytes [symmetric] HDR_STRUCT_SIZE_def
    by (simp add: h_def)
qed

lemma pad_payload_props:
  "length (pad_payload raw) mod 8 = 0" "take (length raw) (pad_payload raw) = raw"
  "length (pad_payload raw) < length raw + 8" "raw \<noteq> [] \<Longrightarrow> pad_payload raw \<noteq> []"
proof -
  show "length (pad_payload raw) mod 8 = 0"
  proof (cases "length raw mod 8 = 0")
    case False
    have "length raw + (8 - length raw mod 8) = 8 * (length raw div 8 + 1)" by presburger
    then show ?thesis using False by (simp add: pad_payload_def Let_def)
  qed (simp add: pad_payload_def)
qed (auto simp: pad_payload_def Let_def)

lemma mkimage_eq:
  assumes "raw \<noteq> []" and "parse_version version = Inr v" and "v < 2 ^ 32" and "length (pad_payload raw) < 2 ^ 32"
  shows "mkimage raw version = Inr (image_bytes (of_nat v) (pad_payload raw))"
proof -
  have "build_header_region (hdr_bytes (image_hdr (of_nat v) pl)) =
      Inr (hdr_bytes (image_hdr (of_nat v) pl) @ replicate 472 0xFF)" for pl
    by (simp add: build_header_region_def length_hdr_bytes)
  with assms show ?thesis
    by (simp add: mkimage_def Let_def build_header_eq [OF assms(4,3)] image_bytes_def)
qed

section \<open>Versions\<close>

definition is_digit :: "char \<Rightarrow> bool" where
  "is_digit c \<longleftrightarrow> digit_value c \<noteq> None"

lemma digit_char [simp]: "d < 10 \<Longrightarrow> digit_value (char_of (48 + d)) = Some d"
  by (simp add: digit_value_def Let_def)

lemma digits_value_snoc:
  "\<forall>c\<in>set cs. is_digit c \<Longrightarrow> digit_value c = Some d \<Longrightarrow>
   digits_value acc (cs @ [c]) = map_option (\<lambda>v. 10 * v + d) (digits_value acc cs)"
  by (induction cs arbitrary: acc) (auto simp: is_digit_def)

lemma number_value_snoc:
  "cs \<noteq> [] \<Longrightarrow> \<forall>c\<in>set cs. is_digit c \<Longrightarrow> digit_value c = Some d \<Longrightarrow>
   number_value (cs @ [c]) = map_option (\<lambda>v. 10 * v + d) (number_value cs)"
  by (cases cs) (auto simp: number_value_def digits_value_snoc split: option.split)

lemma py_str_digits: "py_str n \<noteq> [] \<and> (\<forall>c\<in>set (py_str n). is_digit c) \<and> number_value (py_str n) = Some n"
proof (induction n rule: py_str.induct)
  case (1 n)
  show ?case
  proof (cases "n < 10")
    case True
    then show ?thesis by (simp add: py_str.simps [of n] is_digit_def number_value_def)
  next
    case False
    with 1 have "number_value (py_str n) = Some (10 * (n div 10) + n mod 10)"
      by (simp add: py_str.simps [of n] number_value_snoc [where d = "n mod 10"])
    with False 1 show ?thesis by (auto simp: py_str.simps [of n] is_digit_def)
  qed
qed

lemma is_digit_plain:
  assumes "is_digit c"
  shows "\<not> is_space c" and "c \<noteq> CHR ''.''" and "c \<noteq> CHR ''-''" and "c \<noteq> CHR ''+''"
  using assms by (auto simp: is_digit_def digit_value_def is_space_def Let_def split: if_splits)

lemma dropWhile_hd: "cs \<noteq> [] \<Longrightarrow> \<not> P (hd cs) \<Longrightarrow> dropWhile P cs = cs"
  by (cases cs) simp_all

lemma py_int_str: "py_int (py_str n) = Some (int n)"
proof -
  note d = py_str_digits [of n]
  then have "is_digit (hd (py_str n))" "is_digit (hd (rev (py_str n)))" by (simp_all add: hd_rev)
  then have "rev (dropWhile is_space (rev (dropWhile is_space (py_str n)))) = py_str n"
    using d is_digit_plain(1) by (simp add: dropWhile_hd)
  moreover obtain c cs where "py_str n = c # cs" using d by (cases "py_str n") auto
  ultimately show ?thesis using d is_digit_plain(3,4) [of c] by (simp add: py_int_def)
qed

lemma py_split_none: "sep \<notin> set cs \<Longrightarrow> py_split sep cs = [cs]"
  by (induction cs) auto

lemma py_split_sep: "sep \<notin> set cs \<Longrightarrow> py_split sep (cs @ sep # rest) = cs # py_split sep rest"
  by (induction cs) auto

lemma split_bytes_or:
  fixes v :: nat
  assumes "v < 2 ^ 24"
  shows "or (or (push_bit 16 (and (drop_bit 16 v) 0xFF)) (push_bit 8 (and (drop_bit 8 v) 0xFF))) (and v 0xFF) = v"
proof (rule bit_eqI)
  fix n
  have mask: "(0xFF :: nat) = mask 8" by (simp add: mask_eq_exp_minus_1)
  have "\<not> bit v n" if "24 \<le> n"
    using assms that by (metis bit_take_bit_iff linorder_not_le take_bit_nat_eq_self)
  then show "bit (or (or (push_bit 16 (and (drop_bit 16 v) 0xFF)) (push_bit 8 (and (drop_bit 8 v) 0xFF))) (and v 0xFF)) n = bit v n"
    unfolding mask by (cases "n < 8"; cases "n < 16"; cases "n < 24") (auto simp: bit_simps)
qed

lemma byte_le_255: "and v 0xFF \<le> (255 :: nat)"
proof -
  have "and v 0xFF = take_bit 8 v" by (simp add: take_bit_eq_mask mask_eq_exp_minus_1)
  then show ?thesis using take_bit_nat_less_exp [of 8 v] by simp
qed

lemma parse_format_version:
  assumes "v < 2 ^ 24"
  shows "parse_version (format_version v) = Inr v"
proof -
  have no_dot: "CHR ''.'' \<notin> set (py_str n)" for n using py_str_digits [of n] is_digit_plain(2) by blast
  have "py_split (CHR ''.'') (format_version v) =
      [py_str (and (drop_bit 16 v) 0xFF), py_str (and (drop_bit 8 v) 0xFF), py_str (and v 0xFF)]"
    by (simp add: format_version_def py_split_sep [OF no_dot] py_split_none [OF no_dot])
  then show ?thesis
    using byte_le_255 [of "drop_bit 16 v"] byte_le_255 [of "drop_bit 8 v"] byte_le_255 [of v] split_bytes_or [OF assms]
    by (simp add: parse_version_def py_int_str)
qed

lemma format_version_123: "format_version 0x010203 = ''1.2.3''"
proof -
  have "py_str 1 = ''1''" "py_str 2 = ''2''" "py_str 3 = ''3''" by (simp_all add: py_str.simps char_of_def bit_0)
  then show ?thesis by (simp add: format_version_def flip: numeral_3_eq_3)
qed

text \<open>
  Versions round-trip: \<open>mkimage.py\<close> parses back what \<open>blimage.py\<close> prints, for every
  packed version the parser can produce.
\<close>

lemma version_round_trip:
  assumes "v < 2 ^ 24"
  shows "parse_version (format_version v) = Inr v"
  by (rule parse_format_version [OF assms])

lemma parse_version_less: "parse_version version = Inr v \<Longrightarrow> v < 2 ^ 24"
proof -
  have "or a b < 2 ^ 24" if "a < 2 ^ 24" "b < 2 ^ 24" for a b :: nat
    using that by (metis take_bit_nat_eq_self take_bit_nat_less_exp take_bit_or)
  then have or24: "or a b < 16777216" if "a < 16777216" "b < 16777216" for a b :: nat using that by simp
  have "push_bit 16 (nat a) < 2 ^ 24" "push_bit 8 (nat a) < 2 ^ 24" "nat a < 2 ^ 24" if "a \<le> 255" for a
    using that by (simp_all add: push_bit_eq_mult nat_less_iff)
  then show "parse_version version = Inr v \<Longrightarrow> v < 2 ^ 24"
    by (auto simp: parse_version_def intro!: or24 split: list.splits option.splits if_splits)
qed

lemma validate_packaged:
  assumes "pl \<noteq> []" and "length pl < 2 ^ 32" and "length pl mod 8 = 0"
  shows "validate (image_bytes v pl) (Some room) = Inr ih \<longleftrightarrow> 512 + length pl \<le> room \<and> ih = header_of (image_hdr v pl)"
proof -
  have lh: "length (hdr_bytes (image_hdr v pl)) = 40" by (simp add: length_hdr_bytes)
  have t: "take 40 (image_bytes v pl) = hdr_bytes (image_hdr v pl)" "drop 512 (image_bytes v pl) = pl"
    using lh by (simp_all add: image_bytes_def)
  have uniq: "h = image_hdr v pl" if "take 40 (image_bytes v pl) = hdr_bytes h" "hdr_wf h" for h
    using that t(1) hdr_of_hdr_bytes [of h] hdr_of_hdr_bytes [of "image_hdr v pl"] by simp
  have n: "unat (of_nat (length pl) :: u32) = length pl" using assms(2) by (simp add: unat_of_nat)
  show ?thesis
    unfolding validate_iff
  proof (intro iffI; elim exE conjE)
    fix h assume "ih = header_of h" "take 40 (image_bytes v pl) = hdr_bytes h" "length (image_bytes v pl) \<le> room"
      and "hdr_describes (unat (entry_offset h)) (drop (unat (entry_offset h)) (image_bytes v pl)) h"
    then show "512 + length pl \<le> room \<and> ih = header_of (image_hdr v pl)"
      using uniq [of h] by (simp add: hdr_describes_def)
  next
    assume "512 + length pl \<le> room" "ih = header_of (image_hdr v pl)"
    with t n assms show "\<exists>hdr. ih = header_of hdr \<and> take 40 (image_bytes v pl) = hdr_bytes hdr \<and>
        hdr_describes (unat (entry_offset hdr)) (drop (unat (entry_offset hdr)) (image_bytes v pl)) hdr \<and>
        unat (img_size hdr) mod 8 = 0 \<and> length (image_bytes v pl) \<le> room"
      using hdr_describes_packaged [OF assms(1,2), of v] by (intro exI [of _ "image_hdr v pl"]) simp
  qed
qed

text \<open>
  C20. What the packager writes. From a non-empty binary and a version it parses, it
  makes the header, the padding and the payload of the format, the payload being the
  input with at most seven bytes of \<open>0xFF\<close> after it; the tool's own validation accepts the
  file for exactly the slots it fits, and the device accepts it at the start of such a
  slot.
\<close>

theorem mkimage_packages:
  assumes "raw \<noteq> []" and "length raw + 8 \<le> 2 ^ 32" and "parse_version version = Inr v"
  shows "\<exists>pl. mkimage raw version = Inr (image_bytes (of_nat v) pl) \<and>
    take (length raw) pl = raw \<and> set (drop (length raw) pl) \<subseteq> {0xFF} \<and> length pl mod 8 = 0 \<and> length pl < length raw + 8 \<and>
    (\<forall>room ih. validate (image_bytes (of_nat v) pl) (Some room) = Inr ih \<longleftrightarrow>
       512 + length pl \<le> room \<and> ih = header_of (image_hdr (of_nat v) pl)) \<and>
    (\<forall>L m slot. bytes_at m (region_lo (layout_slot L ! unat slot)) (512 + length pl) = image_bytes (of_nat v) pl \<and>
       512 + length pl \<le> unat (region_size (layout_slot L ! unat slot)) \<longrightarrow>
       slot_image L m slot = Inr (image_hdr (of_nat v) pl))"
proof -
  note pad = pad_payload_props [of raw]
  have v: "v < 2 ^ 32" using parse_version_less [OF assms(3)] by simp
  have len: "length (pad_payload raw) < 2 ^ 32" using pad(3) assms(2) by linarith
  have tail: "set (drop (length raw) (pad_payload raw)) \<subseteq> {0xFF}" by (auto simp: pad_payload_def Let_def)
  show ?thesis
    using mkimage_eq [OF assms(1,3) v len] pad(1-3) tail validate_packaged [OF pad(4) [OF assms(1)] len pad(1)]
      slot_image_packaged [OF _ pad(4) [OF assms(1)]]
    by (intro exI [of _ "pad_payload raw"]) simp
qed

theorem mkimage_packages_witness:
  "\<exists>pl. mkimage [1, 2, 3] ''1.2.3'' = Inr (image_bytes 0x010203 pl) \<and> take 3 pl = [1, 2, 3] \<and> length pl mod 8 = 0"
proof -
  have "parse_version ''1.2.3'' = Inr 0x010203" using parse_format_version [of "0x010203"] by (simp add: format_version_123)
  from mkimage_packages [OF _ _ this, of "[1, 2, 3]"] obtain pl where
    "mkimage [1, 2, 3] ''1.2.3'' = Inr (image_bytes (of_nat 0x010203) pl)" "take (length [1 :: u8, 2, 3]) pl = [1, 2, 3]"
    "length pl mod 8 = 0" by auto
  then show ?thesis by (intro exI [of _ pl]) (simp add: numeral_3_eq_3)
qed

end
