(* ===== verification/Bl_Flash_Tool.thy ===== *)
theory Bl_Flash_Tool
  imports Bl_Tool_Image
begin

text \<open>
  The updater, \<open>tools/blflash.py\<close>, and the simulated device as the tools see it,
  \<open>tools/blsim.py\<close>.

  A method of \<open>Bootloader\<close> is a function of the port and the number of retries that takes
  the state behind the port and returns a value or an exception with the state
  afterwards; \<open>None\<close> is a call that does not return, because a loop runs forever or the
  simulation behind the port aborts. \<open>py_bind\<close> is sequencing with exceptions. The port
  is whatever provides \<open>write\<close>, \<open>read\<close> and \<open>reset_input_buffer\<close>, each of which may raise an
  exception (a serial port raises a \<open>SerialException\<close>, an \<open>OSError\<close>); \<open>pp_timeout\<close> is the
  setter of its \<open>timeout\<close> attribute, if it has one, and \<open>time.monotonic\<close> is read through
  the port's state too. Times are in milliseconds. Log messages, the progress callback and the
  cached \<open>_info\<close>, which nothing reads, are left out.
\<close>

section \<open>Sequencing\<close>

type_synonym ('d, 'a) py = "'d \<Rightarrow> ((py_error + 'a) \<times> 'd) option"

definition py_return :: "'a \<Rightarrow> ('d, 'a) py" where
  "py_return a d = Some (Inr a, d)"

definition py_raise :: "py_error \<Rightarrow> ('d, 'a) py" where
  "py_raise e d = Some (Inl e, d)"

definition py_lift :: "py_error + 'a \<Rightarrow> ('d, 'a) py" where
  "py_lift r d = Some (r, d)"

definition py_bind :: "('d, 'a) py \<Rightarrow> ('a \<Rightarrow> ('d, 'b) py) \<Rightarrow> ('d, 'b) py" where
  "py_bind m f d = do {
     (r, d) \<leftarrow> m d;
     case r of Inl e \<Rightarrow> Some (Inl e, d) | Inr a \<Rightarrow> f a d
   }"

lemmas py_simps = py_return_def py_raise_def py_lift_def py_bind_def

section \<open>Data\<close>

definition DEFAULT_TIMEOUT :: int where [simp]: "DEFAULT_TIMEOUT = 1000"
definition ERASE_TIMEOUT :: int where [simp]: "ERASE_TIMEOUT = 10000"
definition DEFAULT_RETRIES :: nat where [simp]: "DEFAULT_RETRIES = 3"

record response =
  rsp_cmd :: nat
  rsp_status :: nat
  rsp_data :: "u8 list"
  rsp_attempts :: nat

record device_info =
  di_proto_version :: nat
  di_hdr_version :: nat
  di_slot_count :: nat
  di_slot_size :: nat
  di_write_granularity :: nat
  di_erase_granularity :: nat
  di_max_write :: nat
  di_active_slot :: nat
  di_boot_state :: nat
  di_boot_attempts :: nat

record slot_info =
  si_img_size :: nat
  si_img_crc32 :: nat
  si_fw_version :: nat

record 'd py_port =
  pp_write :: "u8 list \<Rightarrow> ('d, unit) py"
  pp_read :: "'d \<Rightarrow> nat \<Rightarrow> (py_error + u8 list) \<times> 'd"
  pp_reset_input_buffer :: "'d \<Rightarrow> (py_error + unit) \<times> 'd"
  pp_timeout :: "('d \<Rightarrow> int \<Rightarrow> (py_error + unit) \<times> 'd) option"
  pp_monotonic :: "'d \<Rightarrow> int \<times> 'd"

section \<open>Transport\<close>

definition set_timeout :: "'d py_port \<Rightarrow> int \<Rightarrow> 'd \<Rightarrow> (py_error + unit) \<times> 'd" where
  "set_timeout P seconds d = (case pp_timeout P of None \<Rightarrow> (Inr (), d) | Some setter \<Rightarrow> setter d (max seconds 0))"

partial_function (option) read_exactly_loop ::
    "'d py_port \<Rightarrow> nat \<Rightarrow> int \<Rightarrow> u8 list \<Rightarrow> 'd \<Rightarrow> ((py_error + u8 list) \<times> 'd) option" where
  "read_exactly_loop P count deadline buffer d =
     (if length buffer < count
      then
        let (now, d) = pp_monotonic P d; remaining = deadline - now in
        if remaining \<le> 0 then Some (Inl Bootloader_Timeout, d)
        else
          let (r, d) = set_timeout P remaining d in
          (case r of
             Inl e \<Rightarrow> Some (Inl e, d)
           | Inr _ \<Rightarrow>
               let (r, d) = pp_read P d (count - length buffer) in
               (case r of
                  Inl e \<Rightarrow> Some (Inl e, d)
                | Inr chunk \<Rightarrow>
                    if chunk \<noteq> [] then read_exactly_loop P count deadline (buffer @ chunk) d
                    else if pp_timeout P = None then Some (Inl Bootloader_Timeout, d)
                    else read_exactly_loop P count deadline buffer d))
      else Some (Inr buffer, d))"

definition read_exactly :: "'d py_port \<Rightarrow> nat \<Rightarrow> int \<Rightarrow> ('d, u8 list) py" where
  "read_exactly P count deadline d = read_exactly_loop P count deadline [] d"

text \<open>The \<open>while True\<close> loop of \<open>_read_frame\<close>.\<close>

partial_function (option) skip_to_sof :: "'d py_port \<Rightarrow> int \<Rightarrow> 'd \<Rightarrow> ((py_error + unit) \<times> 'd) option" where
  "skip_to_sof P deadline d = do {
     (r, d) \<leftarrow> read_exactly P 1 deadline d;
     case r of
       Inl e \<Rightarrow> Some (Inl e, d)
     | Inr byte \<Rightarrow> if unat (byte ! 0) = SOF then Some (Inr (), d) else skip_to_sof P deadline d
   }"

definition read_frame :: "'d py_port \<Rightarrow> int \<Rightarrow> ('d, nat \<times> u8 list) py" where
  "read_frame P deadline =
     py_bind (skip_to_sof P deadline) (\<lambda>_.
     py_bind (read_exactly P 3 deadline) (\<lambda>head.
     let n = from_bytes (take 2 (drop 1 head)) in
     if n > MAX_PAYLOAD then py_raise Protocol_Error
     else
       py_bind (if n \<noteq> 0 then read_exactly P n deadline else py_return []) (\<lambda>payload.
       py_bind (read_exactly P 4 deadline) (\<lambda>crc.
       py_lift (decode_frame ([of_nat SOF] @ head @ payload @ crc))))))"

section \<open>Protocol\<close>

text \<open>The \<open>while True\<close> loop of one attempt: frames for other commands are discarded.\<close>

partial_function (option) await_response ::
    "'d py_port \<Rightarrow> nat \<Rightarrow> int \<Rightarrow> 'd \<Rightarrow> ((py_error + u8 list) \<times> 'd) option" where
  "await_response P cmd deadline d = do {
     (r, d) \<leftarrow> read_frame P deadline d;
     case r of
       Inl e \<Rightarrow> Some (Inl e, d)
     | Inr (response_cmd, data) \<Rightarrow>
         if response_cmd = cmd then Some (Inr data, d) else await_response P cmd deadline d
   }"

text \<open>
  The exceptions an attempt is retried after; \<open>n\<close> attempts are left. \<open>reset_input_buffer\<close>
  and \<open>write\<close> are called outside the \<open>try\<close>.
\<close>

definition retried :: "py_error \<Rightarrow> bool" where
  "retried e \<longleftrightarrow> e = Bootloader_Timeout \<or> e = Protocol_Error \<or> e = Value_Error"

primrec transact_loop ::
    "'d py_port \<Rightarrow> nat \<Rightarrow> u8 list \<Rightarrow> int \<Rightarrow> nat \<Rightarrow> nat \<Rightarrow> 'd \<Rightarrow> ((py_error + response) \<times> 'd) option" where
  "transact_loop P cmd request timeout 0 attempt d = Some (Inl Bootloader_Timeout, d)"
| "transact_loop P cmd request timeout (Suc n) attempt d =
     (let (r, d) = pp_reset_input_buffer P d in
      case r of
        Inl e \<Rightarrow> Some (Inl e, d)
      | Inr _ \<Rightarrow> do {
          (r, d) \<leftarrow> pp_write P request d;
          case r of
            Inl e \<Rightarrow> Some (Inl e, d)
          | Inr _ \<Rightarrow>
              let (now, d) = pp_monotonic P d in do {
                (r, d) \<leftarrow> await_response P cmd (now + timeout) d;
                case r of
                  Inl e \<Rightarrow>
                    if retried e then transact_loop P cmd request timeout n (attempt + 1) d else Some (Inl e, d)
                | Inr data \<Rightarrow>
                    if data = [] then transact_loop P cmd request timeout n (attempt + 1) d
                    else Some (Inr \<lparr>rsp_cmd = cmd, rsp_status = unat (data ! 0), rsp_data = drop 1 data,
                                    rsp_attempts = attempt\<rparr>, d)
              }
        })"

definition transact :: "'d py_port \<Rightarrow> nat \<Rightarrow> nat \<Rightarrow> u8 list \<Rightarrow> int \<Rightarrow> ('d, response) py" where
  "transact P retries cmd payload timeout =
     (case encode_frame cmd payload of
        Inl e \<Rightarrow> py_raise e
      | Inr request \<Rightarrow> transact_loop P cmd request timeout retries 1)"

definition expect_ok :: "'d py_port \<Rightarrow> nat \<Rightarrow> nat \<Rightarrow> u8 list \<Rightarrow> int \<Rightarrow> ('d, u8 list) py" where
  "expect_ok P retries cmd payload timeout =
     py_bind (transact P retries cmd payload timeout) (\<lambda>response.
     if rsp_status response \<noteq> STATUS_OK then py_raise (Device_Error cmd (rsp_status response))
     else py_return (rsp_data response))"

section \<open>Commands\<close>

text \<open>\<open>bytes([n])\<close>.\<close>

definition byte_of :: "nat \<Rightarrow> py_error + u8 list" where
  "byte_of n = (if n < 256 then Inr [of_nat n] else Inl Value_Error)"

definition tool_hello :: "'d py_port \<Rightarrow> nat \<Rightarrow> ('d, device_info) py" where
  "tool_hello P retries =
     py_bind (expect_ok P retries CMD_HELLO [] DEFAULT_TIMEOUT) (\<lambda>data.
     if length data < 20 then py_raise Protocol_Error
     else
       let info =
         \<lparr>di_proto_version = unat (data ! 0),
          di_hdr_version = unat (data ! 1),
          di_slot_count = unat (data ! 2),
          di_slot_size = from_bytes (take 4 (drop 3 data)),
          di_write_granularity = from_bytes (take 4 (drop 7 data)),
          di_erase_granularity = from_bytes (take 4 (drop 11 data)),
          di_max_write = from_bytes (take 2 (drop 15 data)),
          di_active_slot = unat (data ! 17),
          di_boot_state = unat (data ! 18),
          di_boot_attempts = unat (data ! 19)\<rparr> in
       if di_proto_version info \<noteq> PROTO_VERSION then py_raise Protocol_Error
       else if di_hdr_version info \<noteq> HDR_VERSION then py_raise Protocol_Error
       else py_return info)"

definition tool_erase_slot :: "'d py_port \<Rightarrow> nat \<Rightarrow> nat \<Rightarrow> ('d, unit) py" where
  "tool_erase_slot P retries slot =
     py_bind (py_lift (byte_of slot)) (\<lambda>payload.
     py_bind (expect_ok P retries CMD_ERASE_SLOT payload ERASE_TIMEOUT) (\<lambda>_. py_return ()))"

definition tool_write :: "'d py_port \<Rightarrow> nat \<Rightarrow> nat \<Rightarrow> u8 list \<Rightarrow> ('d, unit) py" where
  "tool_write P retries offset data =
     py_bind (py_lift (to_bytes 4 offset)) (\<lambda>head.
     py_bind (transact P retries CMD_WRITE (head @ data) DEFAULT_TIMEOUT) (\<lambda>response.
     if rsp_status response = STATUS_OK
     then if from_bytes (take 4 (rsp_data response)) \<noteq> offset then py_raise Protocol_Error else py_return ()
     else if rsp_status response = ERR_NOT_ERASED \<and> rsp_attempts response > 1 then py_return ()
     else py_raise (Device_Error CMD_WRITE (rsp_status response))))"

definition slot_info_of :: "u8 list \<Rightarrow> slot_info" where
  "slot_info_of data =
     \<lparr>si_img_size = from_bytes (take 4 data),
      si_img_crc32 = from_bytes (take 4 (drop 4 data)),
      si_fw_version = from_bytes (take 4 (drop 8 data))\<rparr>"

definition tool_verify :: "'d py_port \<Rightarrow> nat \<Rightarrow> nat \<Rightarrow> ('d, slot_info) py" where
  "tool_verify P retries slot =
     py_bind (py_lift (byte_of slot)) (\<lambda>payload.
     py_bind (expect_ok P retries CMD_VERIFY payload DEFAULT_TIMEOUT) (\<lambda>data.
     if length data < 12 then py_raise Protocol_Error else py_return (slot_info_of data)))"

text \<open>The result is a status code or a \<open>SlotInfo\<close>.\<close>

definition slot_status :: "'d py_port \<Rightarrow> nat \<Rightarrow> nat \<Rightarrow> ('d, nat + slot_info) py" where
  "slot_status P retries slot =
     py_bind (py_lift (byte_of slot)) (\<lambda>payload.
     py_bind (transact P retries CMD_VERIFY payload DEFAULT_TIMEOUT) (\<lambda>response.
     py_return
       (if rsp_status response \<noteq> STATUS_OK then Inl (rsp_status response)
        else Inr (slot_info_of (rsp_data response)))))"

definition tool_set_active :: "'d py_port \<Rightarrow> nat \<Rightarrow> nat \<Rightarrow> ('d, unit) py" where
  "tool_set_active P retries slot =
     py_bind (py_lift (byte_of slot)) (\<lambda>payload.
     py_bind (expect_ok P retries CMD_SET_ACTIVE payload DEFAULT_TIMEOUT) (\<lambda>_. py_return ()))"

definition tool_reset :: "'d py_port \<Rightarrow> nat \<Rightarrow> ('d, unit) py" where
  "tool_reset P retries = py_bind (expect_ok P retries CMD_RESET [] DEFAULT_TIMEOUT) (\<lambda>_. py_return ())"

section \<open>Orchestration\<close>

definition py_mod :: "nat \<Rightarrow> nat \<Rightarrow> py_error + nat" where
  "py_mod a b = (if b = 0 then Inl Zero_Division_Error else Inr (a mod b))"

text \<open>The dictionary comprehension over the slots, in order.\<close>

primrec slot_statuses :: "'d py_port \<Rightarrow> nat \<Rightarrow> nat list \<Rightarrow> ('d, (nat \<times> (nat + slot_info)) list) py" where
  "slot_statuses P retries [] = py_return []"
| "slot_statuses P retries (slot # slots) =
     py_bind (slot_status P retries slot) (\<lambda>status.
     py_bind (slot_statuses P retries slots) (\<lambda>statuses. py_return ((slot, status) # statuses)))"

fun valid_slots :: "(nat \<times> (nat + slot_info)) list \<Rightarrow> (nat \<times> slot_info) list" where
  "valid_slots [] = []"
| "valid_slots ((slot, Inl _) # rest) = valid_slots rest"
| "valid_slots ((slot, Inr info) # rest) = (slot, info) # valid_slots rest"

text \<open>\<open>min\<close> with a key returns the first smallest.\<close>

fun min_version :: "nat \<times> slot_info \<Rightarrow> (nat \<times> slot_info) list \<Rightarrow> nat" where
  "min_version best [] = fst best"
| "min_version best (x # xs) =
     min_version (if si_fw_version (snd x) < si_fw_version (snd best) then x else best) xs"

definition choose_target_slot :: "'d py_port \<Rightarrow> nat \<Rightarrow> device_info \<Rightarrow> ('d, nat) py" where
  "choose_target_slot P retries info =
     (if di_active_slot info \<noteq> SLOT_NONE
      then py_lift (py_mod (di_active_slot info + 1) (di_slot_count info))
      else
        py_bind (slot_statuses P retries [0..<di_slot_count info]) (\<lambda>statuses.
        case valid_slots statuses of
          [] \<Rightarrow> py_return SLOT_A
        | [(occupied, _)] \<Rightarrow> py_lift (py_mod (occupied + 1) (di_slot_count info))
        | x # xs \<Rightarrow> py_return (min_version x xs)))"

text \<open>The \<open>while\<close> loop over the payload.\<close>

partial_function (option) write_payload ::
    "'d py_port \<Rightarrow> nat \<Rightarrow> nat \<Rightarrow> nat \<Rightarrow> u8 list \<Rightarrow> nat \<Rightarrow> 'd \<Rightarrow> ((py_error + unit) \<times> 'd) option" where
  "write_payload P retries offset chunk_size payload sent d =
     (if sent < length payload
      then
        let chunk = take chunk_size (drop sent payload) in do {
          (r, d) \<leftarrow> tool_write P retries (offset + sent) chunk d;
          case r of
            Inl e \<Rightarrow> Some (Inl e, d)
          | Inr _ \<Rightarrow> write_payload P retries offset chunk_size payload (sent + length chunk) d
        }
      else Some (Inr (), d))"

text \<open>\<open>slot\<close> is \<open>None\<close> when the tool is to choose.\<close>

definition tool_update :: "'d py_port \<Rightarrow> nat \<Rightarrow> u8 list \<Rightarrow> nat option \<Rightarrow> ('d, nat) py" where
  "tool_update P retries img slot =
     py_bind (tool_hello P retries) (\<lambda>info.
     py_bind (py_lift (validate img (Some (di_slot_size info)))) (\<lambda>header.
     py_bind (case slot of None \<Rightarrow> choose_target_slot P retries info | Some s \<Rightarrow> py_return s) (\<lambda>slot.
     if slot \<ge> di_slot_count info then py_raise Bootloader_Error
     else if slot = di_active_slot info then py_raise Bootloader_Error
     else
       py_bind (tool_erase_slot P retries slot) (\<lambda>_.
       let payload = drop (ih_entry_offset header) img;
           chunk_size = min (di_max_write info) MAX_WRITE_DATA in
       py_bind (py_lift (py_mod chunk_size (di_write_granularity info))) (\<lambda>remainder.
       if remainder \<noteq> 0 then py_raise Protocol_Error
       else
         py_bind (write_payload P retries (ih_entry_offset header) chunk_size payload 0) (\<lambda>_.
         py_bind (tool_write P retries 0 (take HDR_STRUCT_SIZE img)) (\<lambda>_.
         py_bind (tool_verify P retries slot) (\<lambda>stored.
         if si_img_crc32 stored \<noteq> ih_img_crc32 header then py_raise Bootloader_Error
         else py_bind (tool_set_active P retries slot) (\<lambda>_. py_return slot)))))))))"

text \<open>
  The commands return the exit code 0. \<open>file\<close> is what \<open>Path(args.image).read_bytes()\<close> gives:
  the contents of the file or an exception.
\<close>

definition cmd_flash :: "'d py_port \<Rightarrow> nat \<Rightarrow> py_error + u8 list \<Rightarrow> nat option \<Rightarrow> bool \<Rightarrow> ('d, nat) py" where
  "cmd_flash P retries file slot no_reset =
     py_bind (py_lift file) (\<lambda>img.
     py_bind (tool_update P retries img slot) (\<lambda>written.
     py_bind (if \<not> no_reset then tool_reset P retries else py_return ()) (\<lambda>_. py_return 0)))"

definition cmd_status :: "'d py_port \<Rightarrow> nat \<Rightarrow> ('d, nat) py" where
  "cmd_status P retries =
     py_bind (tool_hello P retries) (\<lambda>info.
     py_bind (slot_statuses P retries [0..<di_slot_count info]) (\<lambda>_. py_return 0))"

definition cmd_verify :: "'d py_port \<Rightarrow> nat \<Rightarrow> nat \<Rightarrow> ('d, nat) py" where
  "cmd_verify P retries slot = py_bind (tool_verify P retries slot) (\<lambda>_. py_return 0)"

definition cmd_reset :: "'d py_port \<Rightarrow> nat \<Rightarrow> ('d, nat) py" where
  "cmd_reset P retries = py_bind (tool_reset P retries) (\<lambda>_. py_return 0)"

text \<open>
  The command line after \<open>argparse\<close>, which lets only the slots A and B through, and the end
  of \<open>main\<close>, once the port is open: a \<open>BootloaderError\<close>, of which the other three are subclasses, and a \<open>ValueError\<close>
  make the exit code 1; any other exception ends the program.
\<close>

datatype command = Flash "py_error + u8 list" "nat option" bool | Status | Verify nat | Reset

fun handler :: "command \<Rightarrow> 'd py_port \<Rightarrow> nat \<Rightarrow> ('d, nat) py" where
  "handler (Flash file slot no_reset) P retries = cmd_flash P retries file slot no_reset"
| "handler Status P retries = cmd_status P retries"
| "handler (Verify slot) P retries = cmd_verify P retries slot"
| "handler Reset P retries = cmd_reset P retries"

fun caught :: "py_error \<Rightarrow> bool" where
  "caught Bootloader_Error \<longleftrightarrow> True"
| "caught Bootloader_Timeout \<longleftrightarrow> True"
| "caught Protocol_Error \<longleftrightarrow> True"
| "caught (Device_Error _ _) \<longleftrightarrow> True"
| "caught Value_Error \<longleftrightarrow> True"
| "caught _ \<longleftrightarrow> False"

definition tool_main :: "'d py_port \<Rightarrow> nat \<Rightarrow> command \<Rightarrow> ('d, nat) py" where
  "tool_main P retries cmd d = do {
     (r, d) \<leftarrow> handler cmd P retries d;
     Some (case r of Inl e \<Rightarrow> if caught e then Inr 1 else Inl e | Inr code \<Rightarrow> Inr code, d)
   }"

section \<open>The simulated device\<close>

record sim_device =
  sd_lib :: sim
  sd_rx :: "u8 list"

definition RESPONSE_CAPACITY :: nat where [simp]: "RESPONSE_CAPACITY = 1024"

definition sd_write :: "sim_device \<Rightarrow> u8 list \<Rightarrow> sim_device option" where
  "sd_write s data = do {
     (produced, response, lib) \<leftarrow>
       sim_feed (sd_lib s) (Some data) (of_nat (length data)) (Some (replicate RESPONSE_CAPACITY 0))
         (of_nat RESPONSE_CAPACITY);
     let s = s\<lparr>sd_lib := lib\<rparr>;
     Some (if produced \<noteq> 0 then s\<lparr>sd_rx := sd_rx s @ take (unat produced) response\<rparr> else s)
   }"

definition sd_read :: "sim_device \<Rightarrow> nat \<Rightarrow> u8 list \<times> sim_device" where
  "sd_read s count = (take count (sd_rx s), s\<lparr>sd_rx := drop count (sd_rx s)\<rparr>)"

definition sd_reset_input_buffer :: "sim_device \<Rightarrow> sim_device" where
  "sd_reset_input_buffer s = s\<lparr>sd_rx := []\<rparr>"

definition sd_factory_reset :: "sim_device \<Rightarrow> sim_device" where
  "sd_factory_reset s = s\<lparr>sd_rx := [], sd_lib := sim_init (sd_lib s)\<rparr>"

definition sd_reboot :: "sim_device \<Rightarrow> sim_device" where
  "sd_reboot s = s\<lparr>sd_rx := [], sd_lib := sim_reboot (sd_lib s)\<rparr>"

definition sd_boot :: "sim_device \<Rightarrow> (nat \<times> sim_device) option" where
  "sd_boot s = do { (target, lib) \<leftarrow> sim_boot (sd_lib s); Some (unat target, s\<lparr>sd_lib := lib\<rparr>) }"

definition sd_confirm :: "sim_device \<Rightarrow> (nat \<times> sim_device) option" where
  "sd_confirm s = do { (result, lib) \<leftarrow> sim_confirm (sd_lib s); Some (unat result, s\<lparr>sd_lib := lib\<rparr>) }"

definition sd_metadata :: "sim_device \<Rightarrow> (nat \<times> nat \<times> nat) option option" where
  "sd_metadata s = do {
     (result, active, state, attempts) \<leftarrow> sim_meta (sd_lib s) False False False;
     Some (if result \<noteq> 0 then None
           else Some (unat (the active), unat (the state), unat (the attempts)))
   }"

definition sd_reset_requested :: "sim_device \<Rightarrow> bool" where
  "sd_reset_requested s \<longleftrightarrow> sim_reset_requested (sd_lib s) \<noteq> 0"

text \<open>\<open>ctypes\<close> reduces an integer argument to 32 bits.\<close>

definition sd_slot_base :: "nat \<Rightarrow> nat" where
  "sd_slot_base slot = unat (sim_slot_base (of_nat slot))"

definition sd_slot_size :: "nat \<Rightarrow> nat" where
  "sd_slot_size slot = unat (sim_slot_size (of_nat slot))"

definition sd_corrupt :: "sim_device \<Rightarrow> nat \<Rightarrow> nat \<Rightarrow> sim_device option" where
  "sd_corrupt s addr len = map_option (\<lambda>lib. s\<lparr>sd_lib := lib\<rparr>) (sim_corrupt (sd_lib s) (of_nat addr) (of_nat len))"

definition sd_fail_after_n_writes :: "sim_device \<Rightarrow> nat \<Rightarrow> sim_device" where
  "sd_fail_after_n_writes s n = s\<lparr>sd_lib := sim_fail_after_n_writes (sd_lib s) (of_nat n)\<rparr>"

definition sd_clear_failures :: "sim_device \<Rightarrow> sim_device" where
  "sd_clear_failures s = s\<lparr>sd_lib := sim_clear_failures (sd_lib s)\<rparr>"

end
