(* ===== verification/Bl_Host_Contract.thy ===== *)
theory Bl_Host_Contract
  imports Bl_Examples
begin

unbundle bit_operations_syntax

text \<open>
  The correctness statements of the host port (\<open>port/host/bl_port_host.c\<close>): when it
  jumps, what its flash accepts and keeps, the transport buffers, and the bounds of its
  arrays over every sequence of calls.
\<close>

lemma g_layout_nth:
  "layout_slot g_layout ! 0 = \<lparr>region_base = 0x08009000, region_size = 0x1B000\<rparr>"
  "layout_slot g_layout ! Suc 0 = \<lparr>region_base = 0x08024000, region_size = 0x1B000\<rparr>"
  "layout_meta g_layout ! 0 = \<lparr>region_base = 0x08008000, region_size = 0x800\<rparr>"
  "layout_meta g_layout ! Suc 0 = \<lparr>region_base = 0x08008800, region_size = 0x800\<rparr>"
  by (simp_all add: g_layout_def)

section \<open>The jump\<close>

lemma odd_unat: "odd (unat x) \<longleftrightarrow> bit x 0" for x :: u32
  using bit_unsigned_iff [where ?'a = nat and w = x and n = 0] by (simp add: bit_0)

lemma and_1_neq_0_iff: "x AND 1 \<noteq> 0 \<longleftrightarrow> odd (unat x)" for x :: u32
  by (simp add: and_one_eq odd_unat mod_2_eq_odd bit_0)

lemma unat_clear_bit_0: "odd (unat x) \<Longrightarrow> unat (x AND NOT 1) = unat x - 1" for x :: u32
proof -
  assume o: "odd (unat x)"
  then have "NOT x AND 1 = 0" by (auto simp: and_one_eq odd_unat mod_2_eq_odd bit_0)
  then have "x AND NOT 1 = x - 1" using disjunctive_diff_eq_and_not [of x 1] by simp
  moreover have "1 \<le> x" using o by (cases "x = 0") (auto simp: word_le_nat_alt Suc_le_eq unat_gt_0)
  ultimately show ?thesis by (simp add: unat_sub)
qed

lemma and_3_eq_0_iff: "x AND 3 = 0 \<longleftrightarrow> unat x mod 4 = 0" for x :: u32
proof -
  have "x AND 3 = take_bit 2 x" by (simp add: take_bit_eq_mask mask_eq_exp_minus_1)
  moreover have "take_bit 2 x = 0 \<longleftrightarrow> unat (take_bit 2 x) = 0" by (simp only: unat_eq_0)
  moreover have "unat (take_bit 2 x) = unat x mod 4" by (simp add: take_bit_eq_mod unat_mod_distrib)
  ultimately show ?thesis by simp
qed

text \<open>A vector table at \<open>base\<close> that belongs to the region from \<open>lo\<close> to \<open>hi\<close>, on unbounded numbers.\<close>

definition vector_table_in :: "(nat \<Rightarrow> u8) \<Rightarrow> nat \<Rightarrow> nat \<Rightarrow> nat \<Rightarrow> bool" where
  "vector_table_in m base lo hi \<longleftrightarrow>
     (let msp = unat (get_u32_le (bytes_at m base 4)); pc = unat (get_u32_le (bytes_at m (base + 4) 4)) in
      lo \<le> base \<and> base < hi \<and> base mod 512 = 0 \<and>
      0x20000000 \<le> msp \<and> msp \<le> 0x20010000 \<and> msp mod 4 = 0 \<and>
      odd pc \<and> lo \<le> pc - 1 \<and> pc - 1 < hi)"

lemma find_slot_iff:
  "find_slot_for_address base =
    (if 0x08009000 \<le> unat base \<and> unat base < 0x08024000 then Some (0x08009000, 0x08024000)
     else if 0x08024000 \<le> unat base \<and> unat base < 0x0803F000 then Some (0x08024000, 0x0803F000) else None)"
  by (simp add: find_slot_for_address_def g_layout_def Let_def word_le_nat_alt word_less_nat_alt)

lemma jump_ok_iff:
  "jump_ok m base \<longleftrightarrow> (\<exists>i<2. vector_table_in m (unat base)
     (region_lo (layout_slot g_layout ! i)) (region_hi (layout_slot g_layout ! i)))"
proof -
  have two: "(\<exists>i<2. Q i) \<longleftrightarrow> Q 0 \<or> Q (Suc 0)" for Q by (auto simp: less_2_cases_iff)
  define msp where "msp = get_u32_le (bytes_at m (unat base) 4)"
  define pc where "pc = get_u32_le (bytes_at m (unat base + 4) 4)"
  have "(HOST_SRAM_BASE \<le> msp \<and> msp \<le> HOST_SRAM_END \<and> msp AND 3 = 0 \<and>
      pc AND 1 \<noteq> 0 \<and> b \<le> pc AND NOT 1 \<and> pc AND NOT 1 < e) \<longleftrightarrow>
     (0x20000000 \<le> unat msp \<and> unat msp \<le> 0x20010000 \<and> unat msp mod 4 = 0 \<and>
      odd (unat pc) \<and> unat b \<le> unat pc - 1 \<and> unat pc - 1 < unat e)" for b e
    unfolding and_3_eq_0_iff and_1_neq_0_iff
    using unat_clear_bit_0 [of pc, simplified] by (auto simp: word_le_nat_alt word_less_nat_alt)
  note core = this
  show ?thesis
    unfolding jump_ok_def find_slot_iff two vector_table_in_def Let_def g_layout_nth
      msp_def [symmetric] pc_def [symmetric] core
    by auto
qed

text \<open>
  C36. The jump is taken only to a usable vector table: aligned to 512 bytes inside a
  slot, with a word-aligned stack pointer in SRAM and a Thumb reset vector inside the
  same slot. Otherwise nothing changes. Flash is never changed.
\<close>

theorem jump_guarded:
  "bl_jump_to_app h base =
     (if \<exists>i<2. vector_table_in (host_mem h) (unat base)
           (region_lo (layout_slot g_layout ! i)) (region_hi (layout_slot g_layout ! i))
      then h\<lparr>g_jump_target := base, g_jumped := True\<rparr> else h)"
  unfolding jump_eq jump_ok_iff ..

section \<open>Flash of the host port\<close>

lemma write_outcome:
  assumes "length d = unat n" and "n \<noteq> 0"
  shows "bl_flash_write h a (Some d) n = None \<longleftrightarrow>
    \<not> (0x08000000 \<le> unat a \<and> unat a + unat n \<le> 0x08040000 \<and> unat a mod 8 = 0 \<and> unat n mod 8 = 0 \<and>
       (\<forall>x. unat a \<le> x \<and> x < unat a + unat n \<longrightarrow> \<not> host_prog h x))" (is "_ \<longleftrightarrow> \<not> ?legal")
proof
  assume none: "bl_flash_write h a (Some d) n = None"
  show "\<not> ?legal"
  proof
    assume l: ?legal
    obtain h' where "bl_flash_write h a (Some d) n =
        Some (if n \<noteq> 0 \<and> g_write_call_count h \<ge> g_fail_write_from h then BL_ERR_FLASH_PROGRAM else BL_OK, h')"
      by (rule host_write [of a n d h]) (use l assms in auto)
    with none show False by simp
  qed
next
  assume nl: "\<not> ?legal"
  show "bl_flash_write h a (Some d) n = None"
  proof (rule ccontr)
    assume "bl_flash_write h a (Some d) n \<noteq> None"
    then have g: "flash_range_valid a n" "(a - HOST_FLASH_BASE) mod HOST_WRITE_GRANULARITY = 0"
      "n mod HOST_WRITE_GRANULARITY = 0"
      "\<not> list_ex (\<lambda>i. flash_byte_written (g_written h) (flash_offset a + of_nat i)) [0..<unat n]"
      using assms by (auto simp: bl_flash_write_def Let_def split: if_splits)
    have r: "0x08000000 \<le> unat a" "unat a + unat n \<le> 0x08040000" using g(1) by (auto simp: flash_range_valid_iff)
    have fresh: "\<not> host_prog h x" if "unat a \<le> x" "x < unat a + unat n" for x
    proof -
      from that have i: "x - unat a < unat n" by simp
      with g(4) have "\<not> flash_byte_written (g_written h) (flash_offset a + of_nat (x - unat a))"
        by (simp add: list_ex_iff)
      then show ?thesis
        using that r(1) unat_flash_offset_add [OF r i] by (simp add: flash_byte_written_iff host_prog_def)
    qed
    have al: "unat a mod 8 = 0"
      using g(2) sub_base_mod [OF r(1), of HOST_WRITE_GRANULARITY] by simp
    have "unat n mod 8 = 0"
      using arg_cong [OF g(3), of unat] by (simp only: unat_mod HOST_WRITE_GRANULARITY_def) simp
    with r al fresh have ?legal by simp
    with nl show False by (rule notE)
  qed
qed

lemma write_done:
  assumes w: "bl_flash_write h a (Some d) n = Some (BL_OK, h')" and "length d = unat n" and "n \<noteq> 0"
  shows "0x08000000 \<le> unat a" and "unat a + unat n \<le> 0x08040000"
    and "host_mem h' = mem_upd (host_mem h) (unat a) d"
    and "host_prog h' = mem_fill (host_prog h) (unat a) (unat n) True"
proof -
  from w have "bl_flash_write h a (Some d) n \<noteq> None" by simp
  then have l: "0x08000000 \<le> unat a" "unat a + unat n \<le> 0x08040000" "unat a mod 8 = 0" "unat n mod 8 = 0"
    and fresh: "\<And>x. unat a \<le> x \<Longrightarrow> x < unat a + unat n \<Longrightarrow> \<not> host_prog h x"
    unfolding write_outcome [OF assms(2,3)] not_not by simp_all
  obtain h2 where "bl_flash_write h a (Some d) n =
        Some (if n \<noteq> 0 \<and> g_write_call_count h \<ge> g_fail_write_from h then BL_ERR_FLASH_PROGRAM else BL_OK, h2)"
      "host_mem h2 = (if n \<noteq> 0 \<and> g_write_call_count h \<ge> g_fail_write_from h then host_mem h
           else mem_upd (host_mem h) (unat a) d)"
      "host_prog h2 = (if n \<noteq> 0 \<and> g_write_call_count h \<ge> g_fail_write_from h then host_prog h
           else mem_fill (host_prog h) (unat a) (unat n) True)"
    by (rule host_write [OF l assms(2) fresh])
  with w l(1,2) show "0x08000000 \<le> unat a" "unat a + unat n \<le> 0x08040000"
    "host_mem h' = mem_upd (host_mem h) (unat a) d" "host_prog h' = mem_fill (host_prog h) (unat a) (unat n) True"
    by (auto split: if_splits)
qed

text \<open>
  C37. The simulated flash aborts on exactly the violations of the programming contract:
  outside the array, off the 8-byte grid, or over a byte that is already programmed.
  What a write reports as done reads back, counts as programmed from then on -- so
  writing it again aborts -- and nothing else changes.
\<close>

theorem flash_write_contract:
  assumes "length d = unat n" and "n \<noteq> 0"
  shows "(bl_flash_write h a (Some d) n = None \<longleftrightarrow>
      \<not> (0x08000000 \<le> unat a \<and> unat a + unat n \<le> 0x08040000 \<and> unat a mod 8 = 0 \<and> unat n mod 8 = 0 \<and>
         (\<forall>x. unat a \<le> x \<and> x < unat a + unat n \<longrightarrow> \<not> host_prog h x))) \<and>
    (\<forall>h'. bl_flash_write h a (Some d) n = Some (BL_OK, h') \<longrightarrow>
      bl_flash_read h' a False n = Some (BL_OK, d) \<and>
      bl_flash_write h' a (Some d) n = None \<and>
      (\<forall>x. x < unat a \<or> unat a + unat n \<le> x \<longrightarrow>
         host_mem h' x = host_mem h x \<and> host_prog h' x = host_prog h x))"
proof (intro conjI allI impI write_outcome [OF assms])
  fix h'
  assume w: "bl_flash_write h a (Some d) n = Some (BL_OK, h')"
  note l = write_done(1,2) [OF w assms] and m = write_done(3,4) [OF w assms]
  show "bl_flash_read h' a False n = Some (BL_OK, d)"
    using host_read [OF l(1,2), of h'] bytes_at_mem_upd_same [of "host_mem h" "unat a" d] assms(1) m(1) by simp
  have "0 < unat n" using assms(2) by (simp add: unat_gt_0)
  then have "host_prog h' (unat a)" using m(2) by (simp add: mem_fill_def)
  with \<open>0 < unat n\<close> show "bl_flash_write h' a (Some d) n = None"
    unfolding write_outcome [OF assms] by (auto dest: spec [of _ "unat a"])
  fix x
  assume x: "x < unat a \<or> unat a + unat n \<le> x"
  then show "host_mem h' x = host_mem h x" "host_prog h' x = host_prog h x"
    using m assms(1) by (auto simp: mem_upd_def mem_fill_def)
qed

theorem flash_write_contract_witness:
  "bl_flash_write factory_host 0x08009004 (Some [1, 2, 3, 4, 5, 6, 7, 8]) 8 = None \<and>
   bl_flash_write factory_host 0x08009008 (Some [1, 2, 3, 4, 5, 6, 7, 8]) 8 \<noteq> None"
proof
  let ?d = "[1, 2, 3, 4, 5, 6, 7, 8] :: u8 list"
  show "bl_flash_write factory_host 0x08009004 (Some ?d) 8 = None"
    using flash_write_contract [of ?d 8 factory_host "0x08009004", THEN conjunct1] by simp
  show "bl_flash_write factory_host 0x08009008 (Some ?d) 8 \<noteq> None"
    using flash_write_contract [of ?d 8 factory_host "0x08009008", THEN conjunct1] by simp
qed

section \<open>Transport\<close>

text \<open>Reading until \<open>n\<close> calls have been made; the results and the bytes.\<close>

primrec rx_drain :: "nat \<Rightarrow> host \<Rightarrow> (bl_result \<times> u8) list" where
  "rx_drain 0 h = []"
| "rx_drain (Suc n) h =
     (case bl_transport_read_byte h False 0 of (r, b, h) \<Rightarrow> (r, b) # rx_drain n h)"

lemma rx_drain_eq:
  assumes "g_rx_pos h \<le> g_rx_len h" and "g_rx_len h \<le> length (g_rx h)"
  shows "rx_drain n h = map (\<lambda>b. (BL_OK, b)) (take n (drop (g_rx_pos h) (take (g_rx_len h) (g_rx h)))) @
    replicate (n - (g_rx_len h - g_rx_pos h)) (BL_ERR_TIMEOUT, 0)"
  using assms
proof (induction n arbitrary: h)
  case (Suc n)
  show ?case
  proof (cases "g_rx_pos h < g_rx_len h")
    case True
    then have "drop (g_rx_pos h) (take (g_rx_len h) (g_rx h)) =
        g_rx h ! g_rx_pos h # drop (Suc (g_rx_pos h)) (take (g_rx_len h) (g_rx h))"
      using Suc.prems by (simp add: Cons_nth_drop_Suc [symmetric])
    with True Suc.prems Suc.IH [of "h\<lparr>g_rx_pos := g_rx_pos h + 1\<rparr>"] show ?thesis
      by (simp add: bl_transport_read_byte_def)
  next
    case False
    with Suc.prems Suc.IH [of h] show ?thesis by (simp add: bl_transport_read_byte_def)
  qed
qed simp

text \<open>
  The receive side is a queue: the bytes loaded come out in order, one per call, and
  every further call reports a timeout. Loading more than 4096 bytes aborts.
\<close>

lemma rx_in_order:
  assumes "host_inv h"
  shows "if length xs \<le> 4096
    then \<exists>h'. bl_host_rx_load h (Some xs) (length xs) = Some h' \<and> host_inv h' \<and>
      rx_drain (length xs + k) h' = map (\<lambda>b. (BL_OK, b)) xs @ replicate k (BL_ERR_TIMEOUT, 0)
    else bl_host_rx_load h (Some xs) (length xs) = None"
proof (cases "length xs \<le> 4096")
  case True
  let ?h = "(if length xs > 0 then h\<lparr>g_rx := memcpy_at (g_rx h) 0 xs (length xs)\<rparr> else h)\<lparr>g_rx_len := length xs, g_rx_pos := 0\<rparr>"
  have len: "length (g_rx h) = 4096" using assms by (simp add: host_inv_def)
  have "bl_host_rx_load h (Some xs) (length xs) = Some ?h" using True by (simp add: bl_host_rx_load_def)
  moreover have "host_inv ?h" using assms True by (auto simp: host_inv_def)
  moreover have "rx_drain (length xs + k) ?h = map (\<lambda>b. (BL_OK, b)) xs @ replicate k (BL_ERR_TIMEOUT, 0)"
    using rx_drain_eq [of ?h] True len by (auto simp: memcpy_at_def)
  ultimately show ?thesis using True by auto
qed (simp add: bl_host_rx_load_def)

text \<open>Sending one buffer after the other.\<close>

fun tx_send :: "u8 list list \<Rightarrow> host \<Rightarrow> host option" where
  "tx_send [] h = Some h"
| "tx_send (b # bs) h =
     (case bl_transport_write h (Some b) (of_nat (length b)) of
        Some (BL_OK, h) \<Rightarrow> tx_send bs h
      | _ \<Rightarrow> None)"

lemma tx_send_eq:
  assumes "host_inv h" and "g_tx_len h + length (concat bs) \<le> 4096"
  shows "\<exists>h'. tx_send bs h = Some h' \<and> host_inv h' \<and> g_tx_len h' = g_tx_len h + length (concat bs) \<and>
    take (g_tx_len h') (g_tx h') = take (g_tx_len h) (g_tx h) @ concat bs"
  using assms
proof (induction bs arbitrary: h)
  case (Cons b bs)
  let ?h = "if b = [] then h
    else h\<lparr>g_tx := memcpy_at (g_tx h) (g_tx_len h) b (length b), g_tx_len := g_tx_len h + length b\<rparr>"
  have n: "unat (of_nat (length b) :: u32) = length b" using Cons.prems by (simp add: unat_of_nat)
  then have z: "(of_nat (length b) :: u32) = 0 \<longleftrightarrow> b = []" by (simp add: word_unat_eq_iff)
  have w: "bl_transport_write h (Some b) (of_nat (length b)) = Some (BL_OK, ?h)"
    using Cons.prems n z by (auto simp: bl_transport_write_def)
  have inv: "host_inv ?h" using Cons.prems by (auto simp: host_inv_def)
  have tk: "take (g_tx_len ?h) (g_tx ?h) = take (g_tx_len h) (g_tx h) @ b" and gl: "g_tx_len ?h = g_tx_len h + length b"
    using Cons.prems by (auto simp: memcpy_at_def host_inv_def)
  from Cons.IH [OF inv] Cons.prems gl obtain h' where
    h': "tx_send bs ?h = Some h'" "host_inv h'" "g_tx_len h' = g_tx_len ?h + length (concat bs)"
      "take (g_tx_len h') (g_tx h') = take (g_tx_len ?h) (g_tx ?h) @ concat bs" by auto
  have "take (g_tx_len h') (g_tx h') = take (g_tx_len h) (g_tx h) @ concat (b # bs)"
    unfolding h'(4) tk by simp
  moreover have "tx_send (b # bs) h = Some h'" using h'(1) w by simp
  ultimately show ?case using h'(2,3) gl by (intro exI [of _ h']) simp
qed simp

text \<open>
  The transmit side records everything sent, in order, until it is cleared: after the
  writes the host reads back the concatenation. A write that does not fit aborts instead
  of overrunning the buffer.
\<close>

lemma tx_in_order:
  assumes "host_inv h" and "length (concat bs) \<le> 4096"
  shows "\<exists>h'. tx_send bs (bl_host_tx_clear h) = Some h' \<and> bl_host_tx_size h' = length (concat bs) \<and>
    bl_host_tx_read h' False 4096 = Some (length (concat bs), concat bs)"
proof -
  have "host_inv (bl_host_tx_clear h)" using assms(1) by (simp add: host_inv_def bl_host_tx_clear_def)
  from tx_send_eq [OF this, of bs] assms(2) obtain h' where
    "tx_send bs (bl_host_tx_clear h) = Some h'" "g_tx_len h' = length (concat bs)"
    "take (g_tx_len h') (g_tx h') = concat bs" by (auto simp: bl_host_tx_clear_def)
  then show ?thesis using assms(2) by (auto simp: bl_host_tx_size_def bl_host_tx_read_def Let_def)
qed

section \<open>Every sequence of calls\<close>

text \<open>
  The states of the host port that any sequence of port calls and test hooks leads to from
  \<open>h0\<close>, with any arguments whose buffers are as long as the length passed; \<open>pokes\<close> says
  whether \<open>bl_host_flash_poke\<close> is among them. A call that aborts has no successor.
\<close>

inductive host_calls :: "bool \<Rightarrow> host \<Rightarrow> host \<Rightarrow> bool" for pokes h0 where
  calls_none: "host_calls pokes h0 h0"
| calls_init: "host_calls pokes h0 h \<Longrightarrow> host_calls pokes h0 (snd (bl_port_init h))"
| calls_erase: "host_calls pokes h0 h \<Longrightarrow> bl_flash_erase h a n = Some (r, h') \<Longrightarrow> host_calls pokes h0 h'"
| calls_write: "host_calls pokes h0 h \<Longrightarrow> bl_flash_write h a d n = Some (r, h') \<Longrightarrow>
    (\<forall>b. d = Some b \<longrightarrow> length b = unat n) \<Longrightarrow> host_calls pokes h0 h'"
| calls_read_byte: "host_calls pokes h0 h \<Longrightarrow> bl_transport_read_byte h o_null t = (r, b, h') \<Longrightarrow> host_calls pokes h0 h'"
| calls_send: "host_calls pokes h0 h \<Longrightarrow> bl_transport_write h d n = Some (r, h') \<Longrightarrow>
    (\<forall>b. d = Some b \<longrightarrow> length b = unat n) \<Longrightarrow> host_calls pokes h0 h'"
| calls_reset: "host_calls pokes h0 h \<Longrightarrow> host_calls pokes h0 (bl_reset h)"
| calls_jump: "host_calls pokes h0 h \<Longrightarrow> host_calls pokes h0 (bl_jump_to_app h a)"
| calls_rx_load: "host_calls pokes h0 h \<Longrightarrow> bl_host_rx_load h d k = Some h' \<Longrightarrow>
    (\<forall>b. d = Some b \<longrightarrow> length b = k) \<Longrightarrow> host_calls pokes h0 h'"
| calls_tx_clear: "host_calls pokes h0 h \<Longrightarrow> host_calls pokes h0 (bl_host_tx_clear h)"
| calls_time_set: "host_calls pokes h0 h \<Longrightarrow> host_calls pokes h0 (bl_host_time_set h t)"
| calls_time_advance: "host_calls pokes h0 h \<Longrightarrow> host_calls pokes h0 (bl_host_time_advance h t)"
| calls_fail_after: "host_calls pokes h0 h \<Longrightarrow> host_calls pokes h0 (bl_host_fail_after_n_writes h t)"
| calls_clear_failures: "host_calls pokes h0 h \<Longrightarrow> host_calls pokes h0 (bl_host_clear_failures h)"
| calls_reboot: "host_calls pokes h0 h \<Longrightarrow> host_calls pokes h0 (bl_host_reboot h)"
| calls_poke: "host_calls pokes h0 h \<Longrightarrow> pokes \<Longrightarrow> bl_host_flash_poke h a d k = Some h' \<Longrightarrow>
    (\<forall>b. d = Some b \<longrightarrow> length b = k) \<Longrightarrow> k < 2 ^ 32 \<Longrightarrow> host_calls pokes h0 h'"

lemmas host_hook_defs = bl_reset_def bl_host_tx_clear_def bl_host_time_set_def bl_host_time_advance_def
  bl_host_fail_after_n_writes_def bl_host_clear_failures_def bl_host_reboot_def

lemma transport_inv:
  "bl_transport_read_byte h o_null t = (r, b, h') \<Longrightarrow> host_inv h \<Longrightarrow>
   host_inv h' \<and> g_flash h' = g_flash h \<and> g_written h' = g_written h"
  "bl_transport_write h d n = Some (r, h') \<Longrightarrow> \<forall>b. d = Some b \<longrightarrow> length b = unat n \<Longrightarrow> host_inv h \<Longrightarrow>
   host_inv h' \<and> g_flash h' = g_flash h \<and> g_written h' = g_written h"
  "bl_host_rx_load h d k = Some h' \<Longrightarrow> \<forall>b. d = Some b \<longrightarrow> length b = k \<Longrightarrow> host_inv h \<Longrightarrow>
   host_inv h' \<and> g_flash h' = g_flash h \<and> g_written h' = g_written h"
  by (auto simp: bl_transport_read_byte_def bl_transport_write_def bl_host_rx_load_def host_inv_def Let_def
      word_neq_0_conv split: if_splits)

lemma flash_ops_inv:
  "bl_flash_erase h a n = Some (r, h') \<Longrightarrow> host_inv h \<Longrightarrow> host_inv h'"
  "bl_flash_write h a d n = Some (r, h') \<Longrightarrow> host_inv h \<Longrightarrow> host_inv h'"
  "bl_host_flash_poke h a d k = Some h' \<Longrightarrow> host_inv h \<Longrightarrow> host_inv h'"
  by (auto simp: bl_flash_erase_def bl_flash_write_def bl_host_flash_poke_def host_inv_def Let_def split: if_splits)

lemma write_null_data: "bl_flash_write h a None n = Some (r, h') \<Longrightarrow> h' = h"
  by (auto simp: bl_flash_write_def word_neq_0_conv split: if_splits)

lemma host_calls_inv: "host_calls pokes h0 h \<Longrightarrow> host_inv h0 \<Longrightarrow> host_inv h"
  by (induction rule: host_calls.induct)
    (auto simp: host_hook_defs host_inv_init jump_unchanged dest: transport_inv flash_ops_inv, auto simp: host_inv_def)







definition flash_blank :: "host \<Rightarrow> bool" where
  "flash_blank h \<longleftrightarrow> (\<forall>x. 0x08000000 \<le> x \<and> x < 0x08040000 \<and> \<not> host_prog h x \<longrightarrow> host_mem h x = 0xFF)"

lemma flash_blank_cong: "g_flash h' = g_flash h \<Longrightarrow> g_written h' = g_written h \<Longrightarrow> flash_blank h' = flash_blank h"
  by (simp add: flash_blank_def host_mem_def host_prog_def)

lemma flash_blank_erase:
  assumes "bl_flash_erase h a n = Some (r, h')" and "flash_blank h"
  shows "flash_blank h'"
proof (cases "n = 0")
  case True
  with assms show ?thesis by (auto simp: bl_flash_erase_def split: if_splits)
next
  case False
  with assms(1) have g: "flash_range_valid a n" "(a - HOST_FLASH_BASE) mod HOST_ERASE_GRANULARITY = 0"
    "n mod HOST_ERASE_GRANULARITY = 0" by (auto simp: bl_flash_erase_def split: if_splits)
  have r: "0x08000000 \<le> unat a" "unat a + unat n \<le> 0x08040000" using g(1) by (auto simp: flash_range_valid_iff)
  have al: "unat a mod 2048 = 0" using g(2) sub_base_mod [OF r(1), of HOST_ERASE_GRANULARITY] by simp
  have len: "unat n mod 2048 = 0"
    using arg_cong [OF g(3), of unat] by (simp only: unat_mod HOST_ERASE_GRANULARITY_def) simp
  obtain h2 where "bl_flash_erase h a n = Some (BL_OK, h2)"
    "host_mem h2 = mem_fill (host_mem h) (unat a) (unat n) 0xFF"
    "host_prog h2 = mem_fill (host_prog h) (unat a) (unat n) False"
    by (rule host_erase [OF r al len])
  with assms show ?thesis by (simp add: flash_blank_def mem_fill_def)
qed

lemma flash_blank_write:
  assumes "bl_flash_write h a d n = Some (r, h')" and "\<forall>b. d = Some b \<longrightarrow> length b = unat n" and "flash_blank h"
  shows "flash_blank h'"
proof (cases d)
  case None
  then show ?thesis using assms(1,3) write_null_data [of h a n r h'] by simp
next
  case (Some b)
  have len: "length b = unat n" using assms(2) Some by simp
  show ?thesis
  proof (cases "n = 0 \<or> r \<noteq> BL_OK")
    case True
    then show ?thesis
      using assms(1,3) Some flash_blank_cong [of h' h] by (auto simp: bl_flash_write_def Let_def split: if_splits)
  next
    case False
    then have w: "bl_flash_write h a (Some b) n = Some (BL_OK, h')" and n: "n \<noteq> 0" using assms(1) Some by auto
    from write_done(3,4) [OF w len n] assms(3) len show ?thesis by (auto simp: flash_blank_def mem_upd_def mem_fill_def)
  qed
qed

lemma init_blank: "flash_blank (snd (bl_port_init h))"
  by (auto simp: flash_blank_def host_mem_def bl_port_init_def mem_fill_def)

text \<open>
  The program map tells the truth: unless a test overwrites flash behind the model's
  back, a byte that is not marked as programmed reads as erased, after any sequence of
  calls, failures injected or not.
\<close>

lemma unprogrammed_reads_erased:
  assumes "host_calls False (snd (bl_port_init h0)) h" and "0x08000000 \<le> x" and "x < 0x08040000" and "\<not> host_prog h x"
  shows "host_mem h x = 0xFF"
proof -
  have "flash_blank h"
    using assms(1)
  proof (induction rule: host_calls.induct)
    case (calls_erase h a n r h')
    then show ?case by (blast intro: flash_blank_erase)
  next
    case (calls_write h a d n r h')
    then show ?case by (blast intro: flash_blank_write)
  next
    case (calls_read_byte h o_null t r b h')
    then show ?case using transport_inv(1) host_calls_inv host_inv_init flash_blank_cong by metis
  next
    case (calls_send h d n r h')
    then show ?case using transport_inv(2) host_calls_inv host_inv_init flash_blank_cong by metis
  next
    case (calls_rx_load h d k h')
    then show ?case using transport_inv(3) host_calls_inv host_inv_init flash_blank_cong by metis
  next
    case (calls_init h)
    show ?case by (rule init_blank)
  next
    case calls_none
    show ?case by (rule init_blank)
  qed (simp_all add: host_hook_defs flash_blank_def host_mem_def host_prog_def jump_unchanged)
  with assms(2-4) show ?thesis by (simp add: flash_blank_def)
qed

end
