(* ===== verification/Bl_Device.thy ===== *)
theory Bl_Device
  imports Bl_Host_Contract
begin

text \<open>
  The correctness statements of the storage side of the bootloader: metadata records,
  image validation, arming and confirming. They rest on the interpretations of the port
  interfaces on the host port; what holds for every port is stated for every port.
\<close>

text \<open>A device whose sequence counter is used up.\<close>

definition worn_host :: host where
  "worn_host = factory_host\<lparr>g_flash := mem_upd (\<lambda>_. 0xFF) 0x8000 (meta_bytes (meta_record (- 1) 0 BL_BOOT_CONFIRMED 0))\<rparr>"

lemma worn_host_inv [simp]: "host_inv worn_host"
  using factory_host_inv by (simp add: worn_host_def host_inv_def)

lemma worn_seq: "meta_seq_of g_layout (host_mem worn_host) = 2 ^ 32 - 1"
proof -
  have "bytes_at (host_mem worn_host) 0x08008000 16 = meta_bytes (meta_record (- 1) 0 BL_BOOT_CONFIRMED 0)"
    using bytes_at_mem_upd_same [of "\<lambda>_. 0xFF" "0x8000" "meta_bytes (meta_record (- 1) 0 BL_BOOT_CONFIRMED 0)"]
    by (simp add: bytes_at_host_mem worn_host_def)
  then have "meta_view g_layout (host_mem worn_host) 0 = Some (meta_record (- 1) 0 BL_BOOT_CONFIRMED 0)"
    using region_record_meta_record [of 0 BL_BOOT_CONFIRMED "- 1" 0]
    by (simp add: meta_view_def g_layout_def state_is_valid_def)
  moreover have "bytes_at (host_mem worn_host) 0x08008800 16 = replicate 16 0xFF"
    by (intro nth_equalityI) (simp_all add: bytes_at_host_mem worn_host_def bytes_at_mem_upd_other)
  then have "meta_view g_layout (host_mem worn_host) 1 = None"
    using region_record_erased by (simp add: meta_view_def g_layout_def)
  ultimately show ?thesis by (simp add: meta_seq_of_def meta_authoritative_def unsigned_minus_1_eq_mask mask_eq_exp_minus_1)
qed

text \<open>The demonstration device with the flash byte at an offset overwritten.\<close>

definition scratched :: "nat \<Rightarrow> host" where
  "scratched k = demo_host\<lparr>g_flash := (g_flash demo_host)(k := 0xFF)\<rparr>"

lemma scratched_inv [simp]: "host_inv (scratched k)"
  using demo_host_inv by (simp add: host_inv_def scratched_def)

lemma scratched_mem: "host_mem (scratched k) = (host_mem demo_host)(0x08000000 + k := 0xFF)"
  by (auto simp: host_mem_def scratched_def fun_eq_iff)

text \<open>
  Headers and metadata records end in the checksum of what comes before it. Two such
  strings never differ in a burst of one to four bytes.
\<close>

definition sealed :: "u8 list \<Rightarrow> bool" where
  "sealed bs \<longleftrightarrow> get_u32_le (drop (length bs - 4) bs) = bl_crc32 0 (take (length bs - 4) bs)"

lemma sealed_crc:
  assumes "sealed bs" and "4 \<le> length bs"
  shows "bl_crc32 0 bs = bl_crc32 0 (put_u32_le (bl_crc32 0 []))"
proof -
  have "drop (length bs - 4) bs = put_u32_le (bl_crc32 0 (take (length bs - 4) bs))"
    using assms put_get_u32_le [of "drop (length bs - 4) bs"] by (simp add: sealed_def)
  then have "bs = take (length bs - 4) bs @ put_u32_le (bl_crc32 0 (take (length bs - 4) bs))"
    by (metis append_take_drop_id)
  then show ?thesis using bl_crc32_residue [of "take (length bs - 4) bs" "[]"] by simp
qed

lemma sealed_burst:
  assumes "sealed (xs @ ds @ ys)" and "4 \<le> length (xs @ ds @ ys)"
    and "length ds = length es" and "length es \<le> 4" and "ds \<noteq> es"
  shows "\<not> sealed (xs @ es @ ys)"
  using sealed_crc [OF assms(1,2)] sealed_crc [of "xs @ es @ ys"] bl_crc32_burst [OF assms(3-5), of 0 xs ys] assms(2,3)
  by auto

lemma sealed_header: "sealed (bytes_at m a 40) \<longleftrightarrow>
    hdr_crc32 (hdr_of_bytes (bytes_at m a 40)) = bl_crc32 0 (take 36 (bytes_at m a 40))"
  by (simp add: sealed_def hdr_of_bytes_def)

lemma sealed_record:
  assumes "length bs = 16"
  shows "sealed bs \<longleftrightarrow> meta_crc32 (meta_of_bytes bs) = meta_crc (meta_of_bytes bs)"
proof -
  have "bs = take 4 bs @ [bs ! 4, bs ! 5, bs ! 6] @ take 5 (drop 7 bs) @ drop 12 bs"
    using assms by (intro nth_equalityI) (auto simp: nth_append nth_Cons' intro!: arg_cong [of _ _ "(!) bs"])
  then have "take 12 (meta_bytes (meta_of_bytes bs)) = take 12 bs"
    using assms by (simp add: meta_bytes_def meta_of_bytes_def) 
  then show ?thesis using assms by (simp add: sealed_def meta_crc_def meta_of_bytes_def)
qed

section \<open>Boot metadata\<close>

text \<open>
  C9. A metadata commit on the simulated device is all or nothing, whatever failure is
  injected: with \<open>BL_OK\<close> the record written is the authoritative one, with any other
  result -- it can only be \<open>BL_ERR_FLASH_PROGRAM\<close> -- the authoritative record is the
  one from before. The slots are untouched. (The sequence number must not wrap.)
\<close>

theorem commit_all_or_nothing:
  assumes "host_inv h" and "slot_is_valid a" and "state_is_valid t"
    and "meta_seq_of g_layout (host_mem h) < 2 ^ 32 - 1"
  shows "\<exists>res h'. bl_meta_commit host_port a t n h = Some (res, h') \<and> host_inv h' \<and>
    slots_agree g_layout (host_mem h') (host_mem h) \<and>
    (if res = BL_OK
     then bl_meta_read host_port False h' =
            Some (Inr (meta_record (of_nat (meta_seq_of g_layout (host_mem h) + 1)) a t n))
     else res = BL_ERR_FLASH_PROGRAM \<and>
          bl_meta_read host_port False h' = bl_meta_read host_port False h)"
proof -
  let ?L = "port_layout host_port"
  have nz: "fst (commit_target (meta_authoritative ?L (host_mem h))) \<noteq> 0"
    using assms(4) unfolding next_seq_eq_0_iff by simp
  note seq = next_seq_of_nat [of g_layout "host_mem h"]
  show ?thesis
  proof (rule host.commit_atomic [OF assms(1) assms(2) [unfolded slot_is_valid_def] assms(3) host_meta_erasable, of n])
    fix res h'
    assume c: "bl_meta_commit host_port a t n h = Some (res, h')" "host_inv h'"
      "slots_agree ?L (host_mem h') (host_mem h)"
      and ok: "res = BL_OK \<longrightarrow> fst (commit_target (meta_authoritative ?L (host_mem h))) \<noteq> 0 \<longrightarrow>
        meta_authoritative ?L (host_mem h') =
          Some (meta_record (fst (commit_target (meta_authoritative ?L (host_mem h)))) a t n,
                snd (commit_target (meta_authoritative ?L (host_mem h))))"
      and bad: "res \<noteq> BL_OK \<longrightarrow> res = BL_ERR_FLASH_PROGRAM \<and>
        meta_authoritative ?L (host_mem h') = meta_authoritative ?L (host_mem h)"
    have "if res = BL_OK
     then bl_meta_read host_port False h' =
            Some (Inr (meta_record (of_nat (meta_seq_of g_layout (host_mem h) + 1)) a t n))
     else res = BL_ERR_FLASH_PROGRAM \<and>
          bl_meta_read host_port False h' = bl_meta_read host_port False h"
      using ok bad nz seq by (simp add: host.bl_meta_read_eq [OF c(2)] host.bl_meta_read_eq [OF assms(1)])
    with c show ?thesis by auto
  qed
qed

theorem commit_all_or_nothing_witness:
  "\<exists>res h'. bl_meta_commit host_port 0 BL_BOOT_CONFIRMED 0 demo_host = Some (res, h') \<and>
     (if res = BL_OK
      then bl_meta_read host_port False h' = Some (Inr (meta_record 2 0 BL_BOOT_CONFIRMED 0))
      else bl_meta_read host_port False h' = bl_meta_read host_port False demo_host)"
  using commit_all_or_nothing [of demo_host 0 BL_BOOT_CONFIRMED 0]
  by (simp add: slot_is_valid_iff state_is_valid_def split: if_splits) metis




text \<open>
  The proviso is needed. \<open>read_region\<close> reports a region it cannot read as one without a
  record, so a single read error, which the contract of \<open>bl_flash_read\<close> allows, makes the
  commit take the region of the only record for its target: it erases it, and a failing
  write then leaves the device without metadata, for good.
\<close>

definition read_fault_port :: "nat \<Rightarrow> bl_result \<Rightarrow> host bl_port" where
  "read_fault_port i e = host_port\<lparr>port_flash_read := \<lambda>h addr dst_null len.
     if addr = region_base (layout_meta g_layout ! i) then Some (e, []) else bl_flash_read h addr dst_null len\<rparr>"

lemma read_fault_port_simps [simp]:
  "port_layout (read_fault_port i e) = g_layout"
  "port_flash_erase (read_fault_port i e) = bl_flash_erase"
  "port_flash_write (read_fault_port i e) = bl_flash_write"
  "port_write_granularity (read_fault_port i e) = 8"
  "port_erase_granularity (read_fault_port i e) = bl_flash_erase_granularity"
  "port_crc32 (read_fault_port i e) = bl_crc32"
  "port_jump_to_app (read_fault_port i e) = bl_jump_to_app"
  "port_flash_read (read_fault_port i e) h addr nul len =
     (if addr = region_base (layout_meta g_layout ! i) then Some (e, []) else bl_flash_read h addr nul len)"
  by (simp_all add: read_fault_port_def)

lemma read_fault_legal [simp]: "erase_legal (read_fault_port i e) = erase_legal host_port"
  by (simp add: erase_legal_def fun_eq_iff)

lemma read_fault_flash_port:
  assumes "e \<noteq> BL_OK"
  shows "flash_port (read_fault_port i e) host_inv host_mem host_prog 0x08000000 0x08040000"
  using assms host.layout_ok host.granule host.hi_bound host.erase_granularity_defined host.crc_ok
    host.read_contract host.erase_contract host.write_contract host.jump_frame
  by unfold_locales simp_all

lemma failed_read_loses_record:
  assumes "e \<noteq> BL_OK"
  shows "\<exists>h'. bl_meta_read host_port False demo_host = Some (Inr (meta_record 1 1 BL_BOOT_TRIAL 0)) \<and>
    bl_meta_commit (read_fault_port 0 e) 1 BL_BOOT_TRIAL 1 (bl_host_fail_after_n_writes demo_host 0) =
      Some (BL_ERR_FLASH_PROGRAM, h') \<and>
    bl_meta_read host_port False h' = Some (Inl BL_ERR_NO_METADATA)"
proof -
  let ?P = "read_fault_port 0 e" and ?h = "bl_host_fail_after_n_writes demo_host 0"
  have mem: "host_mem ?h = host_mem demo_host" by (simp add: bl_host_fail_after_n_writes_def host_mem_def fun_eq_iff)
  have inv: "host_inv ?h" using demo_host_inv by (simp add: host_inv_def bl_host_fail_after_n_writes_def)
  have "region_readable ?P ?h 1 \<and> \<not> region_readable ?P ?h 0"
    using assms by (simp add: region_readable_def read_fault_port_def g_layout_def bl_flash_read_def flash_range_valid_iff Let_def)
  moreover have other: "meta_view g_layout (host_mem demo_host) 1 = None"
    using demo_bytes(4) by (simp add: meta_view_def g_layout_def)
  ultimately have none: "find_newest ?P ?h = Some None"
    using flash_port.read_region_seen [OF read_fault_flash_port [OF assms] inv, of 0]
      flash_port.read_region_seen [OF read_fault_flash_port [OF assms] inv, of 1]
    by (simp add: find_newest_def upt_conv_Cons newer_def mem)
  have "\<exists>h1. bl_flash_erase ?h 0x08008000 0x800 = Some (BL_OK, h1) \<and>
      host_mem h1 = mem_fill (host_mem ?h) 0x08008000 0x800 0xFF \<and>
      host_prog h1 = mem_fill (host_prog ?h) 0x08008000 0x800 False"
    by (rule host_erase [of "0x08008000" "0x800" ?h]) auto
  then obtain h1 where h1: "bl_flash_erase ?h 0x08008000 0x800 = Some (BL_OK, h1)"
    "host_mem h1 = mem_fill (host_mem ?h) 0x08008000 0x800 0xFF"
    "host_prog h1 = mem_fill (host_prog ?h) 0x08008000 0x800 False" by blast
  have dead: "g_fail_write_from h1 = 0"
    using h1(1) by (auto simp: bl_flash_erase_def bl_host_fail_after_n_writes_def Let_def split: if_splits)
  let ?bs = "meta_bytes (meta_record 1 1 BL_BOOT_TRIAL 1)"
  have "\<exists>h2. bl_flash_write h1 0x08008000 (Some ?bs) 16 = Some (BL_ERR_FLASH_PROGRAM, h2) \<and> host_mem h2 = host_mem h1"
    by (rule host_write [of "0x08008000" 16 ?bs h1])
      (auto simp: h1(3) mem_fill_def dead length_demo_record simp del: BL_BOOT_TRIAL_def)
  then obtain h2 where h2: "bl_flash_write h1 0x08008000 (Some ?bs) 16 = Some (BL_ERR_FLASH_PROGRAM, h2)"
    "host_mem h2 = host_mem h1" by blast
  have "bytes_at (host_mem h2) 0x08008000 16 = replicate 16 0xFF"
    "bytes_at (host_mem h2) 0x08008800 16 = bytes_at (host_mem demo_host) 0x08008800 16"
    by (auto intro!: nth_equalityI simp: h2(2) h1(2) mem mem_fill_def)
  then have "meta_view g_layout (host_mem h2) 0 = None" "meta_view g_layout (host_mem h2) 1 = None"
    using other by (simp_all add: meta_view_def g_layout_def)
  then have lost: "meta_authoritative g_layout (host_mem h2) = None" by (simp add: meta_authoritative_def)
  have inv2: "host_inv h2" using flash_ops_inv(2) [OF h2(1)] flash_ops_inv(1) [OF h1(1)] inv by blast
  have "bl_meta_commit ?P 1 BL_BOOT_TRIAL 1 ?h = Some (BL_ERR_FLASH_PROGRAM, h2)"
    using h1(1) h2(1)
    by (simp add: bl_meta_commit_def none commit_target_def Let_def state_is_valid_def g_layout_def
        bl_flash_erase_granularity_def word_le_nat_alt)
  then show ?thesis
    using host.bl_meta_read_eq [OF demo_host_inv] host.bl_meta_read_eq [OF inv2] lost by simp
qed

text \<open>
  Reading: the record returned is a valid one of the two regions with the highest
  sequence number; without a valid region the result is \<open>BL_ERR_NO_METADATA\<close>.
\<close>

lemma meta_read_newest:
  assumes "host_inv h"
  shows "\<exists>res. bl_meta_read host_port False h = Some res \<and>
    (case res of
       Inl e \<Rightarrow> e = BL_ERR_NO_METADATA \<and>
         meta_view g_layout (host_mem h) 0 = None \<and> meta_view g_layout (host_mem h) 1 = None
     | Inr m \<Rightarrow> (\<exists>i<2. meta_view g_layout (host_mem h) i = Some m) \<and>
         (\<forall>i<2. \<forall>m'. meta_view g_layout (host_mem h) i = Some m' \<longrightarrow> meta_seq m' \<le> meta_seq m))"
proof (cases "meta_authoritative g_layout (host_mem h)")
  case None
  then show ?thesis
    using host.bl_meta_read_eq [OF assms] by (auto simp: meta_authoritative_def split: option.splits if_splits)
next
  case (Some mi)
  obtain m i where mi: "meta_authoritative g_layout (host_mem h) = Some (m, i)" using Some by (cases mi) simp
  then show ?thesis
    using host.bl_meta_read_eq [OF assms] meta_authoritative_Some [OF mi] meta_authoritative_newest [OF mi] by auto
qed

text \<open>
  C40. The limit of the sequence counter: once the newest record carries \<open>2^32 - 1\<close>, a
  commit may report \<open>BL_OK\<close> and yet the record read afterwards is the old one.
\<close>

theorem seq_exhausted:
  assumes "host_inv h" and "slot_is_valid a" and "state_is_valid t"
    and "meta_seq_of g_layout (host_mem h) = 2 ^ 32 - 1"
  shows "\<exists>res h'. bl_meta_commit host_port a t n h = Some (res, h') \<and> (host_ready h \<longrightarrow> res = BL_OK) \<and>
    bl_meta_read host_port False h' = bl_meta_read host_port False h"
proof -
  let ?L = "port_layout host_port"
  have z: "fst (commit_target (meta_authoritative ?L (host_mem h))) = 0"
    using assms(4) unfolding next_seq_eq_0_iff by simp
  show ?thesis
  proof (rule host.commit_atomic [OF assms(1) assms(2) [unfolded slot_is_valid_def] assms(3) host_meta_erasable, of n])
    fix res h'
    assume c: "bl_meta_commit host_port a t n h = Some (res, h')" "host_inv h'"
      and "res = BL_OK \<longrightarrow> fst (commit_target (meta_authoritative ?L (host_mem h))) = 0 \<longrightarrow>
        meta_authoritative ?L (host_mem h') = meta_authoritative ?L (host_mem h)"
      and "res \<noteq> BL_OK \<longrightarrow> res = BL_ERR_FLASH_PROGRAM \<and>
        meta_authoritative ?L (host_mem h') = meta_authoritative ?L (host_mem h)"
    then have "meta_authoritative ?L (host_mem h') = meta_authoritative ?L (host_mem h)" using z by blast
    then have "bl_meta_read host_port False h' = bl_meta_read host_port False h"
      by (simp add: host.bl_meta_read_eq [OF c(2)] host.bl_meta_read_eq [OF assms(1)])
    moreover have "host_ready h \<longrightarrow> res = BL_OK"
      using host.commit_ready [OF assms(1) assms(2) [unfolded slot_is_valid_def] assms(3) host_meta_erasable _ c(1)]
      by blast
    ultimately show ?thesis using c(1) by blast
  qed
qed

theorem seq_exhausted_witness:
  "\<exists>res h'. bl_meta_commit host_port 1 BL_BOOT_TRIAL 0 worn_host = Some (res, h') \<and>
     bl_meta_read host_port False h' = bl_meta_read host_port False worn_host"
  using seq_exhausted [OF worn_host_inv _ _ worn_seq, of 1 BL_BOOT_TRIAL 0]
  by (auto simp: slot_is_valid_iff state_is_valid_def)

text \<open>
  Erasing the metadata: both regions are erased, nothing else is touched, and the
  device is back in the state without metadata.
\<close>

lemma erase_all_forgets:
  assumes "host_inv h"
  shows "\<exists>h'. bl_meta_erase_all host_port h = Some (BL_OK, h') \<and> host_inv h' \<and>
    slots_agree g_layout (host_mem h') (host_mem h) \<and>
    bl_meta_read host_port False h' = Some (Inl BL_ERR_NO_METADATA)"
proof -
  have el: "erase_legal host_port 0x08008000 0x800" "erase_legal host_port 0x08008800 0x800"
    by (simp_all add: host_erase_legal)
  from host.erase_contract [OF assms _ _ el(1)] host.erase_succeeds [OF assms] obtain h1 where
    h1: "bl_flash_erase h 0x08008000 0x800 = Some (BL_OK, h1)" "host_inv h1"
      "\<forall>x. x < 0x08008000 \<or> 0x08008800 \<le> x \<longrightarrow> host_mem h1 x = host_mem h x"
      "\<forall>x. 0x08008000 \<le> x \<and> x < 0x08008800 \<longrightarrow> host_mem h1 x = 0xFF"
    by fastforce
  from host.erase_contract [OF h1(2) _ _ el(2)] host.erase_succeeds [OF h1(2)] obtain h2 where
    h2: "bl_flash_erase h1 0x08008800 0x800 = Some (BL_OK, h2)" "host_inv h2"
      "\<forall>x. x < 0x08008800 \<or> 0x08009000 \<le> x \<longrightarrow> host_mem h2 x = host_mem h1 x"
      "\<forall>x. 0x08008800 \<le> x \<and> x < 0x08009000 \<longrightarrow> host_mem h2 x = 0xFF"
    by fastforce
  have "bytes_at (host_mem h2) 0x08008000 16 = replicate 16 0xFF"
    "bytes_at (host_mem h2) 0x08008800 16 = replicate 16 0xFF"
    using h1(4) h2(3,4) by (auto intro!: nth_equalityI)
  then have "meta_authoritative g_layout (host_mem h2) = None"
    using region_record_erased by (simp add: meta_authoritative_def meta_view_def g_layout_def)
  then have "bl_meta_read host_port False h2 = Some (Inl BL_ERR_NO_METADATA)"
    using host.bl_meta_read_eq [OF h2(2)] by simp
  moreover have "bl_meta_erase_all host_port h = Some (BL_OK, h2)"
    using h1(1) h2(1) by (simp add: bl_meta_erase_all_def upt_rec g_layout_def)
  moreover have "slots_agree g_layout (host_mem h2) (host_mem h)"
    using h1(3) h2(3) by (auto simp: slots_agree_def g_layout_def less_2_cases_iff)
  ultimately show ?thesis using h2(2) by blast
qed

section \<open>Images\<close>

text \<open>
  C33. The payload checksum of validation, read in chunks of at most 256 bytes with the
  port's accelerator interface, is the checksum of the whole range in one pass; the loop
  ends and never leaves the range.
\<close>

theorem payload_checksum_in_chunks:
  assumes "host_inv h" and "0x08000000 \<le> unat address" and "unat address + unat remaining \<le> 0x08040000"
  shows "payload_crc_loop host_port h address remaining crc =
    Some (Inr (bl_crc32 crc (bytes_at (host_mem h) (unat address) (unat remaining))))"
  using assms by (intro host.payload_crc_loop_eq) simp_all

theorem payload_checksum_in_chunks_witness:
  "payload_crc_loop host_port factory_host 0x0803FF00 256 0 =
     Some (Inr (bl_crc32 0 (bytes_at (host_mem factory_host) 0x0803FF00 256)))"
  using payload_checksum_in_chunks [of factory_host "0x0803FF00" 256 0] by simp

text \<open>
  C15. Validation decides exactly the image specification: magic, version, header
  checksum, entry offset, size and payload checksum of the slot's bytes, the first
  failing check giving the error; a slot number out of range and a null header pointer
  are errors of their own. It reads only inside the slot and returns on every content
  of flash.
\<close>

theorem validate_decides_image:
  assumes "host_inv h"
  shows "bl_core_validate_slot host_port slot hdr_null h =
    Some (if hdr_null then Inl BL_ERR_NULL_POINTER
          else if slot \<noteq> 0 \<and> slot \<noteq> 1 then Inl BL_ERR_INVALID_ARGUMENT
          else slot_image g_layout (host_mem h) slot)"
proof (cases "hdr_null \<or> \<not> slot_is_valid slot")
  case True
  then show ?thesis by (auto simp: bl_core_validate_slot_def slot_is_valid_iff)
next
  case False
  then show ?thesis using host.validate_slot_eq [OF assms] by (auto simp: slot_is_valid_iff)
qed

theorem validate_decides_image_witness:
  "bl_core_validate_slot host_port 1 False demo_host = Some (Inr (image_hdr 2 vectors_b))"
  using validate_decides_image [OF demo_host_inv, of 1 False] by simp

text \<open>
  A packaged image that fits its slot validates, and the header read back is the
  packaged one.
\<close>

lemma packaged_image_validates:
  assumes "host_inv h" and "slot_is_valid slot" and "pl \<noteq> []" and "512 + length pl \<le> 0x1B000"
    and "bytes_at (host_mem h) (region_lo (layout_slot g_layout ! unat slot)) (512 + length pl) = image_bytes v pl"
  shows "bl_core_validate_slot host_port slot False h = Some (Inr (image_hdr v pl))"
proof -
  have "unat (region_size (layout_slot g_layout ! unat slot)) = 0x1B000"
    using assms(2) by (auto simp: slot_is_valid_iff g_layout_def)
  then show ?thesis
    using slot_image_packaged [OF assms(5,3)] host.validate_slot_eq [OF assms(1,2)] assms(4) by simp
qed

lemma slot_image_payload_burst:
  assumes "slot_image L m slot = Inr hdr"
    and "bytes_at m' (region_lo (layout_slot L ! unat slot)) 40 = bytes_at m (region_lo (layout_slot L ! unat slot)) 40"
    and "bytes_at m (region_lo (layout_slot L ! unat slot) + unat (entry_offset hdr)) (unat (img_size hdr)) = xs @ ds @ ys"
    and "bytes_at m' (region_lo (layout_slot L ! unat slot) + unat (entry_offset hdr)) (unat (img_size hdr)) = xs @ es @ ys"
    and "length es \<le> 4" and "ds \<noteq> es"
  shows "slot_image L m' slot = Inl BL_ERR_IMAGE_CRC"
proof -
  have "length ds = length es"
    using arg_cong [OF assms(3), of length] arg_cong [OF assms(4), of length] by simp
  then have "bl_crc32 0 (xs @ es @ ys) \<noteq> bl_crc32 0 (xs @ ds @ ys)"
    using bl_crc32_burst [of ds es 0 xs ys] assms(5,6) by simp
  with assms(1-4) show ?thesis by (auto simp: slot_image_def Let_def split: if_splits)
qed

text \<open>
  A damaged payload is found: if a slot holds a valid image and one to four
  consecutive payload bytes change while the header stays, validation reports
  \<open>BL_ERR_IMAGE_CRC\<close>.
\<close>

lemma damaged_payload_found:
  assumes "host_inv h'" and "slot_is_valid slot" and "slot_image g_layout m slot = Inr hdr"
    and "bytes_at (host_mem h') (region_lo (layout_slot g_layout ! unat slot)) 40 =
      bytes_at m (region_lo (layout_slot g_layout ! unat slot)) 40"
    and "bytes_at m (region_lo (layout_slot g_layout ! unat slot) + unat (entry_offset hdr)) (unat (img_size hdr)) =
      xs @ ds @ ys"
    and "bytes_at (host_mem h') (region_lo (layout_slot g_layout ! unat slot) + unat (entry_offset hdr))
      (unat (img_size hdr)) = xs @ es @ ys"
    and "length es \<le> 4" and "ds \<noteq> es"
  shows "bl_core_validate_slot host_port slot False h' = Some (Inl BL_ERR_IMAGE_CRC)"
  using slot_image_payload_burst [OF assms(3-8)] host.validate_slot_eq [OF assms(1,2)] by simp

text \<open>
  A damaged header is found: if one to four consecutive bytes of a valid image's
  40-byte header change, validation reports a bad magic number, version or header
  checksum, and never trusts the header's size or offset.
\<close>

lemma damaged_header_found:
  assumes "host_inv h'" and "slot_is_valid slot" and "is_ok (slot_image g_layout m slot)"
    and "bytes_at m (region_lo (layout_slot g_layout ! unat slot)) 40 = xs @ ds @ ys"
    and "bytes_at (host_mem h') (region_lo (layout_slot g_layout ! unat slot)) 40 = xs @ es @ ys"
    and "length es \<le> 4" and "ds \<noteq> es"
  shows "\<exists>e. bl_core_validate_slot host_port slot False h' = Some (Inl e) \<and>
    e \<in> {BL_ERR_MAGIC, BL_ERR_HDR_VERSION, BL_ERR_HDR_CRC}"
proof -
  let ?lo = "region_lo (layout_slot g_layout ! unat slot)"
  have len: "length ds = length es" "length (xs @ ds @ ys) = 40"
    using arg_cong [OF assms(4), of length] arg_cong [OF assms(5), of length] by simp_all
  have "sealed (bytes_at m ?lo 40)"
    using assms(3) unfolding sealed_header by (auto simp: slot_image_def Let_def split: if_splits)
  then have "\<not> sealed (bytes_at (host_mem h') ?lo 40)"
    unfolding assms(4,5) using sealed_burst [OF _ _ len(1) assms(6,7)] len(2) by simp
  then have "\<exists>e. slot_image g_layout (host_mem h') slot = Inl e \<and> e \<in> {BL_ERR_MAGIC, BL_ERR_HDR_VERSION, BL_ERR_HDR_CRC}"
    unfolding sealed_header by (auto simp: slot_image_def Let_def)
  then show ?thesis using host.validate_slot_eq [OF assms(1,2)] by simp
qed

text \<open>
  A metadata record damaged in one to four consecutive bytes is no longer a record.
\<close>

lemma damaged_record_found:
  assumes "meta_view L m i = Some r"
    and "bytes_at m (region_lo (layout_meta L ! i)) 16 = xs @ ds @ ys"
    and "bytes_at m' (region_lo (layout_meta L ! i)) 16 = xs @ es @ ys"
    and "length es \<le> 4" and "ds \<noteq> es"
  shows "meta_view L m' i = None"
proof -
  have len: "length ds = length es" "length (xs @ ds @ ys) = 16" "length (xs @ es @ ys) = 16"
    using arg_cong [OF assms(2), of length] arg_cong [OF assms(3), of length] by simp_all
  have "sealed (xs @ ds @ ys)"
    using assms(1,2) unfolding sealed_record [OF len(2)]
    by (auto simp: meta_view_def region_record_def Let_def split: if_splits)
  with sealed_burst [OF _ _ len(1) assms(4,5)] len(2) have "\<not> sealed (xs @ es @ ys)" by simp
  then show ?thesis
    using assms(3) unfolding sealed_record [OF len(3)] by (simp add: meta_view_def region_record_def Let_def)
qed

section \<open>Arming and confirming\<close>

text \<open>
  C34. Arming a slot: an invalid slot number or image is refused with the validation's
  error and no write; a valid image makes the boot status a fresh trial of that slot, or
  leaves it unchanged when the record could not be programmed or the sequence number is
  used up. The slots themselves are never touched.
\<close>

theorem mark_pending_arms:
  assumes "host_inv h"
  shows "\<exists>r h'. bl_core_mark_pending host_port a h = Some (r, h') \<and> host_inv h' \<and>
    slots_agree g_layout (host_mem h') (host_mem h) \<and>
    (if a \<noteq> 0 \<and> a \<noteq> 1 then r = BL_ERR_INVALID_ARGUMENT \<and> h' = h
     else case slot_image g_layout (host_mem h) a of
       Inl e \<Rightarrow> r = e \<and> h' = h
     | Inr _ \<Rightarrow>
         boot_status_of g_layout (host_mem h') = Trial a 0 \<and> r = BL_OK \<or>
         boot_status_of g_layout (host_mem h') = boot_status_of g_layout (host_mem h) \<and>
           (\<not> host_ready h \<and> r = BL_ERR_FLASH_PROGRAM \<or> meta_seq_of g_layout (host_mem h) = 2 ^ 32 - 1))"
proof (rule host.mark_pending_refines [OF assms host_meta_erasable, of a, unfolded host_port_simps])
  fix r h'
  assume "bl_core_mark_pending host_port a h = Some (r, h')" "host_inv h'"
    "slots_agree g_layout (host_mem h') (host_mem h)"
    "\<not> slot_is_valid a \<longrightarrow> r = BL_ERR_INVALID_ARGUMENT \<and> h' = h"
    "slot_is_valid a \<longrightarrow> (\<forall>e. slot_image g_layout (host_mem h) a = Inl e \<longrightarrow> r = e \<and> h' = h)"
    "slot_is_valid a \<and> is_ok (slot_image g_layout (host_mem h) a) \<longrightarrow>
      boot_status_of g_layout (host_mem h') = Trial a 0 \<and> r = BL_OK \<or>
      boot_status_of g_layout (host_mem h') = boot_status_of g_layout (host_mem h) \<and>
        (\<not> host_ready h \<and> r = BL_ERR_FLASH_PROGRAM \<or> meta_seq_of g_layout (host_mem h) = 2 ^ 32 - 1)"
  then show ?thesis
    by (intro exI [of _ r] exI [of _ h']) (cases "slot_image g_layout (host_mem h) a"; auto simp: slot_is_valid_iff)
qed

theorem mark_pending_arms_witness:
  "\<exists>r h'. bl_core_mark_pending host_port 0 demo_host = Some (r, h') \<and>
     (r = BL_OK \<longrightarrow> boot_status_of g_layout (host_mem h') = Trial 0 0)"
  using mark_pending_arms [OF demo_host_inv, of 0] by auto

text \<open>
  C35. Confirming: without metadata it is refused, on a confirmed device it succeeds
  without a write, and on a trial it makes the trial slot permanent; a failed write is
  reported and leaves the trial as it was. A second confirmation changes nothing.
\<close>

theorem confirm_settles_trial:
  assumes "host_inv h"
  shows "\<exists>r h'. bl_core_confirm host_port h = Some (r, h') \<and> host_inv h' \<and>
    slots_agree g_layout (host_mem h') (host_mem h) \<and>
    (case boot_status_of g_layout (host_mem h) of
       No_record \<Rightarrow> r = BL_ERR_NO_METADATA \<and> h' = h
     | Confirmed a \<Rightarrow> r = BL_OK \<and> h' = h
     | Trial a n \<Rightarrow>
         boot_status_of g_layout (host_mem h') = Confirmed a \<and> r = BL_OK \<and>
           bl_core_confirm host_port h' = Some (BL_OK, h') \<or>
         boot_status_of g_layout (host_mem h') = Trial a n \<and>
           (\<not> host_ready h \<and> r = BL_ERR_FLASH_PROGRAM \<or> meta_seq_of g_layout (host_mem h) = 2 ^ 32 - 1))"
proof (rule host.confirm_refines [OF assms host_meta_erasable, unfolded host_port_simps])
  fix r h'
  assume c: "bl_core_confirm host_port h = Some (r, h')" "host_inv h'"
    "slots_agree g_layout (host_mem h') (host_mem h)"
    and st: "boot_status_of g_layout (host_mem h) = No_record \<longrightarrow> r = BL_ERR_NO_METADATA \<and> h' = h"
    "\<forall>a. boot_status_of g_layout (host_mem h) = Confirmed a \<longrightarrow> r = BL_OK \<and> h' = h"
    "\<forall>a n. boot_status_of g_layout (host_mem h) = Trial a n \<longrightarrow>
      boot_status_of g_layout (host_mem h') = Confirmed a \<and> r = BL_OK \<or>
      boot_status_of g_layout (host_mem h') = boot_status_of g_layout (host_mem h) \<and>
        (\<not> host_ready h \<and> r = BL_ERR_FLASH_PROGRAM \<or> meta_seq_of g_layout (host_mem h) = 2 ^ 32 - 1)"
  have "bl_core_confirm host_port h' = Some (BL_OK, h')"
    if "boot_status_of g_layout (host_mem h') = Confirmed a" for a
    by (rule host.confirm_refines [OF c(2) host_meta_erasable, unfolded host_port_simps]) (use that in auto)
  with c st show ?thesis
    by (intro exI [of _ r] exI [of _ h']) (cases "boot_status_of g_layout (host_mem h)"; auto)
qed

theorem confirm_settles_trial_witness:
  "\<exists>r h'. bl_core_confirm host_port demo_host = Some (r, h') \<and>
     (r = BL_OK \<longrightarrow> boot_status_of g_layout (host_mem h') = Confirmed 1)"
  using confirm_settles_trial [OF demo_host_inv] by auto

end
