(* ===== verification/Bl_Protocol.thy ===== *)
theory Bl_Protocol
  imports Bl_Device
begin

text \<open>
  The correctness statements of the update protocol: what each command does, that every
  request is answered, and that a session never leaves the regions it is about. A
  request reaches the handler as the frame the parser delivers, \<open>is_request\<close>.
\<close>

section \<open>Requests\<close>

lemma request_write:
  assumes "is_request cmd (put_u32_le off @ d) request" and "length d \<le> 508"
  shows "req_offset request = unat off" and "req_data request = d" and "request_wf request"
    and "take 4 (frame_payload request) = put_u32_le off"
proof -
  have len: "unat (frame_len request) = 4 + length d" "length (frame_payload request) = 512"
    and pre: "take (4 + length d) (frame_payload request) = put_u32_le off @ d"
    using assms by (auto simp: is_request_def unat_of_nat unat_word_ariths)
  show t4: "take 4 (frame_payload request) = put_u32_le off"
    using arg_cong [OF pre, of "take 4"] by simp
  then show "req_offset request = unat off" by (simp add: req_offset_def)
  show "req_data request = d"
    using arg_cong [OF pre, of "drop 4"] len(1) by (simp add: req_data_def drop_take)
  show "request_wf request" using len assms(2) by (simp add: request_wf_def)
qed

lemma request_slot:
  assumes "is_request cmd [slot] request"
  shows "frame_len request = 1" and "frame_payload request ! 0 = slot"
proof -
  show "frame_len request = 1" using assms by (simp add: is_request_def)
  have "take 1 (frame_payload request) = [slot]" using assms by (simp add: is_request_def)
  then have "take 1 (frame_payload request) ! 0 = slot" by simp
  then show "frame_payload request ! 0 = slot" by simp
qed

lemma data_len_eq:
  assumes "request_wf request" and "req_data request \<noteq> []"
  shows "ucast (frame_len request) - 4 = (of_nat (length (req_data request)) :: u32)"
proof -
  have "5 \<le> unat (frame_len request)" using assms(2) length_req_data [OF assms(1)] by (cases "req_data request") auto
  from arg_cong [OF unat_data_len [OF this], of "of_nat :: nat \<Rightarrow> u32"] show ?thesis
    by (simp only: length_req_data [OF assms(1)] of_nat_unat ucast_id)
qed

text \<open>A request record for a command and a payload, as the parser builds it.\<close>

definition request_of :: "u8 \<Rightarrow> u8 list \<Rightarrow> bl_frame" where
  "request_of cmd pl =
     \<lparr>frame_cmd = cmd, frame_len = of_nat (length pl), frame_payload = pl @ replicate (512 - length pl) 0\<rparr>"

lemma is_request_of [simp]: "length pl \<le> 512 \<Longrightarrow> is_request cmd pl (request_of cmd pl)"
  by (simp add: is_request_def request_of_def)

definition resp_of :: "nat \<Rightarrow> bl_response" where
  "resp_of n = \<lparr>resp_buf = replicate n 0, resp_size = n, resp_len = 0\<rparr>"

lemma resp_wf_of [simp]: "resp_wf (resp_of n)" "resp_size (resp_of n) = n"
  by (simp_all add: resp_wf_def resp_of_def)

section \<open>Answers\<close>

text \<open>
  On any port, whatever a request holds: if the handler returns and the caller's
  buffer has the required 29 bytes, the buffer starts with exactly one well-formed frame
  that echoes the command and carries a status byte and at most 20 bytes of data, the
  length stored is that frame's, and the rest of the buffer is untouched.
\<close>

lemma every_request_answered:
  assumes "bl_core_handle_frame P no_null session request s resp = Some ((result, resp'), session', s')"
    and "resp_wf resp" and "BL_MIN_RESPONSE_SIZE \<le> resp_size resp"
  shows "\<exists>status data. result = BL_OK \<and> length data \<le> 20 \<and> resp_len resp' = 9 + length data \<and>
    resp_buf resp' = frame_bytes (frame_cmd request) (result_code status # data) @
      drop (resp_len resp') (resp_buf resp)"
proof -
  from handle_frame_replies [OF assms(2,1)] obtain status data where
    "(result, resp') = reply resp (frame_cmd request) status data" "length data \<le> 20" by blast
  then show ?thesis using assms(3) by (intro exI [of _ status] exI [of _ data]) (auto simp: reply_def)
qed

text \<open>
  A null pointer for the session, the request, the response or its length: the call
  fails with \<open>BL_ERR_NULL_POINTER\<close> and nothing is read or written.
\<close>

lemma null_pointers_refused:
  assumes "nulls \<noteq> no_null"
  shows "bl_core_handle_frame P nulls session request s resp = Some ((BL_ERR_NULL_POINTER, resp), session, s)"
  using assms by (cases nulls) (auto simp: bl_core_handle_frame_def no_null_def)

section \<open>The commands that only report\<close>

text \<open>
  HELLO on the device: protocol 1, header version, two slots of 0x1B000 bytes, write
  grain 8, erase grain 2048, at most 504 bytes per write, and the boot metadata -- slot,
  state and attempts of the authoritative record, or 0xFF, 0xFF, 0 without one. A HELLO
  with a payload is refused. Nothing changes.
\<close>

lemma hello_reports:
  assumes "host_inv h" and "is_request BL_CMD_HELLO pl request" and "length pl \<le> 512" and "resp_wf resp"
  shows "bl_core_handle_frame host_port no_null session request h resp =
    Some (if pl \<noteq> [] then reply resp BL_CMD_HELLO BL_ERR_INVALID_PACKET []
          else reply resp BL_CMD_HELLO BL_OK
            ([1, 1, 2] @ put_u32_le 0x1B000 @ put_u32_le 8 @ put_u32_le 2048 @ [0xF8, 0x01] @
             (case meta_authoritative g_layout (host_mem h) of
                Some (m, _) \<Rightarrow> [meta_active_slot m, meta_state m, meta_boot_attempts m]
              | None \<Rightarrow> [0xFF, 0xFF, 0])),
          session, h)"
proof -
  have c: "frame_cmd request = BL_CMD_HELLO" using assms(2) by (simp add: is_request_def)
  have l: "frame_len request = 0 \<longleftrightarrow> pl = []"
    using assms(2,3) by (simp add: is_request_def word_unat_eq_iff)
  show ?thesis
  proof (cases "pl = []")
    case False
    then show ?thesis using l by (simp only: dispatch(1) [OF c] handle_hello_def c) (simp add: respond_status [OF assms(4)])
  next
    case True
    have g: "bl_flash_erase_granularity 0x08009000 = Some 2048" by (simp add: bl_flash_erase_granularity_def)
    show ?thesis
      using l True
      by (simp only: dispatch(1) [OF c] handle_hello_def c host.bl_meta_read_eq [OF assms(1)])
        (simp add: g g_layout_nth respond_data [OF assms(4)] split: option.split prod.split)
  qed
qed

text \<open>
  VERIFY answers with the validation of the slot named: size, payload checksum and
  version of a valid image, the validation's error otherwise. Nothing changes.
\<close>

lemma verify_reports:
  assumes "host_inv h" and "is_request BL_CMD_VERIFY [slot] request" and "resp_wf resp"
  shows "bl_core_handle_frame host_port no_null session request h resp =
    Some (if slot \<noteq> 0 \<and> slot \<noteq> 1 then reply resp BL_CMD_VERIFY BL_ERR_INVALID_ARGUMENT []
          else case slot_image g_layout (host_mem h) slot of
            Inl e \<Rightarrow> reply resp BL_CMD_VERIFY e []
          | Inr hdr \<Rightarrow> reply resp BL_CMD_VERIFY BL_OK
              (put_u32_le (img_size hdr) @ put_u32_le (img_crc32 hdr) @ put_u32_le (fw_version hdr)),
          session, h)"
proof -
  have c: "frame_cmd request = BL_CMD_VERIFY" using assms(2) by (simp add: is_request_def)
  note r = request_slot [OF assms(2)]
  show ?thesis
  proof (cases "slot_is_valid slot")
    case True
    then have range: "\<not> (slot \<noteq> 0 \<and> slot \<noteq> 1)" by (simp add: slot_is_valid_iff)
    show ?thesis
      unfolding if_not_P [OF range] dispatch(4) [OF c] handle_verify_def c r Let_def
      by (simp add: True host.validate_slot_eq [OF assms(1) True] respond_simps [OF assms(3)] split: sum.split)
  next
    case False
    then show ?thesis
      by (simp only: dispatch(4) [OF c] handle_verify_def c r)
        (auto simp: respond_simps [OF assms(3)] slot_is_valid_iff)
  qed
qed

text \<open>
  RESET is deferred: the handler answers and sets the session's flag, but neither
  resets nor touches flash; with a payload it is refused and the flag stays.
\<close>

lemma reset_deferred:
  assumes "is_request BL_CMD_RESET pl request" and "length pl \<le> 512" and "resp_wf resp"
  shows "bl_core_handle_frame P no_null session request s resp =
    Some (if pl = [] then (reply resp BL_CMD_RESET BL_OK [], session\<lparr>reset_requested := True\<rparr>, s)
          else (reply resp BL_CMD_RESET BL_ERR_INVALID_PACKET [], session, s))"
proof -
  have c: "frame_cmd request = BL_CMD_RESET" using assms(1) by (simp add: is_request_def)
  have l: "frame_len request = 0 \<longleftrightarrow> pl = []"
    using assms(1,2) by (simp add: is_request_def word_unat_eq_iff)
  show ?thesis
    using l by (simp only: dispatch(6) [OF c] handle_reset_def c) (simp add: respond_status [OF assms(3)])
qed

section \<open>The commands that change flash\<close>

text \<open>
  ERASE_SLOT with a slot number 0 or 1 erases exactly that slot, clears its program
  marks and starts a session on it; any other payload is refused and changes nothing.
\<close>

lemma erase_slot_effect:
  assumes "host_inv h" and "is_request BL_CMD_ERASE_SLOT pl request" and "length pl \<le> 512" and "resp_wf resp"
  shows "if length pl = 1 \<and> slot_is_valid (hd pl)
    then \<exists>h'. bl_core_handle_frame host_port no_null session request h resp =
        Some (reply resp BL_CMD_ERASE_SLOT BL_OK [],
          session\<lparr>target_slot := hd pl, erased := True, highest_offset := 0, header_written := False\<rparr>, h') \<and>
      host_inv h' \<and> same_outside (layout_slot g_layout ! unat (hd pl)) (host_mem h) (host_mem h') \<and>
      (\<forall>x. region_lo (layout_slot g_layout ! unat (hd pl)) \<le> x \<and>
           x < region_hi (layout_slot g_layout ! unat (hd pl)) \<longrightarrow> host_mem h' x = 0xFF \<and> \<not> host_prog h' x)
    else \<exists>e. e \<noteq> BL_OK \<and> bl_core_handle_frame host_port no_null session request h resp =
        Some (reply resp BL_CMD_ERASE_SLOT e [], session, h)"
proof -
  have c: "frame_cmd request = BL_CMD_ERASE_SLOT" using assms(2) by (simp add: is_request_def)
  have l: "frame_len request = 1 \<longleftrightarrow> length pl = 1"
    using assms(2,3) by (simp add: is_request_def word_unat_eq_iff)
  have p: "length pl = 1 \<Longrightarrow> frame_payload request ! 0 = hd pl"
    using assms(2) by (cases pl) (auto intro!: request_slot(2))
  have legal: "erase_legal host_port (region_base (layout_slot g_layout ! unat a)) (region_size (layout_slot g_layout ! unat a))"
    if "slot_is_valid a" for a using that by (auto simp: slot_is_valid_iff g_layout_nth host_erase_legal)
  have chk: "erase_check host_port request = BL_OK \<longleftrightarrow> length pl = 1 \<and> slot_is_valid (hd pl)"
    using l p legal by (auto simp: erase_check_def Let_def)
  show ?thesis
  proof (cases "length pl = 1 \<and> slot_is_valid (hd pl)")
    case True
    then have ok: "erase_check host_port request = BL_OK" using chk by simp
    have "\<exists>h'. handle_erase_slot host_port session BL_CMD_ERASE_SLOT request h resp =
        Some (reply resp BL_CMD_ERASE_SLOT BL_OK [],
          session\<lparr>target_slot := hd pl, erased := True, highest_offset := 0, header_written := False\<rparr>, h') \<and>
      host_inv h' \<and> same_outside (layout_slot g_layout ! unat (hd pl)) (host_mem h) (host_mem h') \<and>
      (\<forall>x. region_lo (layout_slot g_layout ! unat (hd pl)) \<le> x \<and>
           x < region_hi (layout_slot g_layout ! unat (hd pl)) \<longrightarrow> host_mem h' x = 0xFF \<and> \<not> host_prog h' x)"
      by (rule host.erase_step [OF assms(1,4) ok, of session BL_CMD_ERASE_SLOT, unfolded p [OF True [THEN conjunct1]] host_port_simps],
          intro exI conjI; assumption)
    then show ?thesis unfolding if_P [OF True] dispatch(2) [OF c] c .
  next
    case False
    then have bad: "erase_check host_port request \<noteq> BL_OK" using chk by simp
    show ?thesis
      unfolding if_not_P [OF False] dispatch(2) [OF c] host.erase_refused [OF assms(4) bad] c using bad by blast
  qed
qed

text \<open>
  C26. The guards of WRITE, exactly: the request is answered with the first violated rule
  -- no data, no erase before, offset or length off the write grain, a second header, an
  offset below what was written, past the end of the slot -- and then nothing changes;
  when none is violated the data goes to the port, once, at the slot's base plus the
  offset. The checks agree with the rules on unbounded integers for every 32-bit offset.
\<close>

theorem write_guards_exact:
  assumes "is_request BL_CMD_WRITE pl request" and "length pl \<le> 512" and "resp_wf resp"
  shows "bl_core_handle_frame host_port no_null session request h resp =
    (if write_check host_port session request \<noteq> BL_OK
     then Some (reply resp BL_CMD_WRITE (write_check host_port session request) [], session, h)
     else case bl_flash_write h
         (region_base (layout_slot g_layout ! unat (target_slot session)) + of_nat (req_offset request))
         (Some (req_data request)) (of_nat (length (req_data request))) of
       None \<Rightarrow> None
     | Some (status, h') \<Rightarrow>
         Some (if status \<noteq> BL_OK then (reply resp BL_CMD_WRITE status [], session, h')
               else (reply resp BL_CMD_WRITE BL_OK (take 4 (frame_payload request)),
                 session\<lparr>header_written := header_written session \<or> req_offset request = 0,
                   highest_offset := max (highest_offset session)
                     (of_nat (req_offset request) + of_nat (length (req_data request)))\<rparr>, h')))"
proof -
  have c: "frame_cmd request = BL_CMD_WRITE" using assms(1) by (simp add: is_request_def)
  have wf: "request_wf request" by (rule is_request_wf [OF assms(1,2)])
  let ?off = "get_u32_le (take 4 (frame_payload request))"
  have off: "of_nat (req_offset request) = ?off" by (simp add: req_offset_def)
  have tk: "put_u32_le ?off = take 4 (frame_payload request)" using wf by (simp add: request_wf_def)
  have z: "?off = 0 \<longleftrightarrow> req_offset request = 0" by (simp add: req_offset_def unat_eq_0)
  have n: "ucast (frame_len request) - 4 = (of_nat (length (req_data request)) :: u32)"
    if "write_check host_port session request = BL_OK"
    using that by (intro data_len_eq [OF wf]) (auto simp: write_check_def Let_def split: if_splits)
  show ?thesis
    unfolding dispatch(3) [OF c] host.write_eq [OF wf assms(3)] c host_port_simps
    using n off by (auto simp: tk z split: option.splits bind_splits prod.splits)
qed

theorem write_guards_exact_witness:
  "bl_core_handle_frame host_port no_null session_zero (request_of BL_CMD_WRITE (put_u32_le 512 @ [1, 2, 3, 4])) demo_host (resp_of 29) =
     Some (reply (resp_of 29) BL_CMD_WRITE BL_ERR_NOT_ERASED [], session_zero, demo_host)"
proof -
  let ?q = "request_of BL_CMD_WRITE (put_u32_le 512 @ [1, 2, 3, 4])"
  have q: "is_request BL_CMD_WRITE (put_u32_le 512 @ [1, 2, 3, 4]) ?q" by (rule is_request_of) simp
  have "write_check host_port session_zero ?q = BL_ERR_NOT_ERASED"
    using request_write(2) [OF q] by (simp add: write_check_def Let_def session_zero_def)
  with write_guards_exact [OF q, of "resp_of 29" session_zero demo_host] show ?thesis by simp
qed

lemma host_write_status:
  "bl_flash_write h a (Some d) n = Some (r, h') \<Longrightarrow> n \<noteq> 0 \<Longrightarrow> r = (if host_ready h then BL_OK else BL_ERR_FLASH_PROGRAM)"
  by (auto simp: bl_flash_write_def host_ready_def Let_def split: if_splits)

text \<open>
  C27. What a write that passes the guards does in a session whose invariant holds (nothing
  at or above the highest offset is programmed) and, for offset 0, whose header bytes are
  still erased: with no injected failure due it is answered \<open>BL_OK\<close> with the offset echoed,
  the slot holds exactly the data at the offset, and the session moves on; with a failure
  due the answer is \<open>BL_ERR_FLASH_PROGRAM\<close> and flash and session are as before. No other
  byte of flash and no other program mark changes.
\<close>

theorem write_effect:
  assumes "host_inv h" and "session_inv g_layout (host_prog h) session"
    and "is_request BL_CMD_WRITE (put_u32_le off @ d) request" and "length d \<le> 508" and "resp_wf resp"
    and "write_check host_port session request = BL_OK"
    and "off = 0 \<longrightarrow> header_clear g_layout (host_prog h) (length d) session"
  shows "\<exists>h'. bl_core_handle_frame host_port no_null session request h resp =
      Some (if host_ready h
        then (reply resp BL_CMD_WRITE BL_OK (put_u32_le off),
          session\<lparr>header_written := header_written session \<or> off = 0,
            highest_offset := of_nat (max (unat (highest_offset session)) (unat off + length d))\<rparr>, h')
        else (reply resp BL_CMD_WRITE BL_ERR_FLASH_PROGRAM [], session, h')) \<and>
    host_inv h' \<and>
    (let a = region_lo (layout_slot g_layout ! unat (target_slot session)) + unat off in
      (\<forall>x. x < a \<or> a + length d \<le> x \<longrightarrow> host_mem h' x = host_mem h x \<and> host_prog h' x = host_prog h x) \<and>
      (if host_ready h then bytes_at (host_mem h') a (length d) = d
       else host_mem h' = host_mem h \<and> host_prog h' = host_prog h))"
proof -
  have c: "frame_cmd request = BL_CMD_WRITE" using assms(3) by (simp add: is_request_def)
  note r = request_write [OF assms(3,4)]
  have hdr: "req_offset request = 0 \<Longrightarrow> header_clear (port_layout host_port) (host_prog h) (length (req_data request)) session"
    using assms(7) r(1,2) by (simp add: unat_eq_0)
  have z: "off = 0 \<longleftrightarrow> unat off = 0" by (simp add: unat_eq_0)
  note d = dispatch(3) [OF c, of host_port session h resp, unfolded c]
  show ?thesis
  proof (rule host.write_step [OF assms(1) assms(2) [folded host_port_simps(1)] r(3) assms(5,6) hdr, of BL_CMD_WRITE,
        unfolded r host_port_simps], assumption)
    fix status h'
    let ?a = "region_lo (layout_slot g_layout ! unat (target_slot session)) + unat off"
    assume "handle_write host_port session BL_CMD_WRITE request h resp =
       (if status = BL_OK
        then Some (reply resp BL_CMD_WRITE BL_OK (put_u32_le off),
          session\<lparr>header_written := header_written session \<or> unat off = 0,
            highest_offset := of_nat (max (unat (highest_offset session)) (unat off + length d))\<rparr>, h')
        else Some (reply resp BL_CMD_WRITE status [], session, h'))" "host_inv h'"
      "\<forall>x. x < ?a \<or> ?a + length d \<le> x \<longrightarrow> host_mem h' x = host_mem h x \<and> host_prog h' x = host_prog h x"
      "status = BL_OK \<longrightarrow> bytes_at (host_mem h') ?a (length d) = d"
      "status \<noteq> BL_OK \<longrightarrow> status = BL_ERR_FLASH_PROGRAM \<and> host_mem h' = host_mem h \<and> host_prog h' = host_prog h"
    moreover assume "\<exists>a d k. k \<noteq> 0 \<and> bl_flash_write h a (Some d) k = Some (status, h')"
    then have "status = (if host_ready h then BL_OK else BL_ERR_FLASH_PROGRAM)" using host_write_status by blast
    ultimately show ?thesis by (intro exI [of _ h'] conjI) (auto simp: Let_def d z)
  qed
qed

text \<open>A session right after ERASE_SLOT on slot B of the factory device.\<close>

definition session_b :: bl_session where
  "session_b = session_zero\<lparr>target_slot := 1, erased := True\<rparr>"

lemma session_b_inv [simp]: "session_inv g_layout (host_prog factory_host) session_b"
  by (simp add: session_inv_def session_b_def session_zero_def slot_is_valid_iff)

theorem write_effect_witness:
  "\<exists>h'. bl_core_handle_frame host_port no_null session_b
       (request_of BL_CMD_WRITE (put_u32_le 512 @ [1, 2, 3, 4, 5, 6, 7, 8])) factory_host (resp_of 29) =
       Some (reply (resp_of 29) BL_CMD_WRITE BL_OK (put_u32_le 512), session_b\<lparr>highest_offset := 520\<rparr>, h') \<and>
     bytes_at (host_mem h') 0x08024200 8 = [1, 2, 3, 4, 5, 6, 7, 8] \<and>
     (\<forall>x < 0x08024200. host_mem h' x = host_mem factory_host x)"
proof -
  let ?d = "[1, 2, 3, 4, 5, 6, 7, 8] :: u8 list"
  let ?q = "request_of BL_CMD_WRITE (put_u32_le 512 @ ?d)"
  have q: "is_request BL_CMD_WRITE (put_u32_le 512 @ ?d) ?q" by (rule is_request_of) simp
  have "length ?d \<le> 508" by simp
  note r = request_write [OF q this]
  have chk: "write_check host_port session_b ?q = BL_OK"
    unfolding write_check_def r by (simp add: session_b_def session_zero_def g_layout_nth)
  have "session_b\<lparr>header_written := header_written session_b \<or> (512 :: u32) = 0,
      highest_offset := of_nat (max (unat (highest_offset session_b)) (unat (512 :: u32) + length ?d))\<rparr> =
      session_b\<lparr>highest_offset := 520\<rparr>"
    "region_lo (layout_slot g_layout ! unat (target_slot session_b)) + unat (512 :: u32) = 0x08024200"
    by (simp_all add: session_b_def session_zero_def g_layout_nth)
  note session = this
  have eight: "bytes_at m a (Suc (Suc (Suc (Suc (Suc (Suc (Suc (Suc 0)))))))) = bytes_at m a 8" for m a
    by (simp add: numeral_eq_Suc)
  from session write_effect [OF factory_host_inv session_b_inv q _ _ chk, of "resp_of 29"] show ?thesis
    by (auto simp: Let_def eight)
qed

section \<open>Whole sessions\<close>

text \<open>
  C11. A device that serves requests of a host which keeps the header write apart from the
  payload (header within the first 512 bytes, payload from there on, as the update tool
  does) never aborts: from any state reached by such requests and power cycles, every
  request returns, is answered, and changes nothing outside the slot or the one metadata
  region the command is about.
\<close>

theorem session_never_aborts:
  assumes "served host_port 512 h0 session h" and "host_inv h0"
    and "is_request cmd pl request" and "length pl \<le> 512" and "resp_wf resp" and "disciplined 512 request"
  shows "\<exists>status data session' h'.
    bl_core_handle_frame host_port no_null session request h resp = Some (reply resp cmd status data, session', h') \<and>
    length data \<le> 20 \<and> host_inv h' \<and> session_inv g_layout (host_prog h') session' \<and>
    confined g_layout cmd session' (host_mem h) (host_mem h') \<and>
    (cmd \<notin> {BL_CMD_ERASE_SLOT, BL_CMD_WRITE, BL_CMD_SET_ACTIVE} \<longrightarrow> h' = h)"
proof -
  have c: "frame_cmd request = cmd" using assms(3) by (simp add: is_request_def)
  have H: "\<forall>i<2. 512 \<le> unat (region_size (layout_slot (port_layout host_port) ! i))"
    by (auto simp: less_2_cases_iff g_layout_nth)
  from host.served_never_aborts [OF assms(1,2) H is_request_wf [OF assms(3,4)] assms(5,6), unfolded c host_port_simps(1)]
  show ?thesis by blast
qed

theorem session_never_aborts_witness:
  "\<exists>status data session' h'. bl_core_handle_frame host_port no_null session_zero
     (request_of BL_CMD_SET_ACTIVE [0]) demo_host (resp_of 29) =
       Some (reply (resp_of 29) BL_CMD_SET_ACTIVE status data, session', h') \<and> host_inv h'"
  using session_never_aborts [OF served_start demo_host_inv is_request_of, of "[0]" "resp_of 29" BL_CMD_SET_ACTIVE]
  by (simp add: disciplined_def request_of_def) blast

text \<open>
  Everything that can happen to a device: requests of any host, boots, confirmations, power
  cycles, and writes that are about to fail. A call that aborts has no successor.
\<close>

inductive device_run :: "host \<Rightarrow> bl_session \<Rightarrow> host \<Rightarrow> bool" for h0 where
  run_start: "device_run h0 session_zero h0"
| run_request:
    "device_run h0 session h \<Longrightarrow> request_wf request \<Longrightarrow> resp_wf resp \<Longrightarrow>
     bl_core_handle_frame host_port no_null session request h resp = Some (out, session', h') \<Longrightarrow>
     device_run h0 session' h'"
| run_boot: "device_run h0 session h \<Longrightarrow> bl_core_boot host_port h = Some (r, h') \<Longrightarrow> device_run h0 session h'"
| run_confirm: "device_run h0 session h \<Longrightarrow> bl_core_confirm host_port h = Some (r, h') \<Longrightarrow> device_run h0 session h'"
| run_power: "device_run h0 session h \<Longrightarrow> device_run h0 session_zero (bl_host_reboot h)"
| run_failures: "device_run h0 session h \<Longrightarrow> device_run h0 session (bl_host_fail_after_n_writes h n)"
| run_clear: "device_run h0 session h \<Longrightarrow> device_run h0 session (bl_host_clear_failures h)"

definition outside_regions :: "nat \<Rightarrow> bool" where
  "outside_regions x \<longleftrightarrow> x < 0x08008000 \<or> 0x0803F000 \<le> x"

definition protects :: "host \<Rightarrow> host \<Rightarrow> bool" where
  "protects h h' \<longleftrightarrow>
     host_inv h' \<and> (\<forall>x. outside_regions x \<longrightarrow> host_mem h' x = host_mem h x \<and> host_prog h' x = host_prog h x)"

lemma protects_trans: "protects h h' \<Longrightarrow> protects h' h'' \<Longrightarrow> protects h h''"
  by (simp add: protects_def)

lemma protects_refl: "host_inv h \<Longrightarrow> protects h h"
  by (simp add: protects_def)

lemma protects_region:
  assumes "host_inv h'" and "r \<in> set (layout_slot g_layout @ layout_meta g_layout)"
    and "\<forall>x. x < region_lo r \<or> region_hi r \<le> x \<longrightarrow> host_mem h' x = host_mem h x \<and> host_prog h' x = host_prog h x"
  shows "protects h h'"
  using assms by (auto simp: protects_def outside_regions_def g_layout_def)

lemma nth_meta: "i < 2 \<Longrightarrow> layout_meta g_layout ! i \<in> set (layout_slot g_layout @ layout_meta g_layout)"
  and nth_slot: "i < 2 \<Longrightarrow> layout_slot g_layout ! i \<in> set (layout_slot g_layout @ layout_meta g_layout)"
  by (auto simp: g_layout_def less_2_cases_iff)

lemma commit_protects:
  "bl_meta_commit host_port a t n h = Some (res, h') \<Longrightarrow> host_inv h \<Longrightarrow> protects h h'"
  using host.commit_frame [of h a t n res h'] by (auto intro: protects_region [OF _ nth_meta])

lemma boot_protects:
  "bl_core_boot host_port h = Some (r, h') \<Longrightarrow> host_inv h \<Longrightarrow> protects h h'"
  "bl_core_confirm host_port h = Some (r, h') \<Longrightarrow> host_inv h \<Longrightarrow> protects h h'"
proof -
  have advance: "protects h h1" if "advance_trial_state host_port h = Some h1" "host_inv h" for h h1
    using that by (auto simp: advance_trial_state_def Let_def intro: protects_refl
        split: if_splits bind_splits prod.splits sum.splits dest!: commit_protects)
  have jump: "protects h (bl_jump_to_app h1 a)" if "protects h h1" for h h1 a
    using that host.jump_frame [of h1 a] by (simp add: protects_def)
  show "bl_core_boot host_port h = Some (r, h') \<Longrightarrow> host_inv h \<Longrightarrow> protects h h'"
    by (auto simp: bl_core_boot_def Let_def intro: jump split: bind_splits prod.splits sum.splits dest!: advance)
  show "bl_core_confirm host_port h = Some (r, h') \<Longrightarrow> host_inv h \<Longrightarrow> protects h h'"
    by (auto simp: bl_core_confirm_def intro: protects_refl commit_protects
        split: if_splits bind_splits sum.splits)
qed

lemma host_write_frame:
  assumes w: "bl_flash_write h a (Some d) n = Some (r, h')" and "length d = unat n"
    and "x < unat a \<or> unat a + unat n \<le> x"
  shows "host_mem h' x = host_mem h x \<and> host_prog h' x = host_prog h x"
proof (cases "n = 0 \<or> r \<noteq> BL_OK")
  case True
  with w host_write_failed [OF w] show ?thesis by (auto simp: bl_flash_write_def split: if_splits)
next
  case False
  with write_done(3,4) [of h a d n h'] w assms(2,3) show ?thesis by (auto simp: mem_upd_def mem_fill_def)
qed

text \<open>A write that passes the guards stays inside the slot, whatever the session went through.\<close>

lemma write_target_region:
  assumes "slot_is_valid (target_slot session)" and wf: "request_wf request"
    and chk: "write_check host_port session request = BL_OK"
  shows "length (req_data request) = unat (ucast (frame_len request) - 4 :: u32) \<and>
    region_lo (layout_slot g_layout ! unat (target_slot session)) \<le>
      unat (region_base (layout_slot g_layout ! unat (target_slot session)) + get_u32_le (take 4 (frame_payload request))) \<and>
    unat (region_base (layout_slot g_layout ! unat (target_slot session)) + get_u32_le (take 4 (frame_payload request))) +
      unat (ucast (frame_len request) - 4 :: u32) \<le> region_hi (layout_slot g_layout ! unat (target_slot session))"
proof -
  let ?r = "layout_slot g_layout ! unat (target_slot session)"
  let ?off = "get_u32_le (take 4 (frame_payload request))"
  from chk have n: "length (req_data request) \<noteq> 0" "unat ?off + length (req_data request) \<le> unat (region_size ?r)"
    by (auto simp: write_check_def Let_def req_offset_def split: if_splits)
  have len: "length (req_data request) = unat (ucast (frame_len request) - 4 :: u32)"
    using n(1) length_req_data [OF wf] unat_data_len [of "frame_len request"] by simp
  note rr = host.slot_in_flash(2) [OF slot_is_valid_unat [OF assms(1)], unfolded host_port_simps]
  have "unat (region_base ?r + ?off) = region_lo ?r + unat ?off"
    using n rr by (simp add: unat_word_ariths)
  with len n(2) show ?thesis by simp
qed

lemma request_protects:
  assumes "host_inv h" and "slot_is_valid (target_slot session)" and "request_wf request" and "resp_wf resp"
    and ret: "bl_core_handle_frame host_port no_null session request h resp = Some (out, session', h')"
  shows "protects h h'"
proof -
  note slot = slot_is_valid_unat
  consider "frame_cmd request = BL_CMD_ERASE_SLOT" | "frame_cmd request = BL_CMD_WRITE"
    | "frame_cmd request = BL_CMD_SET_ACTIVE"
    | "frame_cmd request \<notin> {BL_CMD_ERASE_SLOT, BL_CMD_WRITE, BL_CMD_SET_ACTIVE}" by blast
  then show ?thesis
  proof cases
    case 1
    show ?thesis
    proof (cases "erase_check host_port request = BL_OK")
      case True
      then have v: "slot_is_valid (frame_payload request ! 0)" by (auto simp: erase_check_def Let_def split: if_splits)
      obtain h2 where "handle_erase_slot host_port session BL_CMD_ERASE_SLOT request h resp =
          Some (reply resp BL_CMD_ERASE_SLOT BL_OK [], session\<lparr>target_slot := frame_payload request ! 0,
            erased := True, highest_offset := 0, header_written := False\<rparr>, h2)" "host_inv h2"
        "same_outside (layout_slot g_layout ! unat (frame_payload request ! 0)) (host_mem h) (host_mem h2)"
        "same_outside (layout_slot g_layout ! unat (frame_payload request ! 0)) (host_prog h) (host_prog h2)"
        by (rule host.erase_step [OF assms(1,4) True, of session BL_CMD_ERASE_SLOT, unfolded host_port_simps])
      with ret show ?thesis
        by (auto simp: dispatch(2) [OF 1] 1 same_outside_def intro!: protects_region [OF _ nth_slot [OF slot [OF v]]]
            simp del: BL_CMD_ERASE_SLOT_def)
    next
      case False
      with ret assms(1) host.erase_refused [OF assms(4) False, of session BL_CMD_ERASE_SLOT h] show ?thesis
        by (auto simp: dispatch(2) [OF 1] 1 protects_refl simp del: BL_CMD_ERASE_SLOT_def)
    qed
  next
    case 2
    let ?r = "layout_slot g_layout ! unat (target_slot session)"
    let ?off = "get_u32_le (take 4 (frame_payload request))"
    show ?thesis
    proof (cases "h' = h")
      case False
      with ret obtain status where
        chk: "write_check host_port session request = BL_OK" and
        w: "bl_flash_write h (region_base ?r + ?off) (Some (req_data request)) (ucast (frame_len request) - 4) = Some (status, h')"
        unfolding dispatch(3) [OF 2] host.write_eq [OF assms(3,4)]
        by (auto split: if_splits bind_splits prod.splits)
      from write_target_region [OF assms(2,3) chk] have
        "length (req_data request) = unat (ucast (frame_len request) - 4 :: u32)"
        "region_lo ?r \<le> unat (region_base ?r + ?off)"
        "unat (region_base ?r + ?off) + unat (ucast (frame_len request) - 4 :: u32) \<le> region_hi ?r"
        by blast+
      with host_write_frame [OF w] have "\<forall>x. x < region_lo ?r \<or> region_hi ?r \<le> x \<longrightarrow>
          host_mem h' x = host_mem h x \<and> host_prog h' x = host_prog h x" by auto
      then show ?thesis
        by (intro protects_region [OF flash_ops_inv(2) [OF w assms(1)] nth_slot [OF slot [OF assms(2)]]])
    qed (use assms(1) protects_refl in simp)
  next
    case 3
    show ?thesis
    proof (cases "h' = h")
      case False
      with ret 3 obtain res where "bl_core_mark_pending host_port (frame_payload request ! 0) h = Some (res, h')"
        by (auto simp: dispatch(5) handle_set_active_def simp del: BL_CMD_SET_ACTIVE_def
            split: if_splits bind_splits prod.splits)
      from host.mark_pending_frame [OF assms(1) this] show ?thesis
        by (auto simp: same_outside_def intro!: protects_region [OF _ nth_meta])
    qed (use assms(1) protects_refl in simp)
  next
    case 4
    then show ?thesis using quiet_commands [OF 4 ret] assms(1) by (simp add: protects_refl)
  qed
qed

lemma handle_frame_target:
  assumes "bl_core_handle_frame P no_null session request s resp = Some (r, session', s')"
  shows "target_slot session' = target_slot session \<or> slot_is_valid (target_slot session')"
  using assms
  by (auto simp: bl_core_handle_frame_def no_null_def handle_hello_def handle_erase_slot_def handle_write_def
      handle_verify_def handle_set_active_def handle_reset_def Let_def
      split: if_splits bind_splits prod.splits sum.splits)

lemma device_run_protects:
  "device_run h0 session h \<Longrightarrow> host_inv h0 \<Longrightarrow> slot_is_valid (target_slot session) \<and> protects h0 h"
proof (induction rule: device_run.induct)
  case (run_request session h request resp out session' h')
  then have ih: "slot_is_valid (target_slot session)" "protects h0 h" by auto
  have "protects h h'"
    using request_protects [OF _ ih(1) run_request.hyps(2,3,4)] ih(2) by (simp add: protects_def)
  with ih handle_frame_target [OF run_request.hyps(4)] show ?case by (auto intro: protects_trans)
next
  case (run_boot session h r h')
  then show ?case using boot_protects(1) [OF run_boot.hyps(2)] by (auto simp: protects_def)
next
  case (run_confirm session h r h')
  then show ?case using boot_protects(2) [OF run_confirm.hyps(2)] by (auto simp: protects_def)
qed (auto simp: protects_def session_zero_def slot_is_valid_iff bl_host_reboot_def bl_host_fail_after_n_writes_def bl_host_clear_failures_def
    host_inv_def host_mem_def host_prog_def)

text \<open>
  C28. The bootloader protects itself. Whatever the host sends -- any well-formed requests in
  any order, also one that overwrites what it wrote before -- through power cycles, boots,
  confirmations and injected failures, as long as no call aborts the device: the flash
  outside the two slots and the two metadata regions, where the bootloader's own code is,
  keeps its bytes and its program marks.
\<close>

theorem bootloader_region_untouched:
  assumes "host_inv h0" and "device_run h0 session h" and "x < 0x08008000 \<or> 0x0803F000 \<le> x"
  shows "host_mem h x = host_mem h0 x \<and> host_prog h x = host_prog h0 x"
  using device_run_protects [OF assms(2,1)] assms(3) unfolding protects_def outside_regions_def by blast

theorem bootloader_region_untouched_witness:
  "\<exists>session' h'. device_run demo_host session' h' \<and> session' \<noteq> session_zero \<and>
     host_mem h' 0x08000200 = host_mem demo_host 0x08000200"
proof -
  let ?q = "request_of BL_CMD_ERASE_SLOT [1]"
  have q: "is_request BL_CMD_ERASE_SLOT [1] ?q" by (rule is_request_of) simp
  have ok: "erase_check host_port ?q = BL_OK"
    using request_slot [OF q] by (simp add: erase_check_def Let_def slot_is_valid_iff g_layout_nth host_erase_legal)
  obtain h' where h': "handle_erase_slot host_port session_zero BL_CMD_ERASE_SLOT ?q demo_host (resp_of 29) =
      Some (reply (resp_of 29) BL_CMD_ERASE_SLOT BL_OK [],
        session_zero\<lparr>target_slot := frame_payload ?q ! 0, erased := True, highest_offset := 0, header_written := False\<rparr>, h')"
    by (rule host.erase_step [OF demo_host_inv resp_wf_of(1) ok])
  have c: "frame_cmd ?q = BL_CMD_ERASE_SLOT" by (simp add: request_of_def)
  have "device_run demo_host (session_zero\<lparr>target_slot := frame_payload ?q ! 0, erased := True,
      highest_offset := 0, header_written := False\<rparr>) h'"
    by (rule run_request [OF run_start is_request_wf [OF q] resp_wf_of(1)
        dispatch(2) [OF c, of host_port session_zero demo_host "resp_of 29", unfolded c h']]) simp
  from this bootloader_region_untouched [OF demo_host_inv this, of "0x08000200"] show ?thesis
    by (intro exI conjI) (assumption, auto simp: session_zero_def)
qed

end
