(* ===== verification/Bl_Update.thy ===== *)
theory Bl_Update
  imports Bl_Protocol
begin

text \<open>
  An update over the wire, from the device's side: what the simulated device answers to each
  request of an update -- erase, payload in ascending chunks, header last, verify, set
  active -- and to the same request sent again, and what the slot holds afterwards;
  \<open>staged\<close> is what holds between the erase and the header.
\<close>

section \<open>Writes left before an injected failure\<close>

definition host_budget :: "host \<Rightarrow> nat" where
  "host_budget h = unat (g_fail_write_from h) - unat (g_write_call_count h)"

lemma host_ready_budget: "host_ready h \<longleftrightarrow> 0 < host_budget h"
  by (auto simp: host_ready_def host_budget_def word_less_nat_alt)

lemma write_budget:
  assumes "bl_flash_write h a d n = Some (r, h')"
  shows "host_budget h \<le> host_budget h' + 1"
proof -
  have "host_budget h \<le> host_budget (h\<lparr>g_write_call_count := g_write_call_count h + 1\<rparr>) + 1"
  proof (cases "unat (g_write_call_count h) + 1 < 2 ^ 32")
    case True
    then have "unat (g_write_call_count h + 1) = unat (g_write_call_count h) + 1" by (simp add: unat_word_ariths)
    then show ?thesis by (simp add: host_budget_def)
  next
    case False
    then show ?thesis
      using unsigned_less [of "g_fail_write_from h", where ?'a = nat] by (simp add: host_budget_def)
  qed
  with assms show ?thesis
    by (auto simp: bl_flash_write_def Let_def host_budget_def split: if_splits)
qed

lemma erase_budget: "bl_flash_erase h a n = Some (r, h') \<Longrightarrow> host_budget h' = host_budget h"
  by (auto simp: bl_flash_erase_def host_budget_def Let_def split: if_splits)

section \<open>The slot under update\<close>

text \<open>Between the erase and the header: the bytes \<open>pre\<close> are in place from offset \<open>e\<close> on, the header region
  is blank, nothing outside the slot has changed since \<open>h0\<close>.\<close>

definition staged :: "u8 \<Rightarrow> nat \<Rightarrow> u8 list \<Rightarrow> host \<Rightarrow> bl_session \<Rightarrow> host \<Rightarrow> bool" where
  "staged slot e pre h0 session h \<longleftrightarrow>
     (let r = layout_slot g_layout ! unat slot in
      host_inv h \<and> session_inv g_layout (host_prog h) session \<and> header_clear g_layout (host_prog h) 512 session \<and>
      target_slot session = slot \<and> erased session \<and> \<not> header_written session \<and>
      unat (highest_offset session) = (if pre = [] then 0 else e + length pre) \<and> same_outside r (host_mem h0) (host_mem h) \<and>
      bytes_at (host_mem h) (region_lo r + e) (length pre) = pre \<and>
      (\<forall>x<512. host_mem h (region_lo r + x) = 0xFF))"

lemma staged_inv: "staged slot e pre h0 session h \<Longrightarrow> host_inv h"
  by (simp add: staged_def Let_def)

lemma slot_size [simp]: "slot_is_valid slot \<Longrightarrow> unat (region_size (layout_slot g_layout ! unat slot)) = 0x1B000"
  by (auto simp: slot_is_valid_iff g_layout_nth)

lemma slot_lo_bounds:
  "slot_is_valid slot \<Longrightarrow> 0x08009000 \<le> region_lo (layout_slot g_layout ! unat slot)"
  "slot_is_valid slot \<Longrightarrow> region_lo (layout_slot g_layout ! unat slot) \<le> 0x08024000"
  by (auto simp: slot_is_valid_iff g_layout_nth)

lemma staged_erase:
  assumes inv: "host_inv h" and slot: "slot_is_valid slot" and q: "is_request BL_CMD_ERASE_SLOT [slot] request"
    and wf: "resp_wf resp"
  obtains session' h' where "bl_core_handle_frame host_port no_null session request h resp =
      Some (reply resp BL_CMD_ERASE_SLOT BL_OK [], session', h')"
    and "staged slot e [] h session' h'" and "host_budget h' = host_budget h" and "highest_offset session' = 0"
proof -
  let ?r = "layout_slot g_layout ! unat slot"
  let ?s = "session\<lparr>target_slot := slot, erased := True, highest_offset := 0, header_written := False\<rparr>"
  have c: "frame_cmd request = BL_CMD_ERASE_SLOT" using q by (simp add: is_request_def)
  note r = request_slot [OF q]
  have legal: "erase_legal host_port (region_base ?r) (region_size ?r)"
    using slot by (auto simp: slot_is_valid_iff g_layout_nth host_erase_legal)
  have ok: "erase_check host_port request = BL_OK" using r slot legal by (simp add: erase_check_def Let_def)
  show ?thesis
  proof (rule host.erase_step [OF inv wf ok, of session BL_CMD_ERASE_SLOT, unfolded r(2) host_port_simps])
    fix h'
    assume h: "handle_erase_slot host_port session BL_CMD_ERASE_SLOT request h resp =
        Some (reply resp BL_CMD_ERASE_SLOT BL_OK [], ?s, h')" "host_inv h'"
      "same_outside ?r (host_mem h) (host_mem h')"
      "\<forall>x. region_lo ?r \<le> x \<and> x < region_hi ?r \<longrightarrow> host_mem h' x = 0xFF \<and> \<not> host_prog h' x"
    have "staged slot e [] h ?s h'"
      using h(2-4) slot by (simp add: staged_def Let_def session_inv_def header_clear_def)
    moreover have "host_budget h' = host_budget h"
      using h(1) erase_budget by (auto simp: handle_erase_slot_def Let_def split: if_splits bind_splits)
    ultimately show ?thesis using that h(1) dispatch(2) [OF c, of host_port session h resp] c by simp
  qed
qed

text \<open>A write that passes the guards: it is programmed, or the flash fails and nothing changes.\<close>

lemma write_request_cases:
  assumes inv: "host_inv h" "session_inv g_layout (host_prog h) session"
    and q: "is_request BL_CMD_WRITE (put_u32_le off @ d) request" "length d \<le> 508" and wf: "resp_wf resp"
    and ok: "write_check host_port session request = BL_OK"
    and hdr: "off = 0 \<Longrightarrow> header_clear g_layout (host_prog h) (length d) session"
  defines "a \<equiv> region_lo (layout_slot g_layout ! unat (target_slot session)) + unat off"
    and "session' \<equiv> session\<lparr>header_written := header_written session \<or> off = 0,
           highest_offset := of_nat (max (unat (highest_offset session)) (unat off + length d))\<rparr>"
  obtains (programmed) h' where "bl_core_handle_frame host_port no_null session request h resp =
        Some (reply resp BL_CMD_WRITE BL_OK (put_u32_le off), session', h')"
      and "host_inv h'" and "session_inv g_layout (host_prog h') session'"
      and "bytes_at (host_mem h') a (length d) = d"
      and "\<forall>x. x < a \<or> a + length d \<le> x \<longrightarrow> host_mem h' x = host_mem h x \<and> host_prog h' x = host_prog h x"
      and "host_budget h \<le> host_budget h' + 1"
    | (failed) h' where "\<not> host_ready h" and "bl_core_handle_frame host_port no_null session request h resp =
        Some (reply resp BL_CMD_WRITE BL_ERR_FLASH_PROGRAM [], session, h')"
      and "host_inv h'" and "host_mem h' = host_mem h" and "host_prog h' = host_prog h"
proof -
  have c: "frame_cmd request = BL_CMD_WRITE" using q by (simp add: is_request_def)
  note r = request_write [OF q]
  have z: "unat off = 0 \<longleftrightarrow> off = 0" by (simp add: unat_eq_0)
  have h0: "req_offset request = 0 \<Longrightarrow> header_clear (port_layout host_port) (host_prog h) (length (req_data request)) session"
    using hdr r(1,2) by (simp add: unat_eq_0)
  have er: "erased session" using ok by (auto simp: write_check_def Let_def split: if_splits)
  show ?thesis
  proof (rule host.write_step [OF inv(1) inv(2) [folded host_port_simps(1)] r(3) wf ok h0, of BL_CMD_WRITE,
        unfolded r host_port_simps z, folded a_def session'_def], assumption)
    fix status h'
    assume h: "handle_write host_port session BL_CMD_WRITE request h resp =
       (if status = BL_OK then Some (reply resp BL_CMD_WRITE BL_OK (put_u32_le off), session', h')
        else Some (reply resp BL_CMD_WRITE status [], session, h'))" "host_inv h'"
      and frame: "\<forall>x. x < a \<or> a + length d \<le> x \<longrightarrow> host_mem h' x = host_mem h x \<and> host_prog h' x = host_prog h x"
      and data: "status = BL_OK \<longrightarrow> bytes_at (host_mem h') a (length d) = d"
      and fail: "status \<noteq> BL_OK \<longrightarrow> status = BL_ERR_FLASH_PROGRAM \<and> host_mem h' = host_mem h \<and> host_prog h' = host_prog h"
      and size: "unat off + length d \<le> unat (region_size (layout_slot g_layout ! unat (target_slot session)))"
      and w: "\<exists>a d k. k \<noteq> 0 \<and> bl_flash_write h a (Some d) k = Some (status, h')"
    note run = dispatch(3) [OF c, of host_port session h resp, unfolded c h(1)]
    show ?thesis
    proof (cases "status = BL_OK")
      case True
      have "session_inv g_layout (host_prog h') session'"
        unfolding session'_def using frame size
        by (intro host.session_inv_write [OF inv(2) er refl]) (auto simp: a_def)
      moreover have "host_budget h \<le> host_budget h' + 1" using w write_budget by blast
      ultimately show ?thesis using True programmed [of h'] h(2) frame data run by simp
    next
      case False
      then have "\<not> host_ready h" using w host.ready_write [OF inv(1)] by auto
      then show ?thesis using False failed [of h'] h(2) fail run by simp
    qed
  qed
qed

lemma staged_programmed:
  fixes off :: u32 and d :: "u8 list"
  assumes st: "staged slot e pre h0 session h" and slot: "slot_is_valid slot" and off: "unat off = e + length pre"
    and d: "d \<noteq> []" and e: "512 \<le> e" and fits: "e + length pre + length d \<le> 0x1B000"
  defines "a \<equiv> region_lo (layout_slot g_layout ! unat (target_slot session)) + unat off"
    and "session' \<equiv> session\<lparr>header_written := header_written session \<or> off = 0,
           highest_offset := of_nat (max (unat (highest_offset session)) (unat off + length d))\<rparr>"
  assumes i: "host_inv h'" "session_inv g_layout (host_prog h') session'" and data: "bytes_at (host_mem h') a (length d) = d"
    and frame: "\<forall>x. x < a \<or> a + length d \<le> x \<longrightarrow> host_mem h' x = host_mem h x \<and> host_prog h' x = host_prog h x"
  shows "staged slot e (pre @ d) h0 session' h'"
proof -
  let ?r = "layout_slot g_layout ! unat slot"
  have s: "header_clear g_layout (host_prog h) 512 session" "target_slot session = slot" "erased session" "\<not> header_written session"
    "unat (highest_offset session) = (if pre = [] then 0 else e + length pre)" "same_outside ?r (host_mem h0) (host_mem h)"
    "bytes_at (host_mem h) (region_lo ?r + e) (length pre) = pre" "\<forall>x<512. host_mem h (region_lo ?r + x) = 0xFF"
    using st by (simp_all add: staged_def Let_def)
  have nz: "off \<noteq> 0" using off e by (metis add_is_0 le_zero_eq unat_0 zero_neq_numeral)
  have a: "a = region_lo ?r + (e + length pre)" by (simp add: a_def s(2) off)
  note data = data [unfolded a] and frame = frame [unfolded a]
  have "bytes_at (host_mem h') (region_lo ?r + e) (length pre) = pre"
    using frame s(7) bytes_at_cong [of "region_lo ?r + e" "length pre" "host_mem h'" "host_mem h"] by simp
  then have all: "bytes_at (host_mem h') (region_lo ?r + e) (length (pre @ d)) = pre @ d"
    using data bytes_at_append [of "host_mem h'" "region_lo ?r + e" "length pre" "length d"] by (simp add: add.assoc)
  have "max (unat (highest_offset session)) (unat off + length d) = e + length pre + length d"
    unfolding off using s(5) by simp
  then have "highest_offset session' = of_nat (e + length pre + length d)" by (simp add: session'_def)
  moreover have "unat (of_nat (e + length pre + length d) :: u32) = e + length (pre @ d)"
    using fits by (simp add: unat_of_nat del: of_nat_add)
  ultimately have "unat (highest_offset session') = (if pre @ d = [] then 0 else e + length (pre @ d))"
    using d by (simp only: append_is_Nil_conv simp_thms if_False)
  moreover have "same_outside ?r (host_mem h0) (host_mem h')"
    using s(6) frame fits slot by (simp add: same_outside_def)
  moreover have "header_clear g_layout (host_prog h') 512 session'"
    using s(1-4) frame nz e by (simp add: header_clear_def session'_def)
  moreover have "\<forall>x<512. host_mem h' (region_lo ?r + x) = 0xFF" using s(8) frame e by simp
  ultimately show ?thesis using i all s(2-4) nz by (simp add: staged_def Let_def session'_def)
qed

lemma staged_write:
  assumes st: "staged slot e pre h0 session h" and slot: "slot_is_valid slot"
    and q: "is_request BL_CMD_WRITE (put_u32_le (of_nat (e + length pre)) @ d) request"
    and d: "d \<noteq> []" "length d \<le> 504" "length d mod 8 = 0" "length pre mod 8 = 0"
    and e: "512 \<le> e" "e mod 8 = 0" and fits: "e + length pre + length d \<le> 0x1B000" and wf: "resp_wf resp"
  obtains (programmed) session' h' where "bl_core_handle_frame host_port no_null session request h resp =
        Some (reply resp BL_CMD_WRITE BL_OK (put_u32_le (of_nat (e + length pre))), session', h')"
      and "staged slot e (pre @ d) h0 session' h'" and "host_budget h \<le> host_budget h' + 1"
    | (failed) h' where "\<not> host_ready h" and "bl_core_handle_frame host_port no_null session request h resp =
        Some (reply resp BL_CMD_WRITE BL_ERR_FLASH_PROGRAM [], session, h')"
      and "staged slot e pre h0 session h'"
proof -
  let ?off = "of_nat (e + length pre) :: u32"
  have s: "host_inv h" "session_inv g_layout (host_prog h) session" "target_slot session = slot" "erased session"
    "unat (highest_offset session) = (if pre = [] then 0 else e + length pre)"
    using st by (simp_all add: staged_def Let_def)
  have off: "unat ?off = e + length pre" using fits by (simp add: unat_of_nat del: of_nat_add)
  then have nz: "?off \<noteq> 0" using e(1) by (metis add_is_0 le_zero_eq unat_0 zero_neq_numeral)
  have len: "length d \<le> 508" using d(2) by simp
  note r = request_write [OF q len]
  have chk: "write_check host_port session request = BL_OK"
    unfolding write_check_def r off Let_def
    using s(3-5) d e fits slot by (simp add: mod_add_eq [symmetric])
  have hdr: "header_clear g_layout (host_prog h) (length d) session" if "?off = 0" using nz that by contradiction
  show ?thesis
  proof (rule write_request_cases [OF s(1,2) q len wf chk hdr], assumption, goal_cases)
    case (1 h')
    from staged_programmed [OF st slot off d(1) e(1) fits 1(2-5)] show ?case using programmed 1(1,6) by blast
  next
    case (2 h')
    from 2(3-5) st have "staged slot e pre h0 session h'" by (simp add: staged_def Let_def)
    then show ?case using failed 2(1,2) by blast
  qed
qed

lemma staged_header:
  assumes st: "staged slot e pl h0 session h" and slot: "slot_is_valid slot"
    and q: "is_request BL_CMD_WRITE (put_u32_le 0 @ hdr) request" and hdr: "length hdr = 40"
    and e: "512 \<le> e" and fits: "e + length pl \<le> 0x1B000" and wf: "resp_wf resp"
  obtains (programmed) session' h' where "bl_core_handle_frame host_port no_null session request h resp =
        Some (reply resp BL_CMD_WRITE BL_OK (put_u32_le 0), session', h')"
      and "host_inv h'" and "same_outside (layout_slot g_layout ! unat slot) (host_mem h0) (host_mem h')"
      and "bytes_at (host_mem h') (region_lo (layout_slot g_layout ! unat slot)) 40 = hdr"
      and "bytes_at (host_mem h') (region_lo (layout_slot g_layout ! unat slot) + e) (length pl) = pl"
      and "host_budget h \<le> host_budget h' + 1" and "erased session'" and "header_written session'"
    | (failed) h' where "\<not> host_ready h" and "bl_core_handle_frame host_port no_null session request h resp =
        Some (reply resp BL_CMD_WRITE BL_ERR_FLASH_PROGRAM [], session, h')"
      and "staged slot e pl h0 session h'"
proof -
  let ?r = "layout_slot g_layout ! unat slot"
  have s: "host_inv h" "session_inv g_layout (host_prog h) session" "header_clear g_layout (host_prog h) 512 session"
    "target_slot session = slot" "erased session" "\<not> header_written session"
    "same_outside ?r (host_mem h0) (host_mem h)"
    "bytes_at (host_mem h) (region_lo ?r + e) (length pl) = pl"
    using st by (simp_all add: staged_def Let_def)
  have len: "length hdr \<le> 508" using hdr by simp
  have chk: "write_check host_port session request = BL_OK"
    unfolding write_check_def request_write [OF q len] Let_def using s(4-6) hdr slot by simp
  have clear: "header_clear g_layout (host_prog h) (length hdr) session" using s(3) hdr header_clear_mono by auto
  show ?thesis
  proof (rule write_request_cases [OF s(1,2) q len wf chk clear], goal_cases)
    case (1 h')
    have data: "bytes_at (host_mem h') (region_lo ?r) 40 = hdr"
      and frame: "\<forall>x. x < region_lo ?r \<or> region_lo ?r + 40 \<le> x \<longrightarrow> host_mem h' x = host_mem h x"
      using 1(4,5) s(4) hdr by simp_all
    have pay: "bytes_at (host_mem h') (region_lo ?r + e) (length pl) = pl"
      using frame s(8) e bytes_at_cong [of "region_lo ?r + e" "length pl" "host_mem h'" "host_mem h"] by simp
    have "same_outside ?r (host_mem h0) (host_mem h')"
      using s(7) frame slot by (simp add: same_outside_def)
    then show ?case using programmed [OF 1(1,2)] 1(6) data pay s(5) by simp
  next
    case (2 h')
    from 2(3-5) st have "staged slot e pl h0 session h'" by (simp add: staged_def Let_def)
    then show ?case using failed 2(1,2) by blast
  qed
qed

section \<open>Requests over the wire\<close>

text \<open>One request: the frame goes in byte by byte, the answer comes back in a buffer of 1024 bytes.\<close>

definition exchange :: "u8 \<Rightarrow> u8 list \<Rightarrow> sim \<Rightarrow> (u8 list \<times> sim) option" where
  "exchange cmd pl d = do {
     (n, buf, d) \<leftarrow> sim_feed d (Some (frame_bytes cmd pl)) (of_nat (length (frame_bytes cmd pl))) (Some (replicate 1024 0)) 1024;
     Some (take (unat n) buf, d)
   }"

fun exchange_all :: "(u8 \<times> u8 list) list \<Rightarrow> sim \<Rightarrow> (u8 list list \<times> sim) option" where
  "exchange_all [] d = Some ([], d)"
| "exchange_all ((cmd, pl) # rs) d = do {
     (answer, d) \<leftarrow> exchange cmd pl d;
     (answers, d) \<leftarrow> exchange_all rs d;
     Some (answer # answers, d)
   }"

lemma exchange_all_append:
  "exchange_all (xs @ ys) d = do {
     (as, d) \<leftarrow> exchange_all xs d;
     (bs, d) \<leftarrow> exchange_all ys d;
     Some (as @ bs, d)
   }"
  by (induction xs arbitrary: d) (auto simp: bind_assoc case_prod_beta intro!: bind_option_cong)

definition dev_idle :: "sim \<Rightarrow> bool" where
  "dev_idle d \<longleftrightarrow> sim_inv d \<and> parser_state (g_parser d) = BL_FRAME_WAIT_SOF"

text \<open>An idle device hands the request to the handler and sends the handler's answer; \<open>R\<close> is what is
  known of the state afterwards.\<close>

lemma exchange_handled:
  assumes idle: "dev_idle d" and pl: "length pl \<le> 512"
    and handler: "\<And>q. is_request cmd pl q \<Longrightarrow> \<exists>st data session' h'.
      bl_core_handle_frame host_port no_null (g_session d) q (sim_host d) (resp_of 1024) =
        Some (reply (resp_of 1024) cmd st data, session', h') \<and> length data \<le> 20 \<and> host_inv h' \<and> R st data session' h'"
  obtains st data d' where "exchange cmd pl d = Some (frame_bytes cmd (result_code st # data), d')"
    and "dev_idle d'" and "R st data (g_session d') (sim_host d')"
proof -
  have i: "parser_inv (g_parser d)" "parser_state (g_parser d) = BL_FRAME_WAIT_SOF"
    using idle by (simp_all add: dev_idle_def sim_inv_def)
  obtain p' where p': "parser_inv p'" "parser_state p' = BL_FRAME_WAIT_SOF" "is_request cmd pl (parser_frame p')"
    and f: "\<forall>rest response cap. sim_feed_loop d (frame_bytes cmd pl @ rest) response cap =
           serve_frame (d\<lparr>g_parser := p'\<rparr>) response cap"
    by (rule sim_feed_frame [OF i pl])
  have n: "unat (of_nat (length (frame_bytes cmd pl)) :: u32) = length (frame_bytes cmd pl)"
    using pl by (simp add: unat_of_nat del: of_nat_add)
  have feed: "sim_feed d (Some (frame_bytes cmd pl)) (of_nat (length (frame_bytes cmd pl))) (Some (replicate 1024 0)) 1024 =
      serve_frame (d\<lparr>g_parser := p'\<rparr>) (replicate 1024 0) 1024"
    using f [rule_format, of "[]"] n by (simp only: sim_feed_def option.sel take_all append_Nil2) simp
  from handler [OF p'(3)] obtain st data session' h' where
    h: "bl_core_handle_frame host_port no_null (g_session d) (parser_frame p') (sim_host d) (resp_of 1024) =
        Some (reply (resp_of 1024) cmd st data, session', h')" and len: "length data \<le> 20"
    and inv: "host_inv h'" "R st data session' h'" by blast
  let ?d' = "d\<lparr>g_parser := p', g_session := session', sim_host := h'\<rparr>"
  have served: "serve_frame (d\<lparr>g_parser := p'\<rparr>) (replicate 1024 0) 1024 =
      Some (of_nat (9 + length data),
        frame_bytes cmd (result_code st # data) @ drop (9 + length data) (replicate 1024 0), ?d')"
    using h len by (simp add: serve_frame_def reply_def resp_of_def)
  have "exchange cmd pl d = Some (frame_bytes cmd (result_code st # data), ?d')"
    unfolding exchange_def feed served using len by (simp add: unat_of_nat del: of_nat_add)
  moreover have "dev_idle ?d'" using p' inv by (simp add: dev_idle_def sim_inv_def)
  ultimately show ?thesis using that [of st data ?d'] inv(2) by simp
qed

lemma exchange_ok:
  assumes idle: "dev_idle d" and pl: "length pl \<le> 512"
    and handler: "\<And>q. is_request cmd pl q \<Longrightarrow> \<exists>session' h'.
      bl_core_handle_frame host_port no_null (g_session d) q (sim_host d) (resp_of 1024) =
        Some (reply (resp_of 1024) cmd BL_OK data, session', h') \<and> host_inv h' \<and> R session' h'"
    and data: "length data \<le> 20"
  obtains d' where "exchange cmd pl d = Some (frame_bytes cmd (result_code BL_OK # data), d')"
    and "dev_idle d'" and "R (g_session d') (sim_host d')"
  by (rule exchange_handled [OF idle pl, where R = "\<lambda>st x s h. st = BL_OK \<and> x = data \<and> R s h"])
    (use handler data in blast)+

section \<open>The update sequence\<close>

fun payload_writes :: "nat \<Rightarrow> u8 list list \<Rightarrow> (u8 \<times> u8 list) list" where
  "payload_writes off [] = []"
| "payload_writes off (c # cs) = (BL_CMD_WRITE, put_u32_le (of_nat off) @ c) # payload_writes (off + length c) cs"

definition chunk_ok :: "u8 list \<Rightarrow> bool" where
  "chunk_ok c \<longleftrightarrow> c \<noteq> [] \<and> length c \<le> 504 \<and> length c mod 8 = 0"

text \<open>Erasing; the slot may be under update already.\<close>

lemma exchange_erase:
  assumes idle: "dev_idle d" and slot: "slot_is_valid slot"
    and out: "same_outside (layout_slot g_layout ! unat slot) (host_mem h0) (host_mem (sim_host d))"
  obtains d' where "exchange BL_CMD_ERASE_SLOT [slot] d = Some (frame_bytes BL_CMD_ERASE_SLOT [result_code BL_OK], d')"
    and "dev_idle d'" and "staged slot e [] h0 (g_session d') (sim_host d')"
    and "host_budget (sim_host d') = host_budget (sim_host d)"
proof -
  have inv: "host_inv (sim_host d)" using idle by (simp add: dev_idle_def sim_inv_def)
  have "\<exists>session' h'. bl_core_handle_frame host_port no_null (g_session d) q (sim_host d) (resp_of 1024) =
        Some (reply (resp_of 1024) BL_CMD_ERASE_SLOT BL_OK [], session', h') \<and> host_inv h' \<and>
        staged slot e [] h0 session' h' \<and> host_budget h' = host_budget (sim_host d)"
    if q: "is_request BL_CMD_ERASE_SLOT [slot] q" for q
  proof -
    obtain session' h' where h: "bl_core_handle_frame host_port no_null (g_session d) q (sim_host d) (resp_of 1024) =
        Some (reply (resp_of 1024) BL_CMD_ERASE_SLOT BL_OK [], session', h')"
      "staged slot e [] (sim_host d) session' h'" "host_budget h' = host_budget (sim_host d)"
      by (rule staged_erase [OF inv slot q resp_wf_of(1)])
    have "staged slot e [] h0 session' h'"
      using h(2) out by (simp add: staged_def Let_def same_outside_def)
    with h(1,3) staged_inv [OF h(2)] show ?thesis by blast
  qed
  note handler = this
  show ?thesis
    by (rule exchange_ok [OF idle _ handler]) (use that in auto)
qed

text \<open>A payload write, and the same write sent again.\<close>

lemma exchange_write:
  assumes idle: "dev_idle d" and slot: "slot_is_valid slot" and st: "staged slot e pre h0 (g_session d) (sim_host d)"
    and c: "chunk_ok c" "length pre mod 8 = 0"
    and e: "512 \<le> e" "e mod 8 = 0" and fits: "e + length pre + length c \<le> 0x1B000"
  defines "off \<equiv> put_u32_le (of_nat (e + length pre))"
  obtains (programmed) d' where "exchange BL_CMD_WRITE (off @ c) d = Some (frame_bytes BL_CMD_WRITE (result_code BL_OK # off), d')"
      and "dev_idle d'" and "staged slot e (pre @ c) h0 (g_session d') (sim_host d')"
      and "host_budget (sim_host d) \<le> host_budget (sim_host d') + 1"
    | (failed) d' where "\<not> host_ready (sim_host d)"
      and "exchange BL_CMD_WRITE (off @ c) d = Some (frame_bytes BL_CMD_WRITE [result_code BL_ERR_FLASH_PROGRAM], d')"
      and "dev_idle d'" and "staged slot e pre h0 (g_session d') (sim_host d')"
proof -
  have c': "c \<noteq> []" "length c \<le> 504" "length c mod 8 = 0" using c(1) by (simp_all add: chunk_ok_def)
  let ?R = "\<lambda>x data s h. x = BL_OK \<and> data = off \<and> staged slot e (pre @ c) h0 s h \<and> host_budget (sim_host d) \<le> host_budget h + 1 \<or>
    \<not> host_ready (sim_host d) \<and> x = BL_ERR_FLASH_PROGRAM \<and> data = [] \<and> staged slot e pre h0 s h"
  have "\<exists>x data session' h'. bl_core_handle_frame host_port no_null (g_session d) q (sim_host d) (resp_of 1024) =
        Some (reply (resp_of 1024) BL_CMD_WRITE x data, session', h') \<and> length data \<le> 20 \<and> host_inv h' \<and> ?R x data session' h'"
    if q: "is_request BL_CMD_WRITE (off @ c) q" for q
  proof (cases rule: staged_write [OF st slot q [unfolded off_def] c' c(2) e fits resp_wf_of(1) [of 1024]])
    case (1 session' h')
    then show ?thesis using staged_inv [OF 1(2)] length_put_u32_le unfolding off_def by fastforce
  next
    case (2 h')
    then show ?thesis using staged_inv [OF 2(3)] by fastforce
  qed
  note handler = this
  have "length (off @ c) \<le> 512" using c'(2) by (simp add: off_def)
  then show ?thesis
    by (rule exchange_handled [OF idle _ handler]) (use programmed failed in blast)+
qed

lemma exchange_refused:
  assumes idle: "dev_idle d" and len: "length c \<le> 508"
    and chk: "\<And>q. is_request BL_CMD_WRITE (put_u32_le off @ c) q \<Longrightarrow> write_check host_port (g_session d) q = st" "st \<noteq> BL_OK"
  obtains d' where "exchange BL_CMD_WRITE (put_u32_le off @ c) d = Some (frame_bytes BL_CMD_WRITE [result_code st], d')"
    and "dev_idle d'" and "g_session d' = g_session d" and "sim_host d' = sim_host d"
proof -
  have inv: "host_inv (sim_host d)" using idle by (simp add: dev_idle_def sim_inv_def)
  have "\<exists>x data session' h'. bl_core_handle_frame host_port no_null (g_session d) q (sim_host d) (resp_of 1024) =
        Some (reply (resp_of 1024) BL_CMD_WRITE x data, session', h') \<and> length data \<le> 20 \<and> host_inv h' \<and>
        x = st \<and> data = [] \<and> session' = g_session d \<and> h' = sim_host d"
    if q: "is_request BL_CMD_WRITE (put_u32_le off @ c) q" for q
  proof -
    have cmd: "frame_cmd q = BL_CMD_WRITE" using q by (simp add: is_request_def)
    note r = request_write [OF q len]
    show ?thesis
      unfolding dispatch(3) [OF cmd] host.write_eq [OF r(3) resp_wf_of(1)] chk(1) [OF q] cmd
      using chk(2) inv by simp
  qed
  note handler = this
  show ?thesis
    by (rule exchange_handled [OF idle _ handler])
      (use that len in auto)
qed

lemma exchange_write_again:
  assumes idle: "dev_idle d" and slot: "slot_is_valid slot" and st: "staged slot e (pre @ c) h0 (g_session d) (sim_host d)"
    and c: "chunk_ok c" "length pre mod 8 = 0" and e: "512 \<le> e" "e mod 8 = 0" and fits: "e + length pre + length c \<le> 0x1B000"
  obtains d' where "exchange BL_CMD_WRITE (put_u32_le (of_nat (e + length pre)) @ c) d =
      Some (frame_bytes BL_CMD_WRITE [result_code BL_ERR_NOT_ERASED], d')"
    and "dev_idle d'" and "g_session d' = g_session d" and "sim_host d' = sim_host d"
proof (rule exchange_refused [OF idle])
  let ?off = "of_nat (e + length pre) :: u32"
  show "length c \<le> 508" using c(1) by (simp add: chunk_ok_def)
  fix q assume q: "is_request BL_CMD_WRITE (put_u32_le ?off @ c) q"
  note r = request_write [OF q \<open>length c \<le> 508\<close>]
  have off: "unat ?off = e + length pre" using fits by (simp add: unat_of_nat del: of_nat_add)
  show "write_check host_port (g_session d) q = BL_ERR_NOT_ERASED"
    unfolding write_check_def r off Let_def
    using st c e by (simp add: staged_def Let_def chunk_ok_def mod_add_eq [symmetric])
qed (use that in auto)

lemma payload_writes_staged:
  assumes "dev_idle d" and "staged slot 512 pre h0 (g_session d) (sim_host d)" and slot: "slot_is_valid slot"
    and "\<forall>c\<in>set cs. chunk_ok c" and "length pre mod 8 = 0"
    and "512 + length pre + length (concat cs) \<le> 0x1B000" and "length cs \<le> host_budget (sim_host d)"
  shows "\<exists>as d'. exchange_all (payload_writes (512 + length pre) cs) d = Some (as, d') \<and>
    staged slot 512 (pre @ concat cs) h0 (g_session d') (sim_host d')"
  using assms(1,2,4-)
proof (induction cs arbitrary: pre d)
  case (Cons c cs)
  let ?off = "put_u32_le (of_nat (512 + length pre))"
  have c: "chunk_ok c" using Cons.prems(3) by simp
  have ready: "host_ready (sim_host d)" using Cons.prems(6) by (simp add: host_ready_budget)
  have fits: "512 + length pre + length c \<le> 0x1B000" using Cons.prems(5) by simp
  obtain d1 where d1: "exchange BL_CMD_WRITE (?off @ c) d = Some (frame_bytes BL_CMD_WRITE (result_code BL_OK # ?off), d1)"
    "dev_idle d1" "staged slot 512 (pre @ c) h0 (g_session d1) (sim_host d1)"
    "host_budget (sim_host d) \<le> host_budget (sim_host d1) + 1"
    by (rule exchange_write [OF Cons.prems(1) slot Cons.prems(2) c Cons.prems(4) _ _ fits]) (use ready in auto)
  have "length (pre @ c) mod 8 = 0" using c Cons.prems(4) by (simp add: chunk_ok_def mod_add_eq [symmetric])
  with Cons.IH [OF d1(2,3)] d1(4) Cons.prems obtain as d' where
    d': "exchange_all (payload_writes (512 + length (pre @ c)) cs) d1 = Some (as, d')"
      "staged slot 512 ((pre @ c) @ concat cs) h0 (g_session d') (sim_host d')" by auto
  have "payload_writes (512 + length pre) (c # cs) =
      (BL_CMD_WRITE, ?off @ c) # payload_writes (512 + length (pre @ c)) cs" by (simp add: add.assoc)
  then show ?case using d1 d' by (simp del: payload_writes.simps BL_CMD_WRITE_def result_code.simps)
qed simp

lemma slots_agree_image:
  "slots_agree g_layout (host_mem h') (host_mem h) \<Longrightarrow> slot_is_valid slot \<Longrightarrow>
   slot_image g_layout (host_mem h') slot = slot_image g_layout (host_mem h) slot"
  using host.slot_image_slots_agree [of "host_mem h'" "host_mem h" slot] by simp

lemma same_outside_other:
  assumes "same_outside (layout_slot g_layout ! unat slot) m m'" and "slot_is_valid slot"
  shows "meta_authoritative g_layout m' = meta_authoritative g_layout m"
    and "region_lo (layout_slot g_layout ! unat (other_slot slot)) \<le> x \<Longrightarrow>
      x < region_hi (layout_slot g_layout ! unat (other_slot slot)) \<Longrightarrow> m' x = m x"
proof -
  have "bytes_at m' (region_lo (layout_meta g_layout ! i)) 16 = bytes_at m (region_lo (layout_meta g_layout ! i)) 16"
    if "i < 2" for i
    using assms that by (intro bytes_at_cong) (auto simp: same_outside_def less_2_cases_iff slot_is_valid_iff g_layout_nth)
  then show "meta_authoritative g_layout m' = meta_authoritative g_layout m"
    by (intro meta_authoritative_cong) (simp add: meta_view_def)
  show "region_lo (layout_slot g_layout ! unat (other_slot slot)) \<le> x \<Longrightarrow>
      x < region_hi (layout_slot g_layout ! unat (other_slot slot)) \<Longrightarrow> m' x = m x"
    using assms by (auto simp: same_outside_def slot_is_valid_iff g_layout_nth)
qed

lemma commit_budget: "bl_meta_commit host_port a t n h = Some (r, h') \<Longrightarrow> host_budget h \<le> host_budget h' + 1"
  unfolding bl_meta_commit_def Let_def
  by (auto elim!: bind_SomeE split: if_splits option.splits prod.splits dest!: erase_budget write_budget)

lemma mark_pending_budget: "bl_core_mark_pending host_port a h = Some (r, h') \<Longrightarrow> host_budget h \<le> host_budget h' + 1"
  unfolding bl_core_mark_pending_def
  by (auto elim!: bind_SomeE split: if_splits sum.splits dest!: commit_budget)

text \<open>Arming over the wire.\<close>

lemma exchange_set_active:
  assumes idle: "dev_idle d" and slot: "slot_is_valid slot"
    and img: "is_ok (slot_image g_layout (host_mem (sim_host d)) slot)"
    and seq: "meta_seq_of g_layout (host_mem (sim_host d)) < 2 ^ 32 - 1"
  obtains st d' where "exchange BL_CMD_SET_ACTIVE [slot] d = Some (frame_bytes BL_CMD_SET_ACTIVE [result_code st], d')"
    and "dev_idle d'" and "slots_agree g_layout (host_mem (sim_host d')) (host_mem (sim_host d))"
    and "st = BL_OK \<and> boot_status_of g_layout (host_mem (sim_host d')) = Trial slot 0 \<or>
      \<not> host_ready (sim_host d) \<and> st = BL_ERR_FLASH_PROGRAM \<and>
      boot_status_of g_layout (host_mem (sim_host d')) = boot_status_of g_layout (host_mem (sim_host d))"
    and "meta_seq_of g_layout (host_mem (sim_host d')) \<le> meta_seq_of g_layout (host_mem (sim_host d)) + 1"
    and "host_budget (sim_host d) \<le> host_budget (sim_host d') + 1"
proof -
  let ?m = "host_mem (sim_host d)"
  have inv: "host_inv (sim_host d)" using idle by (simp add: dev_idle_def sim_inv_def)
  obtain r h' where r: "bl_core_mark_pending host_port slot (sim_host d) = Some (r, h')" "host_inv h'"
    "slots_agree g_layout (host_mem h') ?m"
    and st: "slot_is_valid slot \<and> is_ok (slot_image g_layout ?m slot) \<longrightarrow>
         boot_status_of g_layout (host_mem h') = Trial slot 0 \<and> r = BL_OK \<or>
         boot_status_of g_layout (host_mem h') = boot_status_of g_layout ?m \<and>
           (\<not> host_ready (sim_host d) \<and> r = BL_ERR_FLASH_PROGRAM \<or> meta_seq_of g_layout ?m = 2 ^ 32 - 1)"
    and sq: "meta_seq_of g_layout (host_mem h') \<le> meta_seq_of g_layout ?m + 1"
    by (rule host.mark_pending_refines [OF inv host_meta_erasable, of slot, unfolded host_port_simps])
  have outcome: "r = BL_OK \<and> boot_status_of g_layout (host_mem h') = Trial slot 0 \<or>
      \<not> host_ready (sim_host d) \<and> r = BL_ERR_FLASH_PROGRAM \<and> boot_status_of g_layout (host_mem h') = boot_status_of g_layout ?m"
    using st slot img seq by auto
  have "\<exists>x data session' h2. bl_core_handle_frame host_port no_null (g_session d) q (sim_host d) (resp_of 1024) =
        Some (reply (resp_of 1024) BL_CMD_SET_ACTIVE x data, session', h2) \<and> length data \<le> 20 \<and> host_inv h2 \<and>
        x = r \<and> data = [] \<and> session' = g_session d \<and> h2 = h'"
    if q: "is_request BL_CMD_SET_ACTIVE [slot] q" for q
  proof -
    have c: "frame_cmd q = BL_CMD_SET_ACTIVE" using q by (simp add: is_request_def)
    have "bl_core_handle_frame host_port no_null (g_session d) q (sim_host d) (resp_of 1024) =
        Some (reply (resp_of 1024) BL_CMD_SET_ACTIVE r [], g_session d, h')"
      unfolding dispatch(5) [OF c] handle_set_active_def c request_slot [OF q] r(1)
      by (simp add: respond_status)
    then show ?thesis using r(2) by simp
  qed
  note handler = this
  show ?thesis
    by (rule exchange_handled [OF idle _ handler])
      (use that [of r] r(3) outcome sq mark_pending_budget [OF r(1)] in auto)
qed

text \<open>The header write, and the same again.\<close>

lemma exchange_header:
  assumes idle: "dev_idle d" and slot: "slot_is_valid slot" and st: "staged slot e pl h0 (g_session d) (sim_host d)"
    and hdr: "hdr_describes e pl hdr" and fits: "e + length pl \<le> 0x1B000"
  defines "msg \<equiv> put_u32_le 0 @ hdr_bytes hdr" and "r \<equiv> layout_slot g_layout ! unat slot"
  obtains (programmed) d' where "exchange BL_CMD_WRITE msg d = Some (frame_bytes BL_CMD_WRITE (result_code BL_OK # put_u32_le 0), d')"
      and "dev_idle d'" and "same_outside r (host_mem h0) (host_mem (sim_host d'))"
      and "slot_image g_layout (host_mem (sim_host d')) slot = Inr hdr"
      and "bytes_at (host_mem (sim_host d')) (region_lo r) 40 = hdr_bytes hdr"
      and "bytes_at (host_mem (sim_host d')) (region_lo r + e) (length pl) = pl"
      and "erased (g_session d')" and "header_written (g_session d')"
      and "host_budget (sim_host d) \<le> host_budget (sim_host d') + 1"
    | (failed) d' where "\<not> host_ready (sim_host d)"
      and "exchange BL_CMD_WRITE msg d = Some (frame_bytes BL_CMD_WRITE [result_code BL_ERR_FLASH_PROGRAM], d')"
      and "dev_idle d'" and "staged slot e pl h0 (g_session d') (sim_host d')"
proof -
  have len: "length (hdr_bytes hdr) = 40" using hdr by (simp add: hdr_describes_def length_hdr_bytes)
  have e: "512 \<le> e" using hdr by (simp add: hdr_describes_def)
  let ?done = "\<lambda>(s :: bl_session) h. same_outside r (host_mem h0) (host_mem h) \<and>
    slot_image g_layout (host_mem h) slot = Inr hdr \<and> bytes_at (host_mem h) (region_lo r) 40 = hdr_bytes hdr \<and>
    bytes_at (host_mem h) (region_lo r + e) (length pl) = pl \<and> erased s \<and> header_written s \<and> host_budget (sim_host d) \<le> host_budget h + 1"
  let ?R = "\<lambda>x data s h. x = BL_OK \<and> data = put_u32_le 0 \<and> ?done s h \<or>
    \<not> host_ready (sim_host d) \<and> x = BL_ERR_FLASH_PROGRAM \<and> data = [] \<and> staged slot e pl h0 s h"
  have "\<exists>x data session' h'. bl_core_handle_frame host_port no_null (g_session d) q (sim_host d) (resp_of 1024) =
        Some (reply (resp_of 1024) BL_CMD_WRITE x data, session', h') \<and> length data \<le> 20 \<and> host_inv h' \<and> ?R x data session' h'"
    if q: "is_request BL_CMD_WRITE msg q" for q
  proof (cases rule: staged_header [OF st slot q [unfolded msg_def] len e fits resp_wf_of(1) [of 1024]])
    case (1 session' h')
    note p = 1 [folded r_def]
    have "slot_image g_layout (host_mem h') slot = Inr hdr"
      using p(4,5) fits slot by (intro slot_image_described [OF hdr]) (simp_all add: r_def)
    with p have "?done session' h'" by blast
    with p(1,2) show ?thesis using length_put_u32_le by fastforce
  next
    case (2 h')
    then show ?thesis using staged_inv [OF 2(3)] by fastforce
  qed
  note handler = this
  have "length msg \<le> 512" using len by (simp add: msg_def)
  then show ?thesis by (rule exchange_handled [OF idle _ handler]) (use programmed failed in blast)+
qed

lemma exchange_header_again:
  assumes idle: "dev_idle d" and "erased (g_session d)" and "header_written (g_session d)" and len: "length hdr = 40"
  obtains d' where "exchange BL_CMD_WRITE (put_u32_le 0 @ hdr) d = Some (frame_bytes BL_CMD_WRITE [result_code BL_ERR_NOT_ERASED], d')"
    and "dev_idle d'" and "g_session d' = g_session d" and "sim_host d' = sim_host d"
proof (rule exchange_refused [OF idle])
  show l: "length hdr \<le> 508" using len by simp
  fix q assume q: "is_request BL_CMD_WRITE (put_u32_le 0 @ hdr) q"
  show "write_check host_port (g_session d) q = BL_ERR_NOT_ERASED"
    unfolding write_check_def request_write [OF q l] Let_def using assms(2,3) len by auto
qed (use that in auto)

text \<open>The reports.\<close>

lemma exchange_report:
  assumes idle: "dev_idle d" and pl: "length pl \<le> 512" and data: "length data \<le> 20"
    and handler: "\<And>q. is_request cmd pl q \<Longrightarrow>
      bl_core_handle_frame host_port no_null (g_session d) q (sim_host d) (resp_of 1024) =
        Some (reply (resp_of 1024) cmd st data, g_session d, sim_host d)"
  obtains d' where "exchange cmd pl d = Some (frame_bytes cmd (result_code st # data), d')"
    and "dev_idle d'" and "sim_host d' = sim_host d" and "g_session d' = g_session d"
proof -
  have inv: "host_inv (sim_host d)" using idle by (simp add: dev_idle_def sim_inv_def)
  show ?thesis
    by (rule exchange_handled [OF idle pl, where R = "\<lambda>x y s h. x = st \<and> y = data \<and> s = g_session d \<and> h = sim_host d"])
      (use handler inv data that in blast)+
qed

lemma exchange_reset:
  assumes idle: "dev_idle d"
  obtains d' where "exchange BL_CMD_RESET [] d = Some (frame_bytes BL_CMD_RESET [result_code BL_OK], d')"
    and "dev_idle d'" and "sim_host d' = sim_host d" and "reset_requested (g_session d')"
proof -
  have inv: "host_inv (sim_host d)" using idle by (simp add: dev_idle_def sim_inv_def)
  show ?thesis
    by (rule exchange_ok [OF idle, where pl = "[]" and data = "[]" and cmd = BL_CMD_RESET
          and R = "\<lambda>s h. reset_requested s \<and> h = sim_host d"])
      (use that inv reset_deferred [of "[]" _ "resp_of 1024" host_port "g_session d" "sim_host d"] in \<open>auto simp del: BL_CMD_RESET_def\<close>)
qed

definition verify_answer :: "(nat \<Rightarrow> u8) \<Rightarrow> u8 \<Rightarrow> bl_result \<times> u8 list" where
  "verify_answer m slot =
     (case slot_image g_layout m slot of
        Inl err \<Rightarrow> (err, [])
      | Inr hdr \<Rightarrow> (BL_OK, put_u32_le (img_size hdr) @ put_u32_le (img_crc32 hdr) @ put_u32_le (fw_version hdr)))"

lemma exchange_verify:
  assumes idle: "dev_idle d" and slot: "slot_is_valid slot"
  obtains d' where "exchange BL_CMD_VERIFY [slot] d =
      Some (frame_bytes BL_CMD_VERIFY (result_code (fst (verify_answer (host_mem (sim_host d)) slot)) #
        snd (verify_answer (host_mem (sim_host d)) slot)), d')"
    and "dev_idle d'" and "sim_host d' = sim_host d" and "g_session d' = g_session d"
proof (rule exchange_report [OF idle])
  have inv: "host_inv (sim_host d)" using idle by (simp add: dev_idle_def sim_inv_def)
  show "length (snd (verify_answer (host_mem (sim_host d)) slot)) \<le> 20"
    by (simp add: verify_answer_def split: sum.split)
  fix q assume q: "is_request BL_CMD_VERIFY [slot] q"
  have "\<not> (slot \<noteq> 0 \<and> slot \<noteq> 1)" using slot by (simp add: slot_is_valid_iff)
  with verify_reports [OF inv q resp_wf_of(1)]
  show "bl_core_handle_frame host_port no_null (g_session d) q (sim_host d) (resp_of 1024) =
      Some (reply (resp_of 1024) BL_CMD_VERIFY (fst (verify_answer (host_mem (sim_host d)) slot))
        (snd (verify_answer (host_mem (sim_host d)) slot)), g_session d, sim_host d)"
    by (auto simp: verify_answer_def simp del: BL_CMD_VERIFY_def split: sum.split)
qed (use that in auto)

definition hello_answer :: "(nat \<Rightarrow> u8) \<Rightarrow> u8 list" where
  "hello_answer m =
     [1, 1, 2] @ put_u32_le 0x1B000 @ put_u32_le 8 @ put_u32_le 2048 @ [0xF8, 0x01] @
     (case meta_authoritative g_layout m of
        Some (r, _) \<Rightarrow> [meta_active_slot r, meta_state r, meta_boot_attempts r]
      | None \<Rightarrow> [0xFF, 0xFF, 0])"

lemma exchange_hello:
  assumes idle: "dev_idle d"
  obtains d' where "exchange BL_CMD_HELLO [] d =
      Some (frame_bytes BL_CMD_HELLO (result_code BL_OK # hello_answer (host_mem (sim_host d))), d')"
    and "dev_idle d'" and "sim_host d' = sim_host d" and "g_session d' = g_session d"
proof (rule exchange_report [OF idle])
  have inv: "host_inv (sim_host d)" using idle by (simp add: dev_idle_def sim_inv_def)
  show "length (hello_answer (host_mem (sim_host d))) \<le> 20"
    by (simp add: hello_answer_def split: option.split prod.split)
  fix q assume q: "is_request BL_CMD_HELLO [] q"
  from hello_reports [OF inv q _ resp_wf_of(1)]
  show "bl_core_handle_frame host_port no_null (g_session d) q (sim_host d) (resp_of 1024) =
      Some (reply (resp_of 1024) BL_CMD_HELLO BL_OK (hello_answer (host_mem (sim_host d))), g_session d, sim_host d)"
    by (simp add: hello_answer_def del: BL_CMD_HELLO_def)
qed (use that in auto)

lemma demo_idle [simp]: "dev_idle demo"
  by (simp add: dev_idle_def sim_inv_def demo_def factory_def sim_init_def sim_zero_def parser_zero_def
      bl_frame_parser_init_def parser_inv_def)

lemma demo_budget [simp]: "host_budget demo_host = 2 ^ 32 - 1"
  by (simp add: host_budget_def demo_host_def factory_host_def bl_port_init_def unsigned_minus_1_eq_mask mask_eq_exp_minus_1)

section \<open>A header write over payload bytes\<close>

lemma write_request_flash:
  assumes "is_request BL_CMD_WRITE (put_u32_le off @ d) request" and "length d \<le> 508" and "resp_wf resp"
    and "write_check host_port session request = BL_OK" and "d \<noteq> []"
  shows "bl_core_handle_frame host_port no_null session request h resp =
    (case bl_flash_write h (region_base (layout_slot g_layout ! unat (target_slot session)) + off) (Some d) (of_nat (length d)) of
       None \<Rightarrow> None
     | Some (status, h') \<Rightarrow>
         Some (if status \<noteq> BL_OK then (reply resp BL_CMD_WRITE status [], session, h')
               else (reply resp BL_CMD_WRITE BL_OK (put_u32_le off),
                 session\<lparr>header_written := header_written session \<or> off = 0,
                   highest_offset := max (highest_offset session) (off + of_nat (length d))\<rparr>, h')))"
proof -
  have c: "frame_cmd request = BL_CMD_WRITE" using assms(1) by (simp add: is_request_def)
  note r = request_write [OF assms(1,2)]
  have n: "ucast (frame_len request) - 4 = (of_nat (length d) :: u32)"
    using data_len_eq [OF r(3)] r(2) assms(5) by simp
  show ?thesis
    unfolding dispatch(3) [OF c] host.write_eq [OF r(3) assms(3)] c host_port_simps r n
    using assms(4) by (auto split: option.splits bind_splits prod.splits)
qed

text \<open>
  C30. The guards do not protect the first write at offset zero: after an erase and a
  payload write at offset 8, a header write of sixteen bytes passes every check of the
  handler and programs the same bytes a second time -- on the host port, an abort.
\<close>

theorem header_over_payload_aborts:
  assumes "host_inv h" and "host_ready h" and "slot_is_valid slot" and "resp_wf resp"
    and "is_request BL_CMD_ERASE_SLOT [slot] r1"
    and "is_request BL_CMD_WRITE (put_u32_le 8 @ payload) r2" and "length payload = 8"
    and "is_request BL_CMD_WRITE (put_u32_le 0 @ header) r3" and "length header = 16"
  shows "\<exists>s1 h1 s2 h2.
    bl_core_handle_frame host_port no_null session r1 h resp = Some (reply resp BL_CMD_ERASE_SLOT BL_OK [], s1, h1) \<and>
    bl_core_handle_frame host_port no_null s1 r2 h1 resp = Some (reply resp BL_CMD_WRITE BL_OK (put_u32_le 8), s2, h2) \<and>
    write_check host_port s2 r3 = BL_OK \<and>
    bl_core_handle_frame host_port no_null s2 r3 h2 resp = None"
proof -
  let ?r = "layout_slot g_layout ! unat slot"
  obtain s1 h1 where e: "bl_core_handle_frame host_port no_null session r1 h resp =
      Some (reply resp BL_CMD_ERASE_SLOT BL_OK [], s1, h1)" "staged slot 512 [] h s1 h1" "host_budget h1 = host_budget h"
      "highest_offset s1 = 0"
    by (rule staged_erase [OF assms(1,3,5,4)])
  have s: "host_inv h1" "session_inv g_layout (host_prog h1) s1" "target_slot s1 = slot" "erased s1" "\<not> header_written s1"
    using e(2) by (simp_all add: staged_def Let_def)
  have ready: "host_ready h1" using e(3) assms(2) by (simp add: host_ready_budget)
  have len: "length payload \<le> 508" "length header \<le> 508" "payload \<noteq> []" "header \<noteq> []" using assms(7,9) by auto
  have c1: "write_check host_port s1 r2 = BL_OK"
    unfolding write_check_def request_write [OF assms(6) len(1)] Let_def using s e(4) assms(3,7) by simp
  obtain h2 where h2: "bl_core_handle_frame host_port no_null s1 r2 h1 resp =
      Some (reply resp BL_CMD_WRITE BL_OK (put_u32_le 8),
        s1\<lparr>header_written := header_written s1 \<or> (8 :: u32) = 0,
          highest_offset := of_nat (max (unat (highest_offset s1)) (unat (8 :: u32) + length payload))\<rparr>, h2)"
    by (rule write_request_cases [OF s(1,2) assms(6) len(1) assms(4) c1]) (use ready in auto)
  define s2 where "s2 = s1\<lparr>header_written := header_written s1 \<or> (8 :: u32) = 0,
      highest_offset := of_nat (max (unat (highest_offset s1)) (unat (8 :: u32) + length payload))\<rparr>"
  have w: "bl_flash_write h1 (region_base ?r + 8) (Some payload) 8 = Some (BL_OK, h2)"
    using h2 host.ready_write [OF s(1) ready, of "region_base ?r + 8" payload 8] s(3) assms(7)
    unfolding write_request_flash [OF assms(6) len(1) assms(4) c1 len(3)]
    by (auto split: option.splits if_splits)
  have lo: "unat (region_base ?r + 8) = region_lo ?r + 8" using assms(3) by (auto simp: slot_is_valid_iff g_layout_nth)
  have prog: "host_prog h2 (region_lo ?r + 8)"
    using write_done(4) [OF w] assms(7) lo by (simp add: mem_fill_def)
  have c2: "write_check host_port s2 r3 = BL_OK"
    unfolding write_check_def request_write [OF assms(8) len(2)] Let_def using s assms(3,9) by (simp add: s2_def)
  have "bl_flash_write h2 (region_base ?r + 0) (Some header) 16 = None"
    using prog assms(9) by (subst write_outcome) (auto dest!: spec [of _ "region_lo ?r + 8"])
  then have "bl_core_handle_frame host_port no_null s2 r3 h2 resp = None"
    unfolding write_request_flash [OF assms(8) len(2) assms(4) c2 len(4)] using s(3) assms(9) by (simp add: s2_def)
  with e(1) h2 c2 show ?thesis unfolding s2_def by blast
qed

theorem header_over_payload_aborts_witness:
  "\<exists>s2 h2. write_check host_port s2 (request_of BL_CMD_WRITE (put_u32_le 0 @ replicate 16 1)) = BL_OK \<and>
     bl_core_handle_frame host_port no_null s2 (request_of BL_CMD_WRITE (put_u32_le 0 @ replicate 16 1)) h2 (resp_of 1024) = None"
proof -
  have "slot_is_valid 1" by (simp add: slot_is_valid_iff)
  from header_over_payload_aborts [where payload = "replicate 8 1" and header = "replicate 16 1" and session = session_zero,
      OF factory_host_inv factory_ready this resp_wf_of(1) [of 1024] is_request_of is_request_of _ is_request_of]
  show ?thesis by auto
qed

section \<open>After the update\<close>

lemma advance_budget: "advance_trial_state host_port h = Some h' \<Longrightarrow> host_budget h \<le> host_budget h' + 1"
  unfolding advance_trial_state_def Let_def
  by (auto elim!: bind_SomeE split: if_splits sum.splits dest!: commit_budget)

lemma jump_budget [simp]: "host_budget (bl_jump_to_app h a) = host_budget h"
  by (simp add: jump_eq host_budget_def)

lemma boot_budget: "bl_core_boot host_port h = Some (r, h') \<Longrightarrow> host_budget h \<le> host_budget h' + 1"
  unfolding bl_core_boot_def Let_def
  by (auto elim!: bind_SomeE split: if_splits sum.splits dest!: advance_budget)

lemma reboot_budget [simp]: "host_budget (bl_host_reboot h) = 2 ^ 32 - 1"
  by (simp add: host_budget_def bl_host_reboot_def unsigned_minus_1_eq_mask mask_eq_exp_minus_1)

lemma booted_budget: "sim_boot (sim_reboot d) = Some (t, d') \<Longrightarrow> 2 ^ 32 - 1 \<le> host_budget (sim_host d') + 1"
  using boot_budget [of "bl_host_reboot (sim_host d)" _ "sim_host d'"]
  by (auto simp: sim_boot_def sim_reboot_def Let_def elim!: bind_SomeE split: if_splits)

lemma sim_boot_host:
  assumes "sim_boot (sim_reboot d) = Some (a, d')"
  shows "host_inv (sim_host d') \<and> host_ready (sim_host d')"
proof -
  let ?h = "bl_host_reboot (sim_host d)"
  from assms obtain r where r: "bl_core_boot host_port ?h = Some (r, sim_host d')"
    by (auto simp: sim_boot_def sim_reboot_def Let_def elim!: bind_SomeE split: if_splits)
  have "host_inv (sim_host d')"
    by (rule host.boot_refines [of ?h, OF _ host_meta_erasable]) (use r in auto)
  moreover have "host_ready (sim_host d')" using boot_budget [OF r] by (simp add: host_ready_budget)
  ultimately show ?thesis ..
qed

text \<open>
  C7. A good update becomes permanent: a device on a fresh trial of a valid image boots
  it; if the image confirms itself, confirmation succeeds and every later power cycle
  boots the same image.
\<close>

theorem confirmed_trial_stays:
  assumes "boot_status_of g_layout (host_mem (sim_host d)) = Trial a 0" and "slot_is_valid a"
    and "is_ok (slot_image g_layout (host_mem (sim_host d)) a)"
    and "jump_ok (host_mem (sim_host d)) (boot_entry g_layout (host_mem (sim_host d)) a)"
    and "meta_seq_of g_layout (host_mem (sim_host d)) + n + 2 < 2 ^ 32"
  shows "\<exists>d1 d2 d3. sim_boot (sim_reboot d) = Some (boot_entry g_layout (host_mem (sim_host d)) a, d1) \<and>
    sim_confirm d1 = Some (0, d2) \<and>
    power_cycles n d2 = Some (replicate n (boot_entry g_layout (host_mem (sim_host d)) a), d3)"
proof -
  let ?m = "host_mem (sim_host d)"
  have target: "boot_target ?m st = boot_entry g_layout ?m a" if "nominated st = Some a" for st
    using that assms(3,4) by (simp add: boot_target_def policy_slot_def)
  obtain d1 where d1: "sim_boot (sim_reboot d) = Some (boot_target ?m (dev_status d1), d1)"
    and agree: "slots_agree g_layout (dev_mem d1) ?m" and st1: "dev_status d1 = Trial a 1"
    and seq1: "meta_seq_of g_layout (dev_mem d1) \<le> meta_seq_of g_layout ?m + 1"
    by (rule boot_cycle [of d]) (use assms(1,5) in auto)
  note h1 = sim_boot_host [OF d1]
  obtain r h2 where c: "bl_core_confirm host_port (sim_host d1) = Some (r, h2)" "host_inv h2"
    "slots_agree g_layout (host_mem h2) (dev_mem d1)"
    "boot_status_of g_layout (host_mem h2) = Confirmed a" "r = BL_OK"
    "meta_seq_of g_layout (host_mem h2) \<le> meta_seq_of g_layout (dev_mem d1) + 1"
    by (rule host.confirm_refines [OF h1 [THEN conjunct1] host_meta_erasable]) (use st1 h1 seq1 assms(5) in auto)
  let ?d2 = "d1\<lparr>sim_host := h2\<rparr>"
  have conf: "sim_confirm d1 = Some (0, ?d2)" using c by (simp add: sim_confirm_def)
  have agree2: "slots_agree g_layout (host_mem h2) ?m" using c(3) agree by (simp add: slots_agree_def)
  have same: "boot_target (host_mem h2) (Confirmed a) = boot_entry g_layout ?m a"
    using boot_target_agree [OF agree2, of "Confirmed a"] target [of "Confirmed a"] assms(2) by simp
  have "meta_seq_of g_layout (dev_mem ?d2) + n < 2 ^ 32" using c(6) seq1 assms(5) by simp
  from power_cycles_policy [OF this] obtain d3 where
    "power_cycles n ?d2 = Some (replicate n (boot_entry g_layout ?m a), d3)"
    using c(4) same by (auto simp: policy_run_confirmed)
  with conf d1 target [of "dev_status d1"] st1 show ?thesis by auto
qed

theorem confirmed_trial_stays_witness:
  "\<exists>d1 d2 d3. sim_boot (sim_reboot demo) = Some (0x08024200, d1) \<and> sim_confirm d1 = Some (0, d2) \<and>
     power_cycles 2 d2 = Some (replicate 2 0x08024200, d3)"
  using confirmed_trial_stays [of demo 1 2] by (simp add: slot_is_valid_iff)

end
