(* ===== verification/Bl_Tool_Link.thy ===== *)
theory Bl_Tool_Link
  imports Bl_Flash_Tool Bl_Update
begin

text \<open>
  The transport and protocol layers of the updater on a port with an input buffer. The
  locale states what \<open>blflash.py\<close> relies on of such a port: reading takes bytes from
  the front of the buffer, \<open>reset_input_buffer\<close> empties it, neither touches the device,
  and the clock is read through \<open>clk\<close>. Every loop of the layers then returns; a frame at
  the front of the buffer is read, and a request is repeated until an answer to it
  arrives or the attempts are used up.

  The instance is the simulated device of \<open>blsim.py\<close> behind a line that may lose or
  damage requests and answers, or fail with an \<open>OSError\<close>: \<open>lk_faults\<close> says what happens to
  the next requests, and the line is perfect when it is used up.
\<close>

section \<open>Total correctness with exceptions\<close>

text \<open>From a state with \<open>A\<close> the call returns: a value with \<open>B\<close>, or an exception with \<open>E\<close>.\<close>

definition py_spec :: "('d \<Rightarrow> bool) \<Rightarrow> ('d, 'a) py \<Rightarrow> ('a \<Rightarrow> 'd \<Rightarrow> bool) \<Rightarrow> (py_error \<Rightarrow> 'd \<Rightarrow> bool) \<Rightarrow> bool" where
  "py_spec A m B E \<longleftrightarrow>
     (\<forall>d. A d \<longrightarrow> (\<exists>r d'. m d = Some (r, d') \<and> (case r of Inl e \<Rightarrow> E e d' | Inr a \<Rightarrow> B a d')))"

lemma py_specD:
  assumes "py_spec A m B E" and "A d"
  obtains (result) a d' where "m d = Some (Inr a, d')" and "B a d'"
    | (exception) e d' where "m d = Some (Inl e, d')" and "E e d'"
  using assms unfolding py_spec_def by (fastforce split: sum.splits)

lemma py_spec_result:
  "py_spec A m B E \<Longrightarrow> A d \<Longrightarrow> m d = Some (r, d') \<Longrightarrow> (case r of Inl e \<Rightarrow> E e d' | Inr a \<Rightarrow> B a d')"
  unfolding py_spec_def by fastforce

lemma py_spec_bind:
  assumes "py_spec A m B E" and "\<And>a. py_spec (B a) (f a) C E"
  shows "py_spec A (py_bind m f) C E"
  unfolding py_spec_def
proof (intro allI impI)
  fix d assume "A d"
  with assms(1) show "\<exists>r d'. py_bind m f d = Some (r, d') \<and> (case r of Inl e \<Rightarrow> E e d' | Inr a \<Rightarrow> C a d')"
  proof (cases rule: py_specD)
    case (result a d')
    with assms(2) [of a] show ?thesis by (auto simp: py_bind_def py_spec_def)
  qed (auto simp: py_bind_def)
qed

lemma py_bind_return [simp]: "py_bind (py_return a) f = f a"
  by (rule ext) (simp add: py_bind_def py_return_def)

lemma py_lift_Inr: "py_lift (Inr a) = py_return a"
  by (rule ext) (simp add: py_lift_def py_return_def)

lemma py_spec_return: "(\<And>d. A d \<Longrightarrow> B a d) \<Longrightarrow> py_spec A (py_return a) B E"
  by (simp add: py_spec_def py_return_def)

lemma py_spec_raise: "(\<And>d. A d \<Longrightarrow> E e d) \<Longrightarrow> py_spec A (py_raise e) B E"
  by (simp add: py_spec_def py_raise_def)

lemma py_spec_lift: "(\<And>d. A d \<Longrightarrow> case r of Inl e \<Rightarrow> E e d | Inr a \<Rightarrow> B a d) \<Longrightarrow> py_spec A (py_lift r) B E"
  by (simp add: py_spec_def py_lift_def)

lemma py_spec_if: "(b \<Longrightarrow> py_spec A m B E) \<Longrightarrow> (\<not> b \<Longrightarrow> py_spec A m' B E) \<Longrightarrow> py_spec A (if b then m else m') B E"
  by simp

lemma py_spec_weaken:
  assumes "py_spec A' m B' E'" and "\<And>d. A d \<Longrightarrow> A' d" and "\<And>a d. B' a d \<Longrightarrow> B a d" and "\<And>e d. E' e d \<Longrightarrow> E e d"
  shows "py_spec A m B E"
  unfolding py_spec_def
proof (intro allI impI)
  fix d assume "A d"
  with assms(2) have "A' d" .
  with assms(1) show "\<exists>r d'. m d = Some (r, d') \<and> (case r of Inl e \<Rightarrow> E e d' | Inr a \<Rightarrow> B a d')"
    by (cases rule: py_specD) (auto dest: assms(3,4))
qed

lemma py_spec_seq:
  assumes "py_spec A' m B E'" and "\<And>d. A d \<Longrightarrow> A' d" and "\<And>e d. E' e d \<Longrightarrow> E e d" and "\<And>a. py_spec (B a) (f a) C E"
  shows "py_spec A (py_bind m f) C E"
  by (rule py_spec_bind [OF py_spec_weaken [OF assms(1,2)] assms(4)]) (use assms(3) in auto)

lemma py_spec_seq_eq:
  assumes "py_spec A' m (\<lambda>a d. a = v \<and> B d) E'" and "\<And>d. A d \<Longrightarrow> A' d" and "\<And>e d. E' e d \<Longrightarrow> E e d"
    and "py_spec B (f v) C E"
  shows "py_spec A (py_bind m f) C E"
  by (rule py_spec_seq [OF assms(1-3)]) (use assms(4) in \<open>auto simp: py_spec_def\<close>)

lemma py_spec_at: "(\<And>d0. A d0 \<Longrightarrow> py_spec (\<lambda>d. d = d0) m B E) \<Longrightarrow> py_spec A m B E"
  by (simp add: py_spec_def)

text \<open>What is known of the value alone moves out of the precondition.\<close>

lemma py_spec_pure: "(\<And>d. A d \<Longrightarrow> p) \<Longrightarrow> (p \<Longrightarrow> py_spec A m B E) \<Longrightarrow> py_spec A m B E"
  by (auto simp: py_spec_def)

section \<open>A port with an input buffer\<close>

text \<open>
  Bytes that no answer can be read from: no start marker, or after the first one too few bytes,
  a length above the limit, or bytes that \<open>decode_frame\<close> rejects.
\<close>

definition mute :: "u8 list \<Rightarrow> bool" where
  "mute bs \<longleftrightarrow>
     (case dropWhile (\<lambda>b. b \<noteq> BL_SOF) bs of
        [] \<Rightarrow> True
      | s # rest \<Rightarrow>
          let n = from_bytes (take 2 (drop 1 rest)) in
          length rest < 3 \<or> MAX_PAYLOAD < n \<or> length rest < 7 + n \<or>
          (case decode_frame (s # take (7 + n) rest) of Inl _ \<Rightarrow> True | Inr _ \<Rightarrow> False))"

lemma mute_noise: "BL_SOF \<notin> set bs \<Longrightarrow> mute bs"
proof -
  assume "BL_SOF \<notin> set bs"
  then have "dropWhile (\<lambda>b. b \<noteq> BL_SOF) bs = []" by (auto simp: dropWhile_eq_Nil_conv)
  then show ?thesis by (simp only: mute_def list.case)
qed

text \<open>A frame cut short, and one with up to four consecutive bytes changed outside the length.\<close>

lemma mute_truncated:
  assumes "length p \<le> 512" and "n < length (frame_bytes c p)"
  shows "mute (take n (frame_bytes c p))"
proof -
  have len: "from_bytes (put_u16_le (of_nat (length p))) = length p" using assms(1) by (simp add: unat_of_nat)
  obtain l0 l1 where l: "put_u16_le (of_nat (length p)) = [l0, l1]" by (simp add: put_u16_le_def)
  obtain rest where f: "frame_bytes c p = BL_SOF # c # l0 # l1 # rest" "length rest = length p + 4"
    by (simp add: frame_bytes_def frame_body_def l)
  have "n = 0 \<or> n = 1 \<or> n = 2 \<or> n = 3 \<or> (\<exists>k. n = Suc (Suc (Suc (Suc k))))" by presburger
  then show ?thesis
    using assms(2) len l f(2) by (auto simp: f(1) mute_def take_Cons' Let_def)
qed

lemma mute_burst:
  assumes frame: "frame_bytes c p = BL_SOF # xs @ ds @ ys" and "length p \<le> 512"
    and burst: "length ds = length es" "length es \<le> 4" "ds \<noteq> es"
    and len: "take 2 (drop 2 (BL_SOF # xs @ es @ ys)) = put_u16_le (of_nat (length p))"
  shows "mute (BL_SOF # xs @ es @ ys)"
proof -
  let ?w = "xs @ es @ ys"
  have n: "length ?w = 7 + length p" using arg_cong [OF frame, of length] burst(1) by simp
  have "from_bytes (take 2 (drop 1 ?w)) = length p" using len assms(2) by (simp add: unat_of_nat)
  moreover have "decode_frame (BL_SOF # ?w) \<noteq> Inr (a, b)" for a b
    using frame_burst_not_frame [OF frame burst] unfolding decode_frame_iff by metis
  ultimately show ?thesis using n by (auto simp: mute_def Let_def split: sum.split)
qed

lemma decode_frame_error: "decode_frame f = Inl e \<Longrightarrow> e = Value_Error"
proof (cases "8 \<le> length f")
  case True
  then have "8 + 0 \<le> length f" by simp
  then obtain a c l0 l1 mid x y z w xs where "f = [a, c, l0, l1] @ mid @ [x, y, z, w] @ xs"
    by (rule length_8_split)
  then obtain rest where f: "f = a # c # l0 # l1 # rest" and rest: "4 \<le> length rest" by simp
  assume "decode_frame f = Inl e"
  then show ?thesis unfolding f decode_frame_Cons [OF rest] by (auto simp: Let_def split: if_splits)
qed (auto simp: decode_frame_def)

locale serial_port =
  fixes P :: "'d py_port" and rx :: "'d \<Rightarrow> u8 list" and core :: "'d \<Rightarrow> 'c" and ticks :: "'d \<Rightarrow> nat"
    and clk :: "nat \<Rightarrow> int"
  assumes no_timeout: "pp_timeout P = None"
    and read_bytes: "fst (pp_read P d n) = Inr (take n (rx d))"
    and read_frame_laws: "rx (snd (pp_read P d n)) = drop n (rx d)" "core (snd (pp_read P d n)) = core d"
      "ticks (snd (pp_read P d n)) = ticks d"
    and reset_succeeds: "fst (pp_reset_input_buffer P d) = Inr ()"
    and reset_laws: "rx (snd (pp_reset_input_buffer P d)) = []" "core (snd (pp_reset_input_buffer P d)) = core d"
      "ticks (snd (pp_reset_input_buffer P d)) = ticks d"
    and clock: "fst (pp_monotonic P d) = clk (ticks d)"
    and clock_laws: "rx (snd (pp_monotonic P d)) = rx d" "core (snd (pp_monotonic P d)) = core d"
      "ticks (snd (pp_monotonic P d)) = Suc (ticks d)"
begin

lemmas laws = read_frame_laws reset_laws clock_laws

lemma set_timeout_id [simp]: "set_timeout P t d = (Inr (), d)"
  by (simp add: set_timeout_def no_timeout)

text \<open>One turn of the reading loop.\<close>

lemma read_step:
  assumes "length buffer < count"
  obtains d' where "core d' = core d" and "ticks d' \<le> Suc (ticks d)" and "length (rx d') \<le> length (rx d)"
    and "deadline \<le> clk (ticks d) \<or> rx d = [] \<Longrightarrow>
      read_exactly_loop P count deadline buffer d = Some (Inl Bootloader_Timeout, d')"
    and "clk (ticks d) < deadline \<Longrightarrow> rx d \<noteq> [] \<Longrightarrow>
      read_exactly_loop P count deadline buffer d =
        read_exactly_loop P count deadline (buffer @ take (count - length buffer) (rx d)) d' \<and>
      rx d' = drop (count - length buffer) (rx d) \<and> ticks d' = Suc (ticks d)"
proof -
  let ?d1 = "snd (pp_monotonic P d)"
  let ?d2 = "snd (pp_read P ?d1 (count - length buffer))"
  note step = read_exactly_loop.simps [of P count deadline buffer d]
  show ?thesis
  proof (cases "clk (ticks d) < deadline")
    case True
    have "count - length buffer \<noteq> 0" using assms by simp
    then have "take (count - length buffer) (rx d) = [] \<longleftrightarrow> rx d = []" by simp
    with True assms show ?thesis
      by (intro that [of ?d2]) (simp_all add: step case_prod_beta Let_def clock laws read_bytes no_timeout)
  next
    case False
    with assms show ?thesis
      by (intro that [of ?d1]) (simp_all add: step case_prod_beta Let_def clock laws)
  qed
qed

lemma read_full: "count \<le> length buffer \<Longrightarrow> read_exactly_loop P count deadline buffer d = Some (Inr buffer, d)"
  by (subst read_exactly_loop.simps) simp

text \<open>Reading returns: the bytes, if there are enough in time, or a timeout.\<close>

lemma read_exactly_spec:
  assumes "0 < count"
  shows "py_spec (\<lambda>d. rx d = xs \<and> core d = c \<and> ticks d = t) (read_exactly P count deadline)
    (\<lambda>bs d. bs = take count xs \<and> count \<le> length xs \<and> rx d = drop count xs \<and> core d = c \<and> ticks d = Suc t)
    (\<lambda>e d. e = Bootloader_Timeout \<and> core d = c \<and> \<not> (count \<le> length xs \<and> clk t < deadline))"
  unfolding py_spec_def
proof (intro allI impI)
  fix d assume d: "rx d = xs \<and> core d = c \<and> ticks d = t"
  let ?goal = "\<exists>r d'. read_exactly P count deadline d = Some (r, d') \<and>
    (case r of Inl e \<Rightarrow> e = Bootloader_Timeout \<and> core d' = c \<and> \<not> (count \<le> length xs \<and> clk t < deadline)
     | Inr bs \<Rightarrow> bs = take count xs \<and> count \<le> length xs \<and> rx d' = drop count xs \<and> core d' = c \<and> ticks d' = Suc t)"
  show ?goal
  proof (rule read_step [of "[]" count d deadline])
    fix d'
    assume d': "core d' = core d"
      and stop: "deadline \<le> clk (ticks d) \<or> rx d = [] \<Longrightarrow>
        read_exactly_loop P count deadline [] d = Some (Inl Bootloader_Timeout, d')"
      and go: "clk (ticks d) < deadline \<Longrightarrow> rx d \<noteq> [] \<Longrightarrow>
        read_exactly_loop P count deadline [] d =
          read_exactly_loop P count deadline ([] @ take (count - length []) (rx d)) d' \<and>
        rx d' = drop (count - length []) (rx d) \<and> ticks d' = Suc (ticks d)"
    consider "\<not> clk t < deadline \<or> xs = []" | "clk t < deadline" "xs \<noteq> []" "count \<le> length xs"
      | "clk t < deadline" "xs \<noteq> []" "length xs < count" by linarith
    then show ?goal
    proof cases
      case 1
      then show ?thesis using stop d d' assms by (auto simp: read_exactly_def)
    next
      case 2
      then show ?thesis using go d d' by (auto simp: read_exactly_def read_full)
    next
      case 3
      then have go': "read_exactly_loop P count deadline [] d = read_exactly_loop P count deadline xs d'" "rx d' = []"
        using go d by auto
      show ?thesis
        by (rule read_step [of xs count d' deadline]) (use 3 go' d d' in \<open>auto simp: read_exactly_def\<close>)
    qed
  qed (use assms in simp)
qed

lemma skip_to_sof_unfold:
  "skip_to_sof P deadline =
     py_bind (read_exactly P 1 deadline) (\<lambda>byte. if unat (byte ! 0) = SOF then py_return () else skip_to_sof P deadline)"
  by (rule ext, subst skip_to_sof.simps) (auto simp: py_simps intro!: bind_option_cong split: sum.split)

lemma skip_to_sof_marker:
  "py_spec (\<lambda>d. rx d = BL_SOF # xs \<and> core d = c \<and> ticks d = t) (skip_to_sof P deadline)
    (\<lambda>_ d. rx d = xs \<and> core d = c \<and> ticks d = Suc t) (\<lambda>e d. e = Bootloader_Timeout \<and> core d = c \<and> \<not> clk t < deadline)"
  by (subst skip_to_sof_unfold, rule py_spec_seq [OF read_exactly_spec [of 1 "BL_SOF # xs" c t deadline]])
    (auto simp: py_spec_def py_return_def)

lemma read_any:
  assumes "0 < count"
  shows "py_spec (\<lambda>d. rx d = xs \<and> core d = c) (read_exactly P count deadline)
    (\<lambda>bs d. bs = take count xs \<and> count \<le> length xs \<and> rx d = drop count xs \<and> core d = c)
    (\<lambda>e d. e = Bootloader_Timeout \<and> core d = c)"
proof (rule py_spec_at)
  fix d0 assume "rx d0 = xs \<and> core d0 = c"
  then show "py_spec (\<lambda>d. d = d0) (read_exactly P count deadline)
    (\<lambda>bs d. bs = take count xs \<and> count \<le> length xs \<and> rx d = drop count xs \<and> core d = c)
    (\<lambda>e d. e = Bootloader_Timeout \<and> core d = c)"
    by (intro py_spec_weaken [OF read_exactly_spec [OF assms, of xs c "ticks d0" deadline]]) auto
qed

lemma skip_to_sof_any:
  "py_spec (\<lambda>d. rx d = xs \<and> core d = c) (skip_to_sof P deadline)
    (\<lambda>_ d. \<exists>rest. dropWhile (\<lambda>b. b \<noteq> BL_SOF) xs = BL_SOF # rest \<and> rx d = rest \<and> core d = c)
    (\<lambda>e d. e = Bootloader_Timeout \<and> core d = c)"
proof (induction xs)
  case Nil
  show ?case
    by (subst skip_to_sof_unfold, rule py_spec_seq [OF read_any [of 1 "[]" c deadline]]) (auto simp: py_spec_def)
next
  case (Cons x xs)
  have "unat x = SOF \<longleftrightarrow> x = BL_SOF" by (simp add: word_unat_eq_iff)
  with Cons show ?case
    by (subst skip_to_sof_unfold, intro py_spec_seq [OF read_any [of 1 "x # xs" c deadline]])
      (auto simp: py_spec_def py_return_def)
qed

text \<open>A frame whose length field is right is read to its end and decoded.\<close>

lemma read_frame_spec:
  fixes c0 l0 l1 :: u8
  assumes "from_bytes [l0, l1] = length pl" and "length pl \<le> 512" and "length crc = 4"
  defines "bytes \<equiv> [BL_SOF, c0, l0, l1] @ pl @ crc"
  shows "py_spec (\<lambda>d. rx d = bytes \<and> core d = c \<and> ticks d = t) (read_frame P deadline)
    (\<lambda>a d. decode_frame bytes = Inr a \<and> core d = c)
    (\<lambda>e d. core d = c \<and> (e = Bootloader_Timeout \<and> \<not> (\<forall>j<4. clk (t + j) < deadline) \<or> decode_frame bytes = Inl e))"
    (is "py_spec ?A _ ?B ?E")
proof -
  have late: "\<not> (\<forall>j<4. clk (t + j) < deadline)" if "\<not> clk (t + i) < deadline" "i < 4" for i using that by blast
  have tail: "py_spec (\<lambda>d. rx d = crc \<and> core d = c \<and> ticks d = t') (py_bind (read_exactly P 4 deadline)
      (\<lambda>crc. py_lift (decode_frame ([of_nat SOF] @ [c0, l0, l1] @ pl @ crc)))) ?B ?E" if "t' = t + 2 \<or> t' = t + 3" for t'
    by (rule py_spec_seq [OF read_exactly_spec [of 4 crc c t' deadline]])
      (use that assms(3) late [of 2] late [of 3] in \<open>auto simp: py_spec_def py_lift_def bytes_def split: sum.split\<close>)
  have mid: "py_spec (\<lambda>d. rx d = pl @ crc \<and> core d = c \<and> ticks d = t + 2)
      (py_bind (if length pl \<noteq> 0 then read_exactly P (length pl) deadline else py_return [])
        (\<lambda>payload. py_bind (read_exactly P 4 deadline)
          (\<lambda>crc. py_lift (decode_frame ([of_nat SOF] @ [c0, l0, l1] @ payload @ crc))))) ?B ?E"
  proof (cases "pl = []")
    case True
    with tail [of "t + 2"] show ?thesis by simp
  next
    case False
    then have "0 < length pl" "length pl \<noteq> 0" by simp_all
    then show ?thesis
      unfolding if_P [OF \<open>length pl \<noteq> 0\<close>]
      by (intro py_spec_seq [OF read_exactly_spec [of "length pl" "pl @ crc" c "t + 2" deadline]])
        (use tail [of "t + 3"] late [of 2] in \<open>auto simp: py_spec_def\<close>)
  qed
  show ?thesis
    unfolding read_frame_def
  proof (rule py_spec_seq [OF skip_to_sof_marker [of "[c0, l0, l1] @ pl @ crc" c t deadline]])
    show "py_spec (\<lambda>d. rx d = [c0, l0, l1] @ pl @ crc \<and> core d = c \<and> ticks d = Suc t)
      (py_bind (read_exactly P 3 deadline) (\<lambda>head.
        let n = from_bytes (take 2 (drop 1 head)) in
        if n > MAX_PAYLOAD then py_raise Protocol_Error
        else
          py_bind (if n \<noteq> 0 then read_exactly P n deadline else py_return []) (\<lambda>payload.
          py_bind (read_exactly P 4 deadline) (\<lambda>crc.
          py_lift (decode_frame ([of_nat SOF] @ head @ payload @ crc)))))) ?B ?E"
      by (rule py_spec_seq [OF read_exactly_spec [of 3 "[c0, l0, l1] @ pl @ crc" c "Suc t" deadline]])
        (use mid late [of 1] assms in \<open>auto simp: py_spec_def\<close>)
  qed (use late [of 0] in \<open>auto simp: bytes_def\<close>)
qed

text \<open>Nothing is read from what is mute, in time or not.\<close>

lemma read_frame_mute:
  assumes "mute bs"
  shows "py_spec (\<lambda>d. rx d = bs \<and> core d = c) (read_frame P deadline) (\<lambda>_ _. False) (\<lambda>e d. retried e \<and> core d = c)"
  unfolding read_frame_def
proof (rule py_spec_seq [OF skip_to_sof_any])
  let ?C = "\<lambda>d. core d = c" and ?E = "\<lambda>e d. retried e \<and> core d = c"
  let ?body = "py_bind (read_exactly P 3 deadline) (\<lambda>head.
      let n = from_bytes (take 2 (drop 1 head)) in
      if n > MAX_PAYLOAD then py_raise Protocol_Error
      else
        py_bind (if n \<noteq> 0 then read_exactly P n deadline else py_return []) (\<lambda>payload.
        py_bind (read_exactly P 4 deadline) (\<lambda>crc.
        py_lift (decode_frame ([of_nat SOF] @ head @ payload @ crc)))))"
  have late: "retried Bootloader_Timeout" "retried Protocol_Error" "retried Value_Error" by (simp_all add: retried_def)
  show "py_spec (\<lambda>d. \<exists>rest. dropWhile (\<lambda>b. b \<noteq> BL_SOF) bs = BL_SOF # rest \<and> rx d = rest \<and> ?C d) ?body (\<lambda>_ _. False) ?E"
  proof (rule py_spec_at)
    fix d0 assume "\<exists>rest. dropWhile (\<lambda>b. b \<noteq> BL_SOF) bs = BL_SOF # rest \<and> rx d0 = rest \<and> ?C d0"
    then obtain rest where sof: "dropWhile (\<lambda>b. b \<noteq> BL_SOF) bs = BL_SOF # rest" and d0: "rx d0 = rest \<and> ?C d0" by blast
    define n where "n = from_bytes (take 2 (drop 1 rest))"
    have mute: "length rest < 3 \<or> MAX_PAYLOAD < n \<or> length rest < 7 + n \<or> (\<exists>e. decode_frame (BL_SOF # take (7 + n) rest) = Inl e)"
      using assms sof by (auto simp: mute_def n_def Let_def split: sum.splits)
    have head: "from_bytes (take 2 (drop 1 (take 3 rest))) = n" by (simp add: n_def drop_take)
    let ?tail = "\<lambda>payload. py_bind (read_exactly P 4 deadline) (\<lambda>crc.
        py_lift (decode_frame ([of_nat SOF] @ take 3 rest @ payload @ crc)))"
    have tail: "py_spec (\<lambda>d. 3 + n \<le> length rest \<and> rx d = drop (n + 3) rest \<and> ?C d) (?tail (take n (drop 3 rest))) (\<lambda>_ _. False) ?E"
      if "3 \<le> length rest" "\<not> MAX_PAYLOAD < n"
    proof -
      have all: "take 3 rest @ take n (drop 3 rest) @ take 4 (drop (n + 3) rest) = take (7 + n) rest"
        using take_add [of 3 "n + 4" rest] take_add [of n 4 "drop 3 rest"] by (simp add: add.commute)
      show ?thesis
        by (rule py_spec_seq [OF read_any [of 4 "drop (n + 3) rest" c deadline]])
          (use mute that late in \<open>auto simp: py_spec_def py_lift_def all dest: decode_frame_error\<close>)
    qed
    have mid: "py_spec (\<lambda>d. rx d = drop 3 rest \<and> ?C d)
        (py_bind (if n \<noteq> 0 then read_exactly P n deadline else py_return []) ?tail) (\<lambda>_ _. False) ?E"
      if "3 \<le> length rest" "\<not> MAX_PAYLOAD < n"
    proof (cases "n = 0")
      case True
      with tail [OF that] that show ?thesis by (auto simp: py_spec_def)
    next
      case False
      then show ?thesis
        by (simp only: if_True simp_thms)
          (rule py_spec_seq [OF read_any [of n "drop 3 rest" c deadline]], use False tail [OF that] that late in \<open>auto simp: py_spec_def\<close>)
    qed
    show "py_spec (\<lambda>d. d = d0) ?body (\<lambda>_ _. False) ?E"
      by (rule py_spec_seq [OF read_any [of 3 rest c deadline]])
        (use d0 head mid late in \<open>auto simp: py_spec_def py_raise_def Let_def\<close>)
  qed
qed (auto simp: retried_def)

text \<open>Awaiting an answer: it is there, or the line stays mute.\<close>

lemma await_response_unfold:
  "await_response P cmd deadline =
     py_bind (read_frame P deadline) (\<lambda>(c, data). if c = cmd then py_return data else await_response P cmd deadline)"
  by (rule ext, subst await_response.simps) (auto simp: py_simps intro!: bind_option_cong split: sum.split)

lemma await_answer:
  assumes "length p \<le> 512"
  shows "py_spec (\<lambda>d. rx d = frame_bytes cmd p \<and> core d = c \<and> ticks d = t) (await_response P (unat cmd) deadline)
    (\<lambda>data d. data = p \<and> core d = c)
    (\<lambda>e d. e = Bootloader_Timeout \<and> core d = c \<and> \<not> (\<forall>j<4. clk (t + j) < deadline))"
proof -
  obtain l0 l1 where l: "put_u16_le (of_nat (length p)) = [l0, l1]" by (simp add: put_u16_le_def)
  have n: "from_bytes [l0, l1] = length p" unfolding l [symmetric] using assms by (simp add: unat_of_nat)
  let ?crc = "put_u32_le (bl_crc32 0 (frame_body cmd p))"
  have f: "frame_bytes cmd p = [BL_SOF, cmd, l0, l1] @ p @ ?crc" by (simp add: frame_bytes_def frame_body_def l)
  have "decode_frame (frame_bytes cmd p) = Inr (unat cmd, p)" 
    using assms unsigned_less [of cmd, where ?'a = nat] by (simp add: decode_frame_iff)
  then show ?thesis
    unfolding f
    by (subst await_response_unfold, intro py_spec_seq [OF read_frame_spec [OF n assms, of ?crc cmd c t deadline]])
      (auto simp: py_spec_def py_return_def)
qed

lemma await_mute:
  assumes "mute bs"
  shows "py_spec (\<lambda>d. rx d = bs \<and> core d = c) (await_response P cmd deadline)
    (\<lambda>_ _. False) (\<lambda>e d. retried e \<and> core d = c)"
  by (subst await_response_unfold, rule py_spec_bind [OF read_frame_mute [OF assms]]) (simp add: py_spec_def)

text \<open>Waiting for the answer to a request, with a fresh deadline: it is mute, or an answer that is read unless time runs out.\<close>

lemma await_outcome:
  assumes "mute (rx d) \<and> J (core d) \<or>
      (\<exists>st data. rx d = frame_bytes cmd (st # data) \<and> length data \<le> 511 \<and> Q st data (core d) \<and> (fast \<or> J (core d)))"
    and fast: "fast \<Longrightarrow> \<forall>i. \<forall>j\<le>4. clk (i + j) < clk i + timeout"
  obtains (retry) e d' where "await_response P (unat cmd) (clk (ticks d) + timeout) (snd (pp_monotonic P d)) = Some (Inl e, d')"
      and "retried e" and "J (core d')"
    | (answer) st data d' where "await_response P (unat cmd) (clk (ticks d) + timeout) (snd (pp_monotonic P d)) = Some (Inr (st # data), d')"
      and "Q st data (core d')"
proof -
  let ?d = "snd (pp_monotonic P d)" and ?dl = "clk (ticks d) + timeout"
  have d: "rx ?d = rx d" "core ?d = core d" "ticks ?d = Suc (ticks d)" by (simp_all add: laws)
  from assms(1) show thesis
  proof
    assume m: "mute (rx d) \<and> J (core d)"
    from await_mute [OF m [THEN conjunct1], of "core d" "unat cmd" ?dl] show thesis
      by (cases rule: py_specD [where d = ?d]) (use d m retry in auto)
  next
    assume "\<exists>st data. rx d = frame_bytes cmd (st # data) \<and> length data \<le> 511 \<and> Q st data (core d) \<and> (fast \<or> J (core d))"
    then obtain st data where a: "rx d = frame_bytes cmd (st # data)" "length data \<le> 511" "Q st data (core d)" "fast \<or> J (core d)"
      by blast
    have in_time: "\<forall>j<4. clk (Suc (ticks d) + j) < ?dl" if fast
      using fast [OF that, rule_format, of "Suc j" "ticks d" for j] by simp
    have "length (st # data) \<le> 512" using a(2) by simp
    from await_answer [OF this, of cmd "core d" "Suc (ticks d)" ?dl] show thesis
      by (cases rule: py_specD [where d = ?d]) (use d a in_time answer retry in \<open>auto simp: retried_def\<close>)
  qed
qed

text \<open>
  A transaction. \<open>J att\<close> is what holds of the device before attempt \<open>att\<close>: writing the request
  leaves the line mute, or an answer with \<open>Q att\<close> in the buffer, which on a fast line is the
  end of it, or raises an exception with \<open>X\<close>, which ends the transaction.
\<close>

lemma transact_loop_spec:
  assumes step: "\<And>att d. att < limit \<Longrightarrow> J att (core d) \<Longrightarrow> rx d = [] \<Longrightarrow> \<exists>r d'. pp_write P request d = Some (r, d') \<and>
      (case r of
         Inl e \<Rightarrow> X e (core d')
       | Inr _ \<Rightarrow>
           mute (rx d') \<and> J (Suc att) (core d') \<or>
           (\<exists>st data. rx d' = frame_bytes cmd (st # data) \<and> length data \<le> 511 \<and> Q att st data (core d') \<and>
              (fast \<or> J (Suc att) (core d'))))"
    and fast: "fast \<Longrightarrow> \<forall>i. \<forall>j\<le>4. clk (i + j) < clk i + timeout"
    and "att + n = limit"
  shows "py_spec (\<lambda>d. J att (core d)) (transact_loop P (unat cmd) request timeout n att)
    (\<lambda>response d. \<exists>att' st data. response = \<lparr>rsp_cmd = unat cmd, rsp_status = unat st, rsp_data = data, rsp_attempts = att'\<rparr> \<and>
       att \<le> att' \<and> Q att' st data (core d))
    (\<lambda>e d. e = Bootloader_Timeout \<and> J limit (core d) \<or> X e (core d))"
  using assms(3)
proof (induction n arbitrary: att)
  case 0
  then show ?case by (simp add: py_spec_def)
next
  case (Suc n)
  have att: "att < limit" using Suc.prems by simp
  have IH: "py_spec (\<lambda>d. J (Suc att) (core d)) (transact_loop P (unat cmd) request timeout n (Suc att))
    (\<lambda>response d. \<exists>att' st data. response = \<lparr>rsp_cmd = unat cmd, rsp_status = unat st, rsp_data = data, rsp_attempts = att'\<rparr> \<and>
       Suc att \<le> att' \<and> Q att' st data (core d))
    (\<lambda>e d. e = Bootloader_Timeout \<and> J limit (core d) \<or> X e (core d))" using Suc by simp
  show ?case
    unfolding py_spec_def
  proof (intro allI impI)
    fix d assume J: "J att (core d)"
    let ?d0 = "snd (pp_reset_input_buffer P d)"
    let ?goal = "\<exists>r d'. transact_loop P (unat cmd) request timeout (Suc n) att d = Some (r, d') \<and>
      (case r of Inl e \<Rightarrow> e = Bootloader_Timeout \<and> J limit (core d') \<or> X e (core d')
       | Inr response \<Rightarrow> \<exists>att' st data. response = \<lparr>rsp_cmd = unat cmd, rsp_status = unat st, rsp_data = data,
            rsp_attempts = att'\<rparr> \<and> att \<le> att' \<and> Q att' st data (core d'))"
    from step [OF att, of ?d0] J obtain r d1 where d1: "pp_write P request ?d0 = Some (r, d1)"
      and wr: "case r of
         Inl e \<Rightarrow> X e (core d1)
       | Inr _ \<Rightarrow>
           mute (rx d1) \<and> J (Suc att) (core d1) \<or>
           (\<exists>st data. rx d1 = frame_bytes cmd (st # data) \<and> length data \<le> 511 \<and> Q att st data (core d1) \<and>
              (fast \<or> J (Suc att) (core d1)))"
      by (auto simp: laws)
    show ?goal
    proof (cases r)
      case (Inl e)
      with d1 wr show ?thesis by (simp add: case_prod_beta reset_succeeds)
    next
      case (Inr u)
      have run: "transact_loop P (unat cmd) request timeout (Suc n) att d =
        do {
          (r, d) \<leftarrow> await_response P (unat cmd) (clk (ticks d1) + timeout) (snd (pp_monotonic P d1));
          case r of
            Inl e \<Rightarrow> if retried e then transact_loop P (unat cmd) request timeout n (att + 1) d else Some (Inl e, d)
          | Inr data \<Rightarrow>
              if data = [] then transact_loop P (unat cmd) request timeout n (att + 1) d
              else Some (Inr \<lparr>rsp_cmd = unat cmd, rsp_status = unat (data ! 0), rsp_data = drop 1 data,
                              rsp_attempts = att\<rparr>, d)
        }" by (simp add: d1 Inr case_prod_beta reset_succeeds clock)
      have cases: "mute (rx d1) \<and> J (Suc att) (core d1) \<or>
           (\<exists>st data. rx d1 = frame_bytes cmd (st # data) \<and> length data \<le> 511 \<and> Q att st data (core d1) \<and>
              (fast \<or> J (Suc att) (core d1)))" using wr Inr by simp
      show ?thesis
      proof (cases rule: await_outcome [where J = "J (Suc att)" and Q = "Q att" and fast = fast and timeout = timeout, OF cases fast])
        case (2 e d')
        from IH 2(3) show ?thesis
          by (cases rule: py_specD) (auto simp: run 2 simp del: transact_loop.simps)
      qed (auto simp: run simp del: transact_loop.simps)
    qed
  qed
qed

end

section \<open>A simulated device behind a lossy line\<close>

text \<open>
  What the line does with a request: it arrives and so does the answer; it is lost; the device
  receives \<open>f request\<close> instead; it arrives and the tool receives \<open>f answer\<close>; or \<open>write\<close> raises an
  \<open>OSError\<close>, after the request has arrived or without it. The clock advances with every
  reading; \<open>clk\<close> says what it shows.
\<close>

datatype delivery =
  Deliver | Lose_request | Damage_request "u8 list \<Rightarrow> u8 list" | Damage_answer "u8 list \<Rightarrow> u8 list" | Break bool

record link =
  lk_device :: sim_device
  lk_clock :: nat
  lk_faults :: "delivery list"

abbreviation lk_sim :: "link \<Rightarrow> sim" where
  "lk_sim l \<equiv> sd_lib (lk_device l)"

definition link_write :: "u8 list \<Rightarrow> (link, unit) py" where
  "link_write data l =
     (case lk_faults l of
        [] \<Rightarrow> do { s \<leftarrow> sd_write (lk_device l) data; Some (Inr (), l\<lparr>lk_device := s\<rparr>) }
      | Deliver # fs \<Rightarrow> do { s \<leftarrow> sd_write (lk_device l) data; Some (Inr (), l\<lparr>lk_device := s, lk_faults := fs\<rparr>) }
      | Lose_request # fs \<Rightarrow> Some (Inr (), l\<lparr>lk_faults := fs\<rparr>)
      | Damage_request f # fs \<Rightarrow> do {
          s \<leftarrow> sd_write (lk_device l) (f data);
          Some (Inr (), l\<lparr>lk_device := s, lk_faults := fs\<rparr>)
        }
      | Damage_answer f # fs \<Rightarrow> do {
          s \<leftarrow> sd_write ((lk_device l)\<lparr>sd_rx := []\<rparr>) data;
          Some (Inr (), l\<lparr>lk_device := s\<lparr>sd_rx := sd_rx (lk_device l) @ f (sd_rx s)\<rparr>, lk_faults := fs\<rparr>)
        }
      | Break arrived # fs \<Rightarrow> do {
          s \<leftarrow> (if arrived then sd_write (lk_device l) data else Some (lk_device l));
          Some (Inl Os_Error, l\<lparr>lk_device := s, lk_faults := fs\<rparr>)
        })"

definition link_port :: "(nat \<Rightarrow> int) \<Rightarrow> link py_port" where
  "link_port clk =
     \<lparr>pp_write = link_write,
      pp_read = (\<lambda>l n. (Inr (fst (sd_read (lk_device l) n)), l\<lparr>lk_device := snd (sd_read (lk_device l) n)\<rparr>)),
      pp_reset_input_buffer = (\<lambda>l. (Inr (), l\<lparr>lk_device := sd_reset_input_buffer (lk_device l)\<rparr>)),
      pp_timeout = None,
      pp_monotonic = (\<lambda>l. (clk (lk_clock l), l\<lparr>lk_clock := Suc (lk_clock l)\<rparr>))\<rparr>"

interpretation link: serial_port "link_port clk" "\<lambda>l. sd_rx (lk_device l)" "\<lambda>l. (lk_sim l, lk_faults l)" lk_clock clk for clk
  by unfold_locales (simp_all add: link_port_def sd_read_def sd_reset_input_buffer_def)

text \<open>
  Damage is harmless when it is noticed: no frame can be read from a damaged answer, and a
  damaged request leaves an idle parser idle without completing a frame (\<open>unheard\<close>).
  \<open>tolerable r k fs\<close>: at most \<open>k\<close> requests of \<open>fs\<close> fail before the first that does not, and
  at most \<open>r\<close> in a row after that, and none breaks the port.
\<close>

definition unheard :: "u8 list \<Rightarrow> bool" where
  "unheard bs \<longleftrightarrow> length bs < 2 ^ 32 \<and>
     (\<forall>p. parser_inv p \<and> parser_state p = BL_FRAME_WAIT_SOF \<longrightarrow>
        BL_FRAME_COMPLETE \<notin> set (fst (feed_all p bs)) \<and> parser_state (snd (feed_all p bs)) = BL_FRAME_WAIT_SOF)"

fun harmless :: "delivery \<Rightarrow> bool" where
  "harmless (Damage_request f) \<longleftrightarrow> (\<forall>c p. length p \<le> 512 \<longrightarrow> unheard (f (frame_bytes c p)))"
| "harmless (Damage_answer f) \<longleftrightarrow> (\<forall>c p. length p \<le> 512 \<longrightarrow> mute (f (frame_bytes c p)))"
| "harmless _ \<longleftrightarrow> True"

fun breaks :: "delivery \<Rightarrow> bool" where
  "breaks (Break _) \<longleftrightarrow> True"
| "breaks _ \<longleftrightarrow> False"

fun tolerable :: "nat \<Rightarrow> nat \<Rightarrow> delivery list \<Rightarrow> bool" where
  "tolerable r k [] \<longleftrightarrow> True"
| "tolerable r k (Deliver # fs) \<longleftrightarrow> tolerable r r fs"
| "tolerable r k (Break _ # fs) \<longleftrightarrow> False"
| "tolerable r (Suc k) (f # fs) \<longleftrightarrow> tolerable r k fs"
| "tolerable r 0 (f # fs) \<longleftrightarrow> False"

lemma tolerable_failed:
  "tolerable r k (Lose_request # fs) \<longleftrightarrow> 0 < k \<and> tolerable r (k - 1) fs"
  "tolerable r k (Damage_request g # fs) \<longleftrightarrow> 0 < k \<and> tolerable r (k - 1) fs"
  "tolerable r k (Damage_answer g # fs) \<longleftrightarrow> 0 < k \<and> tolerable r (k - 1) fs"
  by (cases k; simp)+

text \<open>Requests that are noise without a start marker, or have up to four consecutive bytes
  changed outside the length, are unheard.\<close>

lemma feed_all_noise: "BL_SOF \<notin> set bs \<Longrightarrow> parser_state p = BL_FRAME_WAIT_SOF \<Longrightarrow>
  feed_all p bs = (replicate (length bs) BL_FRAME_INCOMPLETE, p)"
  by (induction bs) (auto simp: bl_frame_feed_def)

lemma unheard_noise: "BL_SOF \<notin> set bs \<Longrightarrow> length bs < 2 ^ 32 \<Longrightarrow> unheard bs"
  by (simp add: unheard_def feed_all_noise del: BL_SOF_def)

lemma unheard_burst:
  assumes "frame_bytes c p = BL_SOF # xs @ ds @ ys" and "length p \<le> 512"
    and "length ds = length es" and "length es \<le> 4" and "ds \<noteq> es"
    and "take 2 (drop 2 (BL_SOF # xs @ es @ ys)) = put_u16_le (of_nat (length p))"
  shows "unheard (BL_SOF # xs @ es @ ys)"
proof -
  have "length (BL_SOF # xs @ es @ ys) \<le> 520" using arg_cong [OF assms(1), of length] assms(2,3) by simp
  moreover have "BL_FRAME_COMPLETE \<notin> set (fst (feed_all q (BL_SOF # xs @ es @ ys))) \<and>
      parser_state (snd (feed_all q (BL_SOF # xs @ es @ ys))) = BL_FRAME_WAIT_SOF"
    if "parser_inv q" "parser_state q = BL_FRAME_WAIT_SOF" for q
    using burst_rejected [OF that assms] by (auto simp del: feed_all.simps)
  ultimately show ?thesis by (auto simp: unheard_def simp del: feed_all.simps)
qed

text \<open>
  The line before attempt \<open>att\<close>; a \<open>live\<close> line lets one of every \<open>retries\<close> attempts through, and
  only with \<open>brk\<close> may the port raise an exception.
\<close>

definition line_ok :: "bool \<Rightarrow> bool \<Rightarrow> nat \<Rightarrow> nat \<Rightarrow> delivery list \<Rightarrow> bool" where
  "line_ok brk live retries att fs \<longleftrightarrow>
     list_all harmless fs \<and> (list_ex breaks fs \<longrightarrow> brk) \<and>
     (live \<longrightarrow> att \<le> retries \<and> tolerable (retries - 1) (retries - att) fs)"

lemma sd_write_exchange:
  assumes "exchange c pl (sd_lib s) = Some (answer, d')"
  shows "sd_write s (frame_bytes c pl) = Some (s\<lparr>sd_lib := d', sd_rx := sd_rx s @ answer\<rparr>)"
  using assms by (auto simp: exchange_def sd_write_def Let_def elim!: bind_SomeE)

text \<open>An unheard request changes nothing but the scratch state of the parser, which stays idle.\<close>

definition same_but_parser :: "sim \<Rightarrow> sim \<Rightarrow> bool" where
  "same_but_parser d d' \<longleftrightarrow>
     d' = d \<or> (\<exists>p. parser_inv p \<and> parser_state p = BL_FRAME_WAIT_SOF \<and> d' = d\<lparr>g_parser := p\<rparr>)"

lemma same_but_parser_keeps:
  "same_but_parser d d' \<Longrightarrow> (dev_idle d \<longrightarrow> dev_idle d') \<and> sim_host d' = sim_host d \<and> g_session d' = g_session d"
  by (auto simp: same_but_parser_def dev_idle_def sim_inv_def)

lemma sim_feed_loop_unheard:
  "BL_FRAME_COMPLETE \<notin> set (fst (feed_all (g_parser d) bs)) \<Longrightarrow>
   sim_feed_loop d bs response cap = Some (0, response, d\<lparr>g_parser := snd (feed_all (g_parser d) bs)\<rparr>)"
proof (induction bs arbitrary: d)
  case (Cons b bs)
  obtain st p where f: "bl_frame_feed (g_parser d) b = (st, p)" by (cases "bl_frame_feed (g_parser d) b")
  with Cons.prems have "st \<noteq> BL_FRAME_COMPLETE" "BL_FRAME_COMPLETE \<notin> set (fst (feed_all (g_parser (d\<lparr>g_parser := p\<rparr>)) bs))"
    by (auto split: prod.splits)
  with Cons.IH [of "d\<lparr>g_parser := p\<rparr>"] f show ?case by (simp split: prod.split)
qed simp

lemma feed_all_inv: "parser_inv p \<Longrightarrow> parser_inv (snd (feed_all p bs))"
proof (induction bs arbitrary: p)
  case (Cons b bs)
  from feed_outcome_always [OF Cons.prems, of b] have "parser_inv (snd (bl_frame_feed p b))"
    by (simp add: feed_outcome_def Let_def split: prod.splits)
  with Cons.IH show ?case by (simp split: prod.split) (metis snd_conv)
qed simp

lemma sd_write_unheard:
  assumes "unheard bs" and idle: "dev_idle (sd_lib s)"
  shows "\<exists>d. sd_write s bs = Some (s\<lparr>sd_lib := d\<rparr>) \<and> same_but_parser (sd_lib s) d"
proof -
  let ?p = "g_parser (sd_lib s)"
  have p: "parser_inv ?p" "parser_state ?p = BL_FRAME_WAIT_SOF" using idle by (simp_all add: dev_idle_def sim_inv_def)
  with assms(1) have u: "BL_FRAME_COMPLETE \<notin> set (fst (feed_all ?p bs))" "parser_state (snd (feed_all ?p bs)) = BL_FRAME_WAIT_SOF"
    "length bs < 2 ^ 32" by (auto simp: unheard_def)
  have "take (unat (of_nat (length bs) :: u32)) bs = bs" using u(3) by (simp add: unat_of_nat)
  then have "sd_write s bs = Some (s\<lparr>sd_lib := (sd_lib s)\<lparr>g_parser := snd (feed_all ?p bs)\<rparr>\<rparr>)"
    by (simp add: sd_write_def sim_feed_def sim_feed_loop_unheard [OF u(1)])
  moreover have "same_but_parser (sd_lib s) ((sd_lib s)\<lparr>g_parser := snd (feed_all ?p bs)\<rparr>)"
    using u(2) feed_all_inv [OF p(1)] by (auto simp: same_but_parser_def)
  ultimately show ?thesis by blast
qed

lemma link_write_steps:
  assumes x: "exchange c pl (lk_sim l) = Some (frame_bytes c (st # data), d')" and len: "length pl \<le> 512" "length data \<le> 511"
    and idle: "dev_idle (lk_sim l)"
    and ok: "line_ok brk live retries att (lk_faults l)" and empty: "sd_rx (lk_device l) = []" "1 \<le> att"
  obtains (delivered) l' where "link_write (frame_bytes c pl) l = Some (Inr (), l')" and "sd_rx (lk_device l') = frame_bytes c (st # data)"
      and "lk_sim l' = d'" and "line_ok brk live retries 1 (lk_faults l')" and "\<not> live \<Longrightarrow> line_ok brk live retries (Suc att) (lk_faults l')"
    | (lost) l' where "link_write (frame_bytes c pl) l = Some (Inr (), l')" and "mute (sd_rx (lk_device l'))"
      and "same_but_parser (lk_sim l) (lk_sim l') \<or> lk_sim l' = d'" and "line_ok brk live retries (Suc att) (lk_faults l')"
    | (broken) l' where "link_write (frame_bytes c pl) l = Some (Inl Os_Error, l')" and "brk" and "\<not> live"
      and "same_but_parser (lk_sim l) (lk_sim l') \<or> lk_sim l' = d'" and "line_ok brk live retries 1 (lk_faults l')"
proof (cases "lk_faults l")
  case Nil
  then show ?thesis
    using ok empty by (intro delivered [of "l\<lparr>lk_device := (lk_device l)\<lparr>sd_lib := d', sd_rx := frame_bytes c (st # data)\<rparr>\<rparr>"])
      (auto simp: link_write_def sd_write_exchange [OF x] line_ok_def)
next
  case (Cons f fs)
  have same: "same_but_parser d d" for d by (simp add: same_but_parser_def)
  have quiet: "mute []" by (simp add: mute_def)
  show ?thesis
  proof (cases f)
    case Deliver
    then show ?thesis
      using Cons ok empty
      by (intro delivered [of "l\<lparr>lk_device := (lk_device l)\<lparr>sd_lib := d', sd_rx := frame_bytes c (st # data)\<rparr>, lk_faults := fs\<rparr>"])
        (auto simp: link_write_def sd_write_exchange [OF x] line_ok_def)
  next
    case Lose_request
    then show ?thesis
      using Cons ok empty same quiet
      by (intro lost [of "l\<lparr>lk_faults := fs\<rparr>"]) (auto simp: link_write_def line_ok_def tolerable_failed)
  next
    case (Damage_request g)
    have "unheard (g (frame_bytes c pl))" using Damage_request Cons ok len(1) by (simp add: line_ok_def)
    from sd_write_unheard [OF this idle] obtain d where
      "sd_write (lk_device l) (g (frame_bytes c pl)) = Some ((lk_device l)\<lparr>sd_lib := d\<rparr>)" "same_but_parser (lk_sim l) d" by blast
    then show ?thesis
      using Damage_request Cons ok empty quiet
      by (intro lost [of "l\<lparr>lk_device := (lk_device l)\<lparr>sd_lib := d\<rparr>, lk_faults := fs\<rparr>"])
        (auto simp: link_write_def line_ok_def tolerable_failed)
  next
    case (Damage_answer g)
    have x': "exchange c pl (sd_lib (lk_device l\<lparr>sd_rx := []\<rparr>)) = Some (frame_bytes c (st # data), d')" using x by simp
    have "mute (g (frame_bytes c (st # data)))" using Damage_answer Cons ok len by (simp add: line_ok_def)
    then show ?thesis
      using Damage_answer Cons ok empty
      by (intro lost [of "l\<lparr>lk_device := (lk_device l)\<lparr>sd_lib := d', sd_rx := g (frame_bytes c (st # data))\<rparr>, lk_faults := fs\<rparr>"])
        (auto simp: link_write_def sd_write_exchange [OF x'] line_ok_def tolerable_failed)
  next
    case (Break arrived)
    let ?s = "if arrived then (lk_device l)\<lparr>sd_lib := d', sd_rx := frame_bytes c (st # data)\<rparr> else lk_device l"
    show ?thesis
      using Break Cons ok empty same
      by (intro broken [of "l\<lparr>lk_device := ?s, lk_faults := fs\<rparr>"])
        (auto simp: link_write_def sd_write_exchange [OF x] line_ok_def)
  qed
qed

text \<open>
  A transaction over the line. \<open>I att\<close> is what holds of the device before attempt \<open>att\<close>, whatever
  became of the attempts before; the device answers the request with \<open>Q att\<close>.
\<close>

definition line_error :: "bool \<Rightarrow> py_error \<Rightarrow> bool" where
  "line_error brk e \<longleftrightarrow> e = Bootloader_Timeout \<or> e = Os_Error \<and> brk"

lemma link_transact:
  assumes answers: "\<And>att d. 1 \<le> att \<Longrightarrow> att \<le> retries \<Longrightarrow> I att d \<Longrightarrow> \<exists>st data d'. exchange c pl d = Some (frame_bytes c (st # data), d') \<and>
      length data \<le> 511 \<and> Q att st data d' \<and> I (Suc att) d'"
    and lost: "\<And>att d d'. 1 \<le> att \<Longrightarrow> I att d \<Longrightarrow> same_but_parser d d' \<Longrightarrow> I (Suc att) d'"
    and idle: "\<And>att d. I att d \<Longrightarrow> dev_idle d"
    and pl: "length pl \<le> 512" and clock: "live \<Longrightarrow> \<forall>i. \<forall>j\<le>4. clk (i + j) < clk i + timeout"
  shows "py_spec (\<lambda>l. line_ok brk live retries 1 (lk_faults l) \<and> I 1 (lk_sim l))
    (transact (link_port clk) retries (unat c) pl timeout)
    (\<lambda>r l. line_ok brk live retries 1 (lk_faults l) \<and> (\<exists>att st data. r = \<lparr>rsp_cmd = unat c, rsp_status = unat st, rsp_data = data,
        rsp_attempts = att\<rparr> \<and> 1 \<le> att \<and> Q att st data (lk_sim l)))
    (\<lambda>e l. line_error brk e \<and> \<not> live \<and> line_ok brk live retries 1 (lk_faults l) \<and> (\<exists>att\<ge>1. I att (lk_sim l)))"
proof -
  let ?J = "\<lambda>att (d, fs). 1 \<le> att \<and> I att d \<and> line_ok brk live retries att fs"
  let ?Q = "\<lambda>att st data (d, fs). 1 \<le> att \<and> Q att st data d \<and> line_ok brk live retries 1 fs"
  let ?X = "\<lambda>e (d, fs). e = Os_Error \<and> brk \<and> \<not> live \<and> line_ok brk live retries 1 fs \<and> (\<exists>att\<ge>1. I att d)"
  have "\<exists>r l'. pp_write (link_port clk) (frame_bytes c pl) l = Some (r, l') \<and>
      (case r of
         Inl e \<Rightarrow> ?X e (lk_sim l', lk_faults l')
       | Inr _ \<Rightarrow>
           mute (sd_rx (lk_device l')) \<and> ?J (Suc att) (lk_sim l', lk_faults l') \<or>
           (\<exists>st data. sd_rx (lk_device l') = frame_bytes c (st # data) \<and> length data \<le> 511 \<and> ?Q att st data (lk_sim l', lk_faults l') \<and>
              (live \<or> ?J (Suc att) (lk_sim l', lk_faults l'))))"
    if top: "att < Suc retries" and J: "?J att (lk_sim l, lk_faults l)" and empty: "sd_rx (lk_device l) = []" for att l
  proof -
    have att: "1 \<le> att" "I att (lk_sim l)" "line_ok brk live retries att (lk_faults l)" using J by simp_all
    have "att \<le> retries" using top by simp
    from answers [OF att(1) this att(2)] obtain st data d' where x: "exchange c pl (lk_sim l) = Some (frame_bytes c (st # data), d')"
      and a: "length data \<le> 511" "Q att st data d'" "I (Suc att) d'" by blast
    have next_I: "I (Suc att) d2" if "same_but_parser (lk_sim l) d2 \<or> d2 = d'" for d2
      using that a(3) lost [OF att(1,2)] by blast
    show ?thesis
    proof (cases rule: link_write_steps [OF x pl a(1) idle [OF att(2)] att(3) empty att(1)])
      case (1 l')
      have "\<exists>st data. sd_rx (lk_device l') = frame_bytes c (st # data) \<and> length data \<le> 511 \<and>
          ?Q att st data (lk_sim l', lk_faults l') \<and> (live \<or> ?J (Suc att) (lk_sim l', lk_faults l'))"
        using 1 a att by (intro exI [of _ st] exI [of _ data]) (cases live; simp)
      then show ?thesis using 1(1) by (intro exI [of _ "Inr ()"] exI [of _ l']) (simp add: link_port_def)
    next
      case (2 l')
      then show ?thesis using next_I [OF 2(3)] by (intro exI [of _ "Inr ()"] exI [of _ l']) (simp add: link_port_def)
    next
      case (3 l')
      have "\<exists>n\<ge>1. I n (lk_sim l')" using next_I [OF 3(4)] le_SucI [OF att(1)] by blast
      then show ?thesis using 3 by (intro exI [of _ "Inl Os_Error"] exI [of _ l']) (simp add: link_port_def)
    qed
  qed
  note step = this
  have enc: "encode_frame (unat c) pl = Inr (frame_bytes c pl)"
    using pl unsigned_less [of c, where ?'a = nat] by (simp add: encode_frame_eq)
  have "transact (link_port clk) retries (unat c) pl timeout =
      transact_loop (link_port clk) (unat c) (frame_bytes c pl) timeout retries 1"
    by (simp add: transact_def enc)
  then show ?thesis
    by (simp only:, intro py_spec_weaken [OF link.transact_loop_spec [where J = ?J and Q = ?Q and X = ?X and fast = live and limit = "Suc retries", OF step clock]])
      (auto simp: line_ok_def line_error_def)
qed

end
