(* ===== verification/Bl_Recovery.thy ===== *)
theory Bl_Recovery
  imports Bl_Update
begin

unbundle bit_operations_syntax

text \<open>
  What a device does after something went wrong: an update that was cut off before its
  header, and flash that was corrupted behind the bootloader's back with the
  simulation's \<open>sim_corrupt\<close>.
\<close>

section \<open>An interrupted update\<close>

lemma blank_header_invalid:
  assumes "bytes_at m (region_lo (layout_slot g_layout ! unat a)) 40 = replicate 40 0xFF"
  shows "slot_image g_layout m a = Inl BL_ERR_MAGIC"
proof -
  have "hdr_magic (hdr_of_bytes (replicate 40 0xFF)) \<noteq> BL_IMG_MAGIC"
    by (simp add: hdr_of_bytes_def get_u32_le_def)
  then show ?thesis unfolding slot_image_def Let_def SIZEOF_IMG_HDR_def assms by (rule if_P)
qed

lemma staged_invalid:
  assumes "staged slot e pre h0 session h"
  shows "slot_image g_layout (host_mem h) slot = Inl BL_ERR_MAGIC"
proof -
  let ?lo = "region_lo (layout_slot g_layout ! unat slot)"
  have bytes: "bytes_at (host_mem h) ?lo 40 = replicate 40 0xFF"
    using assms by (intro nth_equalityI) (auto simp: staged_def Let_def)
  then show ?thesis by (rule blank_header_invalid)
qed

text \<open>What a slot's bytes decide: its image, its entry point and whether the jump is taken.\<close>

lemma slot_bytes_boot:
  assumes same: "\<And>x. region_lo (layout_slot g_layout ! unat a) \<le> x \<Longrightarrow> x < region_hi (layout_slot g_layout ! unat a) \<Longrightarrow> m' x = m x"
    and v: "slot_is_valid a"
  shows "slot_image g_layout m' a = slot_image g_layout m a" and "boot_entry g_layout m' a = boot_entry g_layout m a"
    and "is_ok (slot_image g_layout m a) \<Longrightarrow> jump_ok m' (boot_entry g_layout m a) = jump_ok m (boot_entry g_layout m a)"
proof -
  let ?e = "boot_entry g_layout m a"
  show img: "slot_image g_layout m' a = slot_image g_layout m a" using same v by (intro slot_image_cong) simp_all
  then show "boot_entry g_layout m' a = boot_entry g_layout m a" by (simp add: boot_entry_def)
  assume "is_ok (slot_image g_layout m a)"
  then obtain hdr where "slot_image g_layout m a = Inr hdr" by (auto simp: is_ok_iff)
  note range = slot_image_entry [OF this v]
  have "bytes_at m' (unat ?e) 4 = bytes_at m (unat ?e) 4" "bytes_at m' (unat ?e + 4) 4 = bytes_at m (unat ?e + 4) 4"
    using same range v by (auto intro!: bytes_at_cong)
  then show "jump_ok m' ?e = jump_ok m ?e" by (simp only: jump_ok_def)
qed

text \<open>A change inside one slot leaves the other slot as bootable as it was.\<close>

lemma same_outside_boots:
  assumes "same_outside (layout_slot g_layout ! unat slot) m m'" and "slot_is_valid slot"
    and "is_ok (slot_image g_layout m (other_slot slot))"
  shows "slot_image g_layout m' (other_slot slot) = slot_image g_layout m (other_slot slot)"
    and "boot_entry g_layout m' (other_slot slot) = boot_entry g_layout m (other_slot slot)"
    and "jump_ok m' (boot_entry g_layout m (other_slot slot)) = jump_ok m (boot_entry g_layout m (other_slot slot))"
  using slot_bytes_boot [of "other_slot slot" m' m, OF same_outside_other(2) [OF assms(1,2)] conjunct1 [OF other_slot_valid [OF assms(2)]]]
    assms(3) by simp_all

lemma power_cycles_confirmed:
  assumes "boot_status_of g_layout (dev_mem d) = Confirmed a"
    and "meta_seq_of g_layout (dev_mem d) + n < 2 ^ 32"
  shows "\<exists>d'. power_cycles n d = Some (replicate n (boot_target (dev_mem d) (Confirmed a)), d')"
  using power_cycles_policy [OF assms(2)] assms(1) by (auto simp: policy_run_confirmed)

text \<open>
  An update cut off before its header is harmless: on a device whose active image is
  in the other slot, erase a slot and write any part of a payload to it, then lose
  power. The half-written slot is invalid, the boot metadata are as before, and every
  later power cycle boots the active image.
\<close>

lemma interrupted_update_boots_old:
  assumes "dev_idle d" and "slot_is_valid a" and "boot_status_of g_layout (host_mem (sim_host d)) = Confirmed a"
    and "is_ok (slot_image g_layout (host_mem (sim_host d)) a)"
    and "jump_ok (host_mem (sim_host d)) (boot_entry g_layout (host_mem (sim_host d)) a)"
    and "\<forall>c\<in>set chunks. chunk_ok c" and "512 + length (concat chunks) \<le> 0x1B000"
    and "length chunks \<le> host_budget (sim_host d)"
    and "meta_seq_of g_layout (host_mem (sim_host d)) + n < 2 ^ 32"
  shows "\<exists>answers d1 d2.
    exchange_all ((BL_CMD_ERASE_SLOT, [other_slot a]) # payload_writes 512 chunks) d = Some (answers, d1) \<and>
    slot_image g_layout (host_mem (sim_host d1)) (other_slot a) = Inl BL_ERR_MAGIC \<and>
    power_cycles n d1 = Some (replicate n (boot_entry g_layout (host_mem (sim_host d)) a), d2)"
proof -
  let ?m = "host_mem (sim_host d)"
  have slot: "slot_is_valid (other_slot a)" and other: "other_slot (other_slot a) = a"
    using assms(2) by (auto simp: slot_is_valid_iff)
  have refl: "same_outside (layout_slot g_layout ! unat (other_slot a)) ?m ?m" by (simp add: same_outside_def)
  obtain d0 where e0: "exchange BL_CMD_ERASE_SLOT [other_slot a] d =
      Some (frame_bytes BL_CMD_ERASE_SLOT [result_code BL_OK], d0)"
    "dev_idle d0" "staged (other_slot a) 512 [] (sim_host d) (g_session d0) (sim_host d0)"
    "host_budget (sim_host d0) = host_budget (sim_host d)"
    by (rule exchange_erase [OF assms(1) slot refl])
  from payload_writes_staged [OF e0(2,3) slot assms(6)] assms(7,8) e0(4) obtain as d1 where
    e1: "exchange_all (payload_writes 512 chunks) d0 = Some (as, d1)"
      "staged (other_slot a) 512 (concat chunks) (sim_host d) (g_session d1) (sim_host d1)" by auto
  have out: "same_outside (layout_slot g_layout ! unat (other_slot a)) ?m (dev_mem d1)"
    using e1(2) by (simp add: staged_def Let_def)
  note same = same_outside_other [OF out slot, unfolded other]
  note keep = same_outside_boots [OF out slot, unfolded other, OF assms(4)]
  have "boot_target (dev_mem d1) (Confirmed a) = boot_entry g_layout ?m a"
    using keep assms(4,5) by (simp add: boot_target_def policy_slot_def)
  moreover have "dev_status d1 = Confirmed a" "meta_seq_of g_layout (dev_mem d1) + n < 2 ^ 32"
    using assms(3,9) same(1) by (simp_all add: boot_status_of_def meta_seq_of_def)
  ultimately show ?thesis
    using e0(1) e1 staged_invalid [OF e1(2)] power_cycles_confirmed [of d1 a n] by auto
qed

text \<open>The demonstration device with version 1 in slot A confirmed.\<close>

definition steady_host :: host where
  "steady_host = demo_host\<lparr>g_flash := mem_upd (g_flash demo_host) 0x8000 (meta_bytes (meta_record 1 0 BL_BOOT_CONFIRMED 0))\<rparr>"

definition steady :: sim where
  "steady = demo\<lparr>sim_host := steady_host\<rparr>"

lemma steady_host_of [simp]: "sim_host steady = steady_host"
  by (simp add: steady_def)

lemma steady_inv [simp]: "host_inv steady_host"
  using demo_host_inv by (simp add: steady_host_def host_inv_def)

lemma steady_idle [simp]: "dev_idle steady"
  using demo_idle by (simp add: dev_idle_def sim_inv_def steady_def)

lemma steady_agree: "slots_agree g_layout (host_mem steady_host) (host_mem demo_host)"
  by (auto simp: slots_agree_def less_2_cases_iff g_layout_nth host_mem_def steady_host_def mem_upd_def)

lemma steady_authoritative [simp]:
  "meta_authoritative g_layout (host_mem steady_host) = Some (meta_record 1 0 BL_BOOT_CONFIRMED 0, 0)"
proof -
  have "bytes_at (host_mem steady_host) 0x08008000 16 = meta_bytes (meta_record 1 0 BL_BOOT_CONFIRMED 0)"
    using bytes_at_mem_upd_same [of "g_flash demo_host" "0x8000" "meta_bytes (meta_record 1 0 BL_BOOT_CONFIRMED 0)"]
    by (simp add: bytes_at_host_mem steady_host_def)
  then have "meta_view g_layout (host_mem steady_host) 0 = Some (meta_record 1 0 BL_BOOT_CONFIRMED 0)"
    using region_record_meta_record [of 0 BL_BOOT_CONFIRMED 1 0]
    by (simp add: meta_view_def g_layout_nth state_is_valid_def)
  moreover have "bytes_at (host_mem steady_host) 0x08008800 16 = replicate 16 0xFF"
    using demo_bytes(4) by (simp add: bytes_at_host_mem steady_host_def bytes_at_mem_upd_other)
  then have "meta_view g_layout (host_mem steady_host) 1 = None"
    using region_record_erased by (simp add: meta_view_def g_layout_nth)
  ultimately show ?thesis by (simp add: meta_authoritative_def)
qed

lemma steady_image [simp]: "slot_image g_layout (host_mem steady_host) 0 = Inr (image_hdr 1 vectors_a)"
  "slot_image g_layout (host_mem steady_host) 1 = Inr (image_hdr 2 vectors_b)"
  using slots_agree_image [OF steady_agree] by (simp_all add: slot_is_valid_iff)

lemma steady_entry [simp]:
  "boot_entry g_layout (host_mem steady_host) 0 = 0x08009200" "boot_entry g_layout (host_mem steady_host) 1 = 0x08024200"
  using demo_entry by (simp_all add: boot_entry_def)

lemma steady_jump_ok [simp]: "jump_ok (host_mem steady_host) 0x08009200" "jump_ok (host_mem steady_host) 0x08024200"
  using jump_ok_agree [OF steady_agree, of 0] jump_ok_agree [OF steady_agree, of 1] by (simp_all add: slot_is_valid_iff)

lemma steady_budget [simp]: "host_budget steady_host = 2 ^ 32 - 1"
  using demo_budget by (simp add: host_budget_def steady_host_def)

section \<open>Corrupted flash\<close>

lemma poke_mem:
  assumes "0x08000000 \<le> unat a" and "unat a + length bs \<le> 0x08040000"
  shows "bl_host_flash_poke h a (Some bs) (length bs) =
    Some (if bs = [] then h else h\<lparr>g_flash := mem_upd (g_flash h) (unat a - 0x08000000) bs\<rparr>)"
proof -
  have "unat (of_nat (length bs) :: u32) = length bs" using assms by (simp add: unat_of_nat)
  then show ?thesis
    using assms by (simp add: bl_host_flash_poke_def flash_range_valid_iff unat_flash_offset)
qed

text \<open>Every byte of a range inverted; the program marks and everything else stay.\<close>

definition flipped :: "host \<Rightarrow> nat \<Rightarrow> nat \<Rightarrow> host" where
  "flipped h a n = h\<lparr>g_flash := (\<lambda>k. if a - 0x08000000 \<le> k \<and> k < a - 0x08000000 + n
     then g_flash h k XOR 0xFF else g_flash h k)\<rparr>"

lemma flipped_0 [simp]: "flipped h a 0 = h"
  by (cases h) (auto simp: flipped_def fun_eq_iff)

lemma sim_corrupt_loop_flips:
  "0x08000000 \<le> unat addr \<Longrightarrow> unat addr + unat len \<le> 0x08040000 \<Longrightarrow>
   sim_corrupt_loop h addr len = Some (flipped h (unat addr) (unat len))"
proof (induction h addr len rule: sim_corrupt_loop.induct)
  case (1 h addr len)
  show ?case
  proof (cases "0 < len")
    case False
    then have "len = 0" by (simp add: word_neq_0_conv [symmetric])
    then show ?thesis by (simp add: sim_corrupt_loop.simps)
  next
    case True
    define chunk where "chunk = (if len > 256 then 256 else len)"
    have le: "chunk \<le> len" "0 < chunk" using True by (auto simp: chunk_def)
    then have nat: "unat chunk \<le> unat len" "0 < unat chunk" by (simp_all add: word_le_nat_alt word_less_nat_alt)
    have sum: "unat (addr + chunk) = unat addr + unat chunk" using 1(3) nat by (simp add: unat_word_ariths)
    have diff: "unat (len - chunk) = unat len - unat chunk" using le(1) by (simp add: unat_sub word_le_nat_alt)
    let ?bs = "map (\<lambda>b. b XOR 0xFF) (bytes_at (host_mem h) (unat addr) (unat chunk))"
    let ?h1 = "h\<lparr>g_flash := mem_upd (g_flash h) (unat addr - 0x08000000) ?bs\<rparr>"
    have rd: "bl_flash_read h addr False chunk = Some (BL_OK, bytes_at (host_mem h) (unat addr) (unat chunk))"
      using 1(2,3) nat by (intro host_read) simp_all
    have pk: "bl_host_flash_poke h addr (Some ?bs) (unat chunk) = Some ?h1"
      using poke_mem [of addr ?bs h] 1(2,3) nat by (simp flip: length_greater_0_conv)
    have "sim_corrupt_loop ?h1 (addr + chunk) (len - chunk) =
        Some (flipped ?h1 (unat addr + unat chunk) (unat len - unat chunk))"
      using 1(1) [OF True chunk_def rd] pk 1(2,3) nat sum diff by simp
    moreover have "sim_corrupt_loop h addr len = sim_corrupt_loop ?h1 (addr + chunk) (len - chunk)"
      using True rd pk by (subst sim_corrupt_loop.simps) (simp add: Let_def chunk_def [symmetric])
    moreover have "flipped ?h1 (unat addr + unat chunk) (unat len - unat chunk) = flipped h (unat addr) (unat len)"
      unfolding flipped_def using 1(2) nat
      by (simp, intro arg_cong [of _ _ "\<lambda>f. h\<lparr>g_flash := f\<rparr>"] ext) (auto simp: mem_upd_def host_mem_def)
    ultimately show ?thesis by simp
  qed
qed

lemma flipped_mem:
  assumes "0x08000000 \<le> a"
  shows "host_mem (flipped h a n) x = (if a \<le> x \<and> x < a + n then host_mem h x XOR 0xFF else host_mem h x)"
  using assms by (auto simp: host_mem_def flipped_def)

lemma flipped_keeps [simp]: "host_inv (flipped h a n) = host_inv h"
  by (simp add: host_inv_def flipped_def)

lemma bytes_at_split3: "a \<le> b \<Longrightarrow> b + k \<le> a + n \<Longrightarrow>
  bytes_at m a n = bytes_at m a (b - a) @ bytes_at m b k @ bytes_at m (b + k) (a + n - (b + k))"
  using bytes_at_append [of m a "b - a" "a + n - b"] bytes_at_append [of m b k "a + n - (b + k)"] by simp

lemma flipped_payload:
  assumes "slot_is_valid a" and img: "slot_image g_layout (host_mem h) a = Inr hdr"
    and rng: "region_lo (layout_slot g_layout ! unat a) + unat (entry_offset hdr) \<le> x"
      "x + k \<le> region_lo (layout_slot g_layout ! unat a) + unat (entry_offset hdr) + unat (img_size hdr)"
    and k: "0 < k" "k \<le> 4"
  shows "0x08000000 \<le> x" and "x + k \<le> 0x08040000"
    and "same_outside (layout_slot g_layout ! unat a) (host_mem h) (host_mem (flipped h x k))"
    and "slot_image g_layout (host_mem (flipped h x k)) a = Inl BL_ERR_IMAGE_CRC"
proof -
  let ?m = "host_mem h" and ?m' = "host_mem (flipped h x k)" and ?r = "layout_slot g_layout ! unat a"
  let ?p = "region_lo ?r + unat (entry_offset hdr)" and ?n = "unat (img_size hdr)"
  have fit: "40 \<le> unat (entry_offset hdr)" "unat (entry_offset hdr) + unat (img_size hdr) \<le> 0x1B000"
  proof -
    have "SIZEOF_IMG_HDR \<le> unat (entry_offset hdr)"
      "unat (entry_offset hdr) + unat (img_size hdr) \<le> unat (region_size ?r)"
      using img unfolding slot_image_Inr_iff Let_def by blast+
    then show "40 \<le> unat (entry_offset hdr)" "unat (entry_offset hdr) + unat (img_size hdr) \<le> 0x1B000"
      using assms(1) by simp_all
  qed
  note lo = slot_lo_bounds [OF assms(1)]
  show x: "0x08000000 \<le> x" "x + k \<le> 0x08040000" using lo fit rng by simp_all
  note mem = flipped_mem [OF x(1), of h k]
  show "same_outside ?r ?m ?m'" using mem fit rng assms(1) by (simp add: same_outside_def)
  have hdr: "bytes_at ?m' (region_lo ?r) 40 = bytes_at ?m (region_lo ?r) 40"
    using mem fit(1) rng(1) by (intro bytes_at_cong) auto
  let ?xs = "bytes_at ?m ?p (x - ?p)" and ?ys = "bytes_at ?m (x + k) (?p + ?n - (x + k))"
  have "bytes_at ?m' ?p (x - ?p) = ?xs" "bytes_at ?m' (x + k) (?p + ?n - (x + k)) = ?ys"
    using mem rng(1) by (auto intro!: bytes_at_cong)
  then have split: "bytes_at ?m' ?p ?n = ?xs @ bytes_at ?m' x k @ ?ys"
    using bytes_at_split3 [OF rng, of ?m'] by simp
  have "b XOR 0xFF \<noteq> b" for b :: u8
    using bit_xor_iff [of b 255 0] by (metis bit_0 odd_numeral)
  then have "bytes_at ?m x k ! 0 \<noteq> bytes_at ?m' x k ! 0" using k mem by simp metis
  then have ne: "bytes_at ?m x k \<noteq> bytes_at ?m' x k" by metis
  have "length (bytes_at ?m' x k) \<le> 4" using k by simp
  from slot_image_payload_burst [OF img hdr bytes_at_split3 [OF rng] split this ne]
  show "slot_image g_layout ?m' a = Inl BL_ERR_IMAGE_CRC" .
qed

lemma corrupted_boot:
  fixes d :: sim and addr len :: u32
  defines "d1 \<equiv> d\<lparr>sim_host := flipped (sim_host d) (unat addr) (unat len)\<rparr>"
  assumes "sim_inv d" and "slot_is_valid a" and "boot_status_of g_layout (host_mem (sim_host d)) = Confirmed a"
    and "slot_image g_layout (host_mem (sim_host d)) a = Inr hdr"
    and "is_ok (slot_image g_layout (host_mem (sim_host d)) (other_slot a))"
    and "jump_ok (host_mem (sim_host d)) (boot_entry g_layout (host_mem (sim_host d)) (other_slot a))"
    and "region_lo (layout_slot g_layout ! unat a) + unat (entry_offset hdr) \<le> unat addr"
    and "unat addr + unat len \<le> region_lo (layout_slot g_layout ! unat a) + unat (entry_offset hdr) + unat (img_size hdr)"
    and "0 < len" and "len \<le> 4" and "meta_seq_of g_layout (host_mem (sim_host d)) + n < 2 ^ 32"
  shows "bl_core_validate_slot host_port a False (sim_host d1) = Some (Inl BL_ERR_IMAGE_CRC) \<and>
    (\<exists>d2. power_cycles n d1 = Some (replicate n (boot_entry g_layout (host_mem (sim_host d)) (other_slot a)), d2))"
proof -
  let ?m = "host_mem (sim_host d)" and ?b = "other_slot a"
  have len: "0 < unat len" "unat len \<le> 4" using assms(10,11) by (simp_all add: word_less_nat_alt word_le_nat_alt)
  note f = flipped_payload [OF assms(3,5,8,9) len]
  have v: "bl_core_validate_slot host_port a False (sim_host d1) = Some (Inl BL_ERR_IMAGE_CRC)"
    using host.validate_slot_eq [of "sim_host d1" a] assms(2,3) f(4) by (simp add: sim_inv_def d1_def)
  note keep = same_outside_boots [OF f(3) assms(3,6)]
  have "boot_target (dev_mem d1) (Confirmed a) = boot_entry g_layout ?m ?b"
    using keep assms(6,7) f(4) by (simp add: boot_target_def policy_slot_def d1_def)
  moreover have "dev_status d1 = Confirmed a" "meta_seq_of g_layout (dev_mem d1) + n < 2 ^ 32"
    using assms(4,12) same_outside_other(1) [OF f(3) assms(3)] by (simp_all add: boot_status_of_def meta_seq_of_def d1_def)
  moreover have "sim_inv d1" using assms(2) by (simp add: sim_inv_def d1_def)
  ultimately show ?thesis using v power_cycles_confirmed [of d1 a n] by auto
qed

text \<open>
  C14. \<open>sim_corrupt\<close> returns on every range inside flash, however many chunks of 256 bytes
  it takes, and inverts exactly the bytes of that range. If the range is one to four
  payload bytes of a confirmed device's active image, and the other slot holds a startable
  image, validation reports the damage and every later power cycle boots the other slot.
\<close>

theorem corrupted_image_falls_back:
  assumes "sim_inv d" and "0x08000000 \<le> unat addr" and "unat addr + unat len \<le> 0x08040000"
  shows "\<exists>d1. sim_corrupt d addr len = Some d1 \<and>
    (\<forall>x. host_mem (sim_host d1) x =
      (if unat addr \<le> x \<and> x < unat addr + unat len then host_mem (sim_host d) x XOR 0xFF else host_mem (sim_host d) x)) \<and>
    (\<forall>a hdr n.
      slot_is_valid a \<and> boot_status_of g_layout (host_mem (sim_host d)) = Confirmed a \<and>
      slot_image g_layout (host_mem (sim_host d)) a = Inr hdr \<and>
      is_ok (slot_image g_layout (host_mem (sim_host d)) (other_slot a)) \<and>
      jump_ok (host_mem (sim_host d)) (boot_entry g_layout (host_mem (sim_host d)) (other_slot a)) \<and>
      region_lo (layout_slot g_layout ! unat a) + unat (entry_offset hdr) \<le> unat addr \<and>
      unat addr + unat len \<le> region_lo (layout_slot g_layout ! unat a) + unat (entry_offset hdr) + unat (img_size hdr) \<and>
      0 < len \<and> len \<le> 4 \<and> meta_seq_of g_layout (host_mem (sim_host d)) + n < 2 ^ 32 \<longrightarrow>
      bl_core_validate_slot host_port a False (sim_host d1) = Some (Inl BL_ERR_IMAGE_CRC) \<and>
      (\<exists>d2. power_cycles n d1 = Some (replicate n (boot_entry g_layout (host_mem (sim_host d)) (other_slot a)), d2)))"
proof -
  let ?d1 = "d\<lparr>sim_host := flipped (sim_host d) (unat addr) (unat len)\<rparr>"
  have "sim_corrupt d addr len = Some ?d1"
    using sim_corrupt_loop_flips [OF assms(2,3)] by (simp add: sim_corrupt_def)
  then show ?thesis
    using flipped_mem [OF assms(2), of "sim_host d" "unat len"]
    by - (rule exI [of _ ?d1], rule conjI, simp, rule conjI, simp,
        intro allI impI, elim conjE, rule corrupted_boot [OF assms(1)], assumption+)
qed

theorem corrupted_image_falls_back_witness:
  "\<exists>d1 d2. sim_corrupt steady 0x08009200 4 = Some d1 \<and> power_cycles 3 d1 = Some (replicate 3 0x08024200, d2)"
proof -
  have "sim_inv steady" using steady_idle by (simp add: dev_idle_def)
  from corrupted_image_falls_back [OF this, of "0x08009200" 4] obtain d1 where
    "sim_corrupt steady 0x08009200 4 = Some d1" "\<exists>d2. power_cycles 3 d1 = Some (replicate 3 0x08024200, d2)"
    by (auto dest!: spec [of _ "0 :: u8"] spec [of _ "image_hdr 1 vectors_a"] spec [of _ "3 :: nat"]
        simp: slot_is_valid_iff boot_status_of_def meta_seq_of_def g_layout_nth)
  then show ?thesis by blast
qed

end
