(* ===== verification/Bl_Tool_Update.thy ===== *)
theory Bl_Tool_Update
  imports Bl_Tool_Link Bl_Recovery
begin

text \<open>
  The commands and the update sequence of \<open>blflash.py\<close> against the simulated device behind
  the lossy line. Each command is specified once for both kinds of line: on a \<open>live\<close> line,
  one that lets one of every \<open>retries\<close> attempts through in time, it succeeds; on any line it
  returns, and if it gives up the device is in a state that \<open>spared\<close> describes.
\<close>

section \<open>Commands over the line\<close>

abbreviation line_up :: "bool \<Rightarrow> bool \<Rightarrow> nat \<Rightarrow> link \<Rightarrow> bool" where
  "line_up brk live retries l \<equiv> line_ok brk live retries 1 (lk_faults l)"

definition fast :: "(nat \<Rightarrow> int) \<Rightarrow> bool" where
  "fast clk \<longleftrightarrow> (\<forall>i. \<forall>j\<le>4. clk (i + j) < clk i + 1000)"

text \<open>Out of attempts, or the port or the flash reported a failure.\<close>

definition gave_up :: "bool \<Rightarrow> bool \<Rightarrow> (sim \<Rightarrow> bool) \<Rightarrow> py_error \<Rightarrow> link \<Rightarrow> bool" where
  "gave_up brk live A e l \<longleftrightarrow>
     \<not> live \<and> (line_error brk e \<or> (\<exists>cmd. e = Device_Error cmd (unat (result_code BL_ERR_FLASH_PROGRAM)))) \<and> A (lk_sim l)"

lemma gave_up_mono: "gave_up brk live A e l \<Longrightarrow> (\<And>d. A d \<Longrightarrow> B d) \<Longrightarrow> gave_up brk live B e l"
  by (simp add: gave_up_def)

lemma cmd_nat:
  "unat BL_CMD_HELLO = CMD_HELLO" "unat BL_CMD_ERASE_SLOT = CMD_ERASE_SLOT" "unat BL_CMD_WRITE = CMD_WRITE"
  "unat BL_CMD_VERIFY = CMD_VERIFY" "unat BL_CMD_SET_ACTIVE = CMD_SET_ACTIVE"
  by simp_all

lemma fast_timeout: "fast clk \<Longrightarrow> 1000 \<le> timeout \<Longrightarrow> \<forall>i. \<forall>j\<le>4. clk (i + j) < clk i + timeout"
  unfolding fast_def by (meson add_left_mono less_le_trans)

lemma link_expect_ok:
  assumes answers: "\<And>att d. 1 \<le> att \<Longrightarrow> att \<le> retries \<Longrightarrow> I att d \<Longrightarrow>
      \<exists>st data d'. exchange c pl d = Some (frame_bytes c (result_code st # data), d') \<and> length data \<le> 511 \<and>
        (st = BL_OK \<and> Q data d' \<or> \<not> live \<and> st = BL_ERR_FLASH_PROGRAM) \<and> I (Suc att) d'"
    and lost: "\<And>att d d'. 1 \<le> att \<Longrightarrow> I att d \<Longrightarrow> same_but_parser d d' \<Longrightarrow> I (Suc att) d'"
    and idle: "\<And>att d. I att d \<Longrightarrow> dev_idle d"
    and "length pl \<le> 512" and "live \<Longrightarrow> fast clk" and "1000 \<le> timeout"
  shows "py_spec (\<lambda>l. line_up brk live retries l \<and> I 1 (lk_sim l)) (expect_ok (link_port clk) retries (unat c) pl timeout)
    (\<lambda>data l. line_up brk live retries l \<and> Q data (lk_sim l)) (gave_up brk live (\<lambda>d. \<exists>att\<ge>1. I att d))"
proof -
  let ?Q = "\<lambda>att st data d. st = result_code BL_OK \<and> Q data d \<or> \<not> live \<and> st = result_code BL_ERR_FLASH_PROGRAM \<and> (\<exists>n\<ge>1. I n d)"
  have "\<exists>st data d'. exchange c pl d = Some (frame_bytes c (st # data), d') \<and> length data \<le> 511 \<and> ?Q att st data d' \<and> I (Suc att) d'"
    if "1 \<le> att" "att \<le> retries" "I att d" for att d
    using answers [OF that] le_SucI [OF that(1)] by blast
  note answers' = this
  show ?thesis
    unfolding expect_ok_def
    by (rule py_spec_seq [OF link_transact [where I = I and Q = ?Q and live = live]], fact answers', fact lost, fact idle)
      (use assms(4-6) fast_timeout in \<open>auto simp: py_spec_def py_return_def py_raise_def gave_up_def\<close>)
qed

text \<open>Commands that only report.\<close>

definition dev_at :: "bl_session \<Rightarrow> host \<Rightarrow> sim \<Rightarrow> bool" where
  "dev_at s h d \<longleftrightarrow> dev_idle d \<and> g_session d = s \<and> sim_host d = h"

definition info_of :: "(nat \<Rightarrow> u8) \<Rightarrow> device_info" where
  "info_of m =
     \<lparr>di_proto_version = 1, di_hdr_version = 1, di_slot_count = 2, di_slot_size = 0x1B000, di_write_granularity = 8,
      di_erase_granularity = 2048, di_max_write = 504,
      di_active_slot = (case meta_authoritative g_layout m of Some (r, _) \<Rightarrow> unat (meta_active_slot r) | None \<Rightarrow> 0xFF),
      di_boot_state = (case meta_authoritative g_layout m of Some (r, _) \<Rightarrow> unat (meta_state r) | None \<Rightarrow> 0xFF),
      di_boot_attempts = (case meta_authoritative g_layout m of Some (r, _) \<Rightarrow> unat (meta_boot_attempts r) | None \<Rightarrow> 0)\<rparr>"

lemma link_report:
  assumes "\<And>d. dev_at s h d \<Longrightarrow> \<exists>d'. exchange c pl d = Some (frame_bytes c (st # data), d') \<and> dev_at s h d'"
    and "length data \<le> 511" and "length pl \<le> 512" and "live \<Longrightarrow> fast clk"
  shows "py_spec (\<lambda>l. line_up brk live retries l \<and> dev_at s h (lk_sim l)) (transact (link_port clk) retries (unat c) pl DEFAULT_TIMEOUT)
    (\<lambda>r l. rsp_status r = unat st \<and> rsp_data r = data \<and> line_up brk live retries l \<and> dev_at s h (lk_sim l))
    (gave_up brk live (dev_at s h))"
  by (rule py_spec_weaken [OF link_transact [where I = "\<lambda>_. dev_at s h" and live = live
        and Q = "\<lambda>_ st' data' d. st' = st \<and> data' = data \<and> dev_at s h d"]])
    (use assms fast_timeout [of clk DEFAULT_TIMEOUT] in \<open>auto simp: gave_up_def dev_at_def dest!: same_but_parser_keeps\<close>)

lemma hello_spec:
  assumes "live \<Longrightarrow> fast clk"
  shows "py_spec (\<lambda>l. line_up brk live retries l \<and> dev_at s h (lk_sim l)) (tool_hello (link_port clk) retries)
    (\<lambda>info l. info = info_of (host_mem h) \<and> line_up brk live retries l \<and> dev_at s h (lk_sim l)) (gave_up brk live (dev_at s h))"
proof -
  have x: "\<exists>d'. exchange BL_CMD_HELLO [] d = Some (frame_bytes BL_CMD_HELLO (result_code BL_OK # hello_answer (host_mem h)), d') \<and>
      dev_at s h d'" if "dev_at s h d" for d
    by (rule exchange_hello [of d]) (use that in \<open>auto simp: dev_at_def\<close>)
  have "length (hello_answer (host_mem h)) = 20" by (simp add: hello_answer_def split: option.split prod.split)
  then have len: "length (hello_answer (host_mem h)) \<le> 511" "\<not> length (hello_answer (host_mem h)) < 20" by simp_all
  have ok: "py_spec (\<lambda>l. line_up brk live retries l \<and> dev_at s h (lk_sim l)) (expect_ok (link_port clk) retries CMD_HELLO [] DEFAULT_TIMEOUT)
    (\<lambda>data l. data = hello_answer (host_mem h) \<and> line_up brk live retries l \<and> dev_at s h (lk_sim l)) (gave_up brk live (dev_at s h))"
    unfolding expect_ok_def
    by (rule py_spec_seq [OF link_report [OF x len(1) _ assms, unfolded cmd_nat]])
      (auto simp: py_spec_def py_return_def py_raise_def)
  have info: "(let info =
         \<lparr>di_proto_version = unat (data ! 0), di_hdr_version = unat (data ! 1), di_slot_count = unat (data ! 2),
          di_slot_size = from_bytes (take 4 (drop 3 data)), di_write_granularity = from_bytes (take 4 (drop 7 data)),
          di_erase_granularity = from_bytes (take 4 (drop 11 data)), di_max_write = from_bytes (take 2 (drop 15 data)),
          di_active_slot = unat (data ! 17), di_boot_state = unat (data ! 18), di_boot_attempts = unat (data ! 19)\<rparr> in info)
      = info_of (host_mem h)" if "data = hello_answer (host_mem h)" for data
    unfolding that hello_answer_def info_of_def by (auto simp: put_u32_le_def split: option.split prod.split)
  show ?thesis
    unfolding tool_hello_def
    by (rule py_spec_seq [OF ok])
      (use len info [unfolded Let_def] in \<open>auto simp: py_spec_def py_return_def py_raise_def Let_def info_of_def\<close>)
qed

lemma byte_of_slot: "byte_of (unat slot) = Inr [slot]" for slot :: u8
  using unsigned_less [of slot, where ?'a = nat] by (simp add: byte_of_def)

lemma verify_transact_spec:
  assumes "live \<Longrightarrow> fast clk" and "slot_is_valid slot"
  shows "py_spec (\<lambda>l. line_up brk live retries l \<and> dev_at s h (lk_sim l)) (transact (link_port clk) retries CMD_VERIFY [slot] DEFAULT_TIMEOUT)
    (\<lambda>r l. rsp_status r = unat (result_code (fst (verify_answer (host_mem h) slot))) \<and> rsp_data r = snd (verify_answer (host_mem h) slot) \<and>
      line_up brk live retries l \<and> dev_at s h (lk_sim l)) (gave_up brk live (dev_at s h))"
proof -
  have "\<exists>d'. exchange BL_CMD_VERIFY [slot] d = Some (frame_bytes BL_CMD_VERIFY (result_code (fst (verify_answer (host_mem h) slot)) #
        snd (verify_answer (host_mem h) slot)), d') \<and> dev_at s h d'" if "dev_at s h d" for d
    by (rule exchange_verify [of d, OF _ assms(2)]) (use that in \<open>auto simp: dev_at_def\<close>)
  from link_report [OF this _ _ assms(1), unfolded cmd_nat] show ?thesis by (simp add: verify_answer_def split: sum.split)
qed

lemma slot_image_not_ok: "slot_image L m slot = Inl err \<Longrightarrow> err \<noteq> BL_OK"
  by (auto simp: slot_image_def Let_def split: if_splits)

lemma slot_image_code: "slot_image L m slot = Inl err \<Longrightarrow> unat (result_code err) \<noteq> 0"
  using result_code_inject [of err BL_OK] slot_image_not_ok by (auto simp: unat_eq_0)

definition slot_report :: "bl_img_hdr \<Rightarrow> slot_info" where
  "slot_report hdr =
     \<lparr>si_img_size = unat (img_size hdr), si_img_crc32 = unat (img_crc32 hdr), si_fw_version = unat (fw_version hdr)\<rparr>"

lemma slot_info_of_answer:
  "slot_info_of (put_u32_le (img_size hdr) @ put_u32_le (img_crc32 hdr) @ put_u32_le (fw_version hdr)) = slot_report hdr"
  by (simp add: slot_info_of_def slot_report_def)

definition reports :: "(nat \<Rightarrow> u8) \<Rightarrow> u8 \<Rightarrow> nat + slot_info \<Rightarrow> bool" where
  "reports m slot r \<longleftrightarrow>
     (case slot_image g_layout m slot of Inl err \<Rightarrow> \<exists>code. r = Inl code | Inr hdr \<Rightarrow> r = Inr (slot_report hdr))"

lemma slot_status_spec:
  assumes "live \<Longrightarrow> fast clk" and slot: "slot_is_valid slot"
  shows "py_spec (\<lambda>l. line_up brk live retries l \<and> dev_at s h (lk_sim l)) (slot_status (link_port clk) retries (unat slot))
    (\<lambda>r l. reports (host_mem h) slot r \<and>
      line_up brk live retries l \<and> dev_at s h (lk_sim l)) (gave_up brk live (dev_at s h))"
  unfolding slot_status_def byte_of_slot py_lift_Inr py_bind_return
  by (rule py_spec_seq [OF verify_transact_spec [OF assms]])
    (use slot_image_code [of g_layout "host_mem h" slot] in
      \<open>auto simp: reports_def py_spec_def py_return_def verify_answer_def slot_info_of_answer split: sum.splits\<close>)

lemma slot_statuses_spec:
  assumes "live \<Longrightarrow> fast clk" and "list_all slot_is_valid slots"
  shows "py_spec (\<lambda>l. line_up brk live retries l \<and> dev_at s h (lk_sim l)) (slot_statuses (link_port clk) retries (map unat slots))
    (\<lambda>rs l. list_all2 (\<lambda>slot (n, r). n = unat slot \<and> reports (host_mem h) slot r) slots rs \<and>
      line_up brk live retries l \<and> dev_at s h (lk_sim l)) (gave_up brk live (dev_at s h))"
  using assms(2)
proof (induction slots)
  case (Cons slot slots)
  have rest: "py_spec (\<lambda>l. reports (host_mem h) slot r \<and> line_up brk live retries l \<and> dev_at s h (lk_sim l))
      (py_bind (slot_statuses (link_port clk) retries (map unat slots)) (\<lambda>statuses. py_return ((unat slot, r) # statuses)))
      (\<lambda>rs l. list_all2 (\<lambda>slot (n, r). n = unat slot \<and> reports (host_mem h) slot r) (slot # slots) rs \<and>
        line_up brk live retries l \<and> dev_at s h (lk_sim l)) (gave_up brk live (dev_at s h))" for r
    by (rule py_spec_pure [where p = "reports (host_mem h) slot r"], simp, rule py_spec_seq [OF Cons.IH])
      (use Cons.prems in \<open>auto intro!: py_spec_return\<close>)
  show ?case
    unfolding list.map slot_statuses.simps
    by (rule py_spec_seq [OF slot_status_spec [OF assms(1), of _ slot]]) (use Cons.prems rest in auto)
qed (simp add: py_spec_def py_return_def)

lemma both_slots: "[0..<2] = map unat [0, 1 :: u8]"
  by (simp add: upt_rec)

lemma verify_spec:
  assumes "live \<Longrightarrow> fast clk" and slot: "slot_is_valid slot" and "slot_image g_layout (host_mem h) slot = Inr hdr"
  shows "py_spec (\<lambda>l. line_up brk live retries l \<and> dev_at s h (lk_sim l)) (tool_verify (link_port clk) retries (unat slot))
    (\<lambda>r l. r = slot_report hdr \<and> line_up brk live retries l \<and> dev_at s h (lk_sim l)) (gave_up brk live (dev_at s h))"
proof -
  have "py_spec (\<lambda>l. line_up brk live retries l \<and> dev_at s h (lk_sim l)) (expect_ok (link_port clk) retries CMD_VERIFY [slot] DEFAULT_TIMEOUT)
    (\<lambda>data l. data = snd (verify_answer (host_mem h) slot) \<and> line_up brk live retries l \<and> dev_at s h (lk_sim l)) (gave_up brk live (dev_at s h))"
    unfolding expect_ok_def
    by (rule py_spec_seq [OF verify_transact_spec [OF assms(1,2)]])
      (auto simp: py_spec_def py_return_def py_raise_def verify_answer_def assms(3))
  then show ?thesis
    unfolding tool_verify_def byte_of_slot py_lift_Inr py_bind_return
    by (rule py_spec_seq) (auto simp: py_spec_def py_return_def py_raise_def verify_answer_def assms(3) slot_info_of_answer)
qed

text \<open>The slot the tool chooses, from the contents of the flash.\<close>

definition tool_choice :: "(nat \<Rightarrow> u8) \<Rightarrow> u8" where
  "tool_choice m =
     (case meta_authoritative g_layout m of
        Some (r, _) \<Rightarrow> other_slot (meta_active_slot r)
      | None \<Rightarrow>
          (case (slot_image g_layout m 0, slot_image g_layout m 1) of
             (Inr a, Inr b) \<Rightarrow> if fw_version b < fw_version a then 1 else 0
           | (Inr _, Inl _) \<Rightarrow> 1
           | (Inl _, _) \<Rightarrow> 0))"

lemma authoritative_slot: "meta_authoritative L m = Some (r, i) \<Longrightarrow> slot_is_valid (meta_active_slot r)"
  using meta_authoritative_Some meta_view_valid by (fastforce simp: slot_is_valid_def)

lemma tool_choice_valid: "slot_is_valid (tool_choice m)"
  using authoritative_slot other_slot_valid
  by (auto simp: tool_choice_def slot_is_valid_iff split: option.split sum.split)

lemma choose_spec:
  assumes "live \<Longrightarrow> fast clk"
  shows "py_spec (\<lambda>l. line_up brk live retries l \<and> dev_at s h (lk_sim l)) (choose_target_slot (link_port clk) retries (info_of (host_mem h)))
    (\<lambda>t l. t = unat (tool_choice (host_mem h)) \<and> line_up brk live retries l \<and> dev_at s h (lk_sim l)) (gave_up brk live (dev_at s h))"
proof (cases "meta_authoritative g_layout (host_mem h)")
  case (Some p)
  then obtain r i where p: "meta_authoritative g_layout (host_mem h) = Some (r, i)" by (cases p) simp
  have "meta_active_slot r = 0 \<or> meta_active_slot r = 1" using authoritative_slot [OF p] by (simp add: slot_is_valid_iff)
  with p show ?thesis
    by (auto simp: choose_target_slot_def info_of_def tool_choice_def py_spec_def py_lift_def py_mod_def other_slot_def)
next
  case None
  have pick: "(case valid_slots rs of
        [] \<Rightarrow> py_return SLOT_A
      | [(occupied, _)] \<Rightarrow> py_lift (py_mod (occupied + 1) 2)
      | x # xs \<Rightarrow> py_return (min_version x xs)) d = Some (Inr (unat (tool_choice (host_mem h))), d)"
    if rs: "list_all2 (\<lambda>slot (n, r). n = unat slot \<and> reports (host_mem h) slot r) [0, 1] rs" for rs and d :: link
  proof -
    from rs obtain r0 r1 where "rs = [(0, r0), (1, r1)]" "reports (host_mem h) 0 r0" "reports (host_mem h) 1 r1"
      by (auto simp: list_all2_Cons1)
    then show ?thesis
      using None
      by (auto simp: reports_def tool_choice_def py_return_def py_lift_def py_mod_def slot_report_def word_less_nat_alt split: sum.splits)
  qed
  have i: "di_active_slot (info_of (host_mem h)) = SLOT_NONE" "di_slot_count (info_of (host_mem h)) = 2"
    using None by (simp_all add: info_of_def)
  show ?thesis
    unfolding choose_target_slot_def i both_slots simp_thms(6) not_True_eq_False if_False
    by (rule py_spec_seq [OF slot_statuses_spec [OF assms]]) (use pick in \<open>auto simp: slot_is_valid_iff py_spec_def\<close>)
qed

text \<open>Commands that change the flash. Nothing outside the slot is touched until it is armed.\<close>

definition holds :: "u8 \<Rightarrow> nat \<Rightarrow> u8 list \<Rightarrow> bl_img_hdr \<Rightarrow> (nat \<Rightarrow> u8) \<Rightarrow> bool" where
  "holds slot e pl hdr m \<longleftrightarrow>
     slot_image g_layout m slot = Inr hdr \<and>
     bytes_at m (region_lo (layout_slot g_layout ! unat slot)) 40 = hdr_bytes hdr \<and>
     bytes_at m (region_lo (layout_slot g_layout ! unat slot) + e) (length pl) = pl"

text \<open>The slot under update: as it was, without a header, or complete; nothing in between validates.\<close>

definition replaced :: "u8 \<Rightarrow> nat \<Rightarrow> u8 list \<Rightarrow> bl_img_hdr \<Rightarrow> host \<Rightarrow> (nat \<Rightarrow> u8) \<Rightarrow> bool" where
  "replaced slot e pl hdr h0 m \<longleftrightarrow>
     (let r = layout_slot g_layout ! unat slot in
      (\<forall>x. region_lo r \<le> x \<and> x < region_hi r \<longrightarrow> m x = host_mem h0 x) \<or>
      slot_image g_layout m slot = Inl BL_ERR_MAGIC \<or> holds slot e pl hdr m)"

definition untouched :: "u8 \<Rightarrow> nat \<Rightarrow> u8 list \<Rightarrow> bl_img_hdr \<Rightarrow> host \<Rightarrow> sim \<Rightarrow> bool" where
  "untouched slot e pl hdr h0 d \<longleftrightarrow>
     dev_idle d \<and> same_outside (layout_slot g_layout ! unat slot) (host_mem h0) (host_mem (sim_host d)) \<and>
     replaced slot e pl hdr h0 (host_mem (sim_host d))"

lemma replaced_simps [simp]: "replaced slot e pl hdr h0 (host_mem h0)" "holds slot e pl hdr m \<Longrightarrow> replaced slot e pl hdr h0 m"
  by (simp_all add: replaced_def)

definition on_slot :: "bool \<Rightarrow> u8 \<Rightarrow> nat \<Rightarrow> u8 list \<Rightarrow> host \<Rightarrow> nat \<Rightarrow> sim \<Rightarrow> bool" where
  "on_slot live slot e pre h0 k d \<longleftrightarrow>
     dev_idle d \<and> staged slot e pre h0 (g_session d) (sim_host d) \<and> (live \<longrightarrow> k \<le> host_budget (sim_host d))"

lemma on_slot_untouched: "on_slot live slot e' pre h0 k d \<Longrightarrow> untouched slot e pl hdr h0 d"
  using staged_invalid [of slot e' pre h0 "g_session d" "sim_host d"]
  by (simp add: on_slot_def untouched_def replaced_def staged_def Let_def)

lemma erase_spec:
  assumes clk: "live \<Longrightarrow> fast clk" and slot: "slot_is_valid slot"
  shows "py_spec (\<lambda>l. line_up brk live retries l \<and> dev_at s h0 (lk_sim l)) (tool_erase_slot (link_port clk) retries (unat slot))
    (\<lambda>_ l. line_up brk live retries l \<and> on_slot live slot e [] h0 (host_budget h0) (lk_sim l)) (gave_up brk live (untouched slot e pl hdr h0))"
proof -
  let ?I = "\<lambda>(_ :: nat) d. untouched slot e pl hdr h0 d \<and> host_budget (sim_host d) = host_budget h0"
  have x: "\<exists>st data d'. exchange BL_CMD_ERASE_SLOT [slot] d = Some (frame_bytes BL_CMD_ERASE_SLOT (result_code st # data), d') \<and>
      length data \<le> 511 \<and> (st = BL_OK \<and> on_slot live slot e [] h0 (host_budget h0) d' \<or> \<not> live \<and> st = BL_ERR_FLASH_PROGRAM) \<and>
      ?I (Suc att) d'" if "?I att d" for att d
  proof -
    have "dev_idle d" "same_outside (layout_slot g_layout ! unat slot) (host_mem h0) (host_mem (sim_host d))"
      using that by (simp_all add: untouched_def)
    then obtain d' where "exchange BL_CMD_ERASE_SLOT [slot] d = Some (frame_bytes BL_CMD_ERASE_SLOT [result_code BL_OK], d')"
      "dev_idle d'" "staged slot e [] h0 (g_session d') (sim_host d')" "host_budget (sim_host d') = host_budget (sim_host d)"
      by (rule exchange_erase [OF _ slot, of _ h0 e])
    with that on_slot_untouched [of live slot e "[]" h0 "host_budget h0" d' e pl hdr] show ?thesis
      by (intro exI [of _ BL_OK] exI [of _ "[]"] exI [of _ d']) (simp add: on_slot_def del: BL_CMD_ERASE_SLOT_def result_code.simps)
  qed
  show ?thesis
    unfolding tool_erase_slot_def byte_of_slot py_lift_Inr py_bind_return cmd_nat [symmetric]
    by (rule py_spec_seq [OF link_expect_ok [where I = ?I and live = live and Q = "\<lambda>_. on_slot live slot e [] h0 (host_budget h0)"]])
      (use x clk in \<open>auto simp: dev_at_def untouched_def gave_up_def intro: py_spec_return dest!: same_but_parser_keeps\<close>)
qed

text \<open>A write takes the device from \<open>A\<close> to \<open>B\<close>, or fails and leaves it in \<open>A\<close>; it is refused as not erased when it is sent again.\<close>

definition parser_blind :: "(sim \<Rightarrow> bool) \<Rightarrow> bool" where
  "parser_blind A \<longleftrightarrow> (\<forall>d. A d \<longrightarrow> dev_idle d \<and> (\<forall>d'. same_but_parser d d' \<longrightarrow> A d'))"

lemma on_slot_blind: "parser_blind (on_slot live slot e pre h0 k)"
  by (auto simp: parser_blind_def on_slot_def dest!: same_but_parser_keeps)

lemma write_spec:
  assumes clk: "live \<Longrightarrow> fast clk" and off: "off < 2 ^ 32" and len: "length c \<le> 508"
    and first: "\<And>d. A d \<Longrightarrow> \<exists>st data d'. exchange BL_CMD_WRITE (put_u32_le (of_nat off) @ c) d =
      Some (frame_bytes BL_CMD_WRITE (result_code st # data), d') \<and>
      (st = BL_OK \<and> data = put_u32_le (of_nat off) \<and> B d' \<or> \<not> live \<and> st = BL_ERR_FLASH_PROGRAM \<and> data = [] \<and> A d')"
    and again: "\<And>d. B d \<Longrightarrow> \<exists>d'. exchange BL_CMD_WRITE (put_u32_le (of_nat off) @ c) d =
      Some (frame_bytes BL_CMD_WRITE [result_code BL_ERR_NOT_ERASED], d') \<and> B d'"
    and blind: "parser_blind A" "parser_blind B"
  shows "py_spec (\<lambda>l. line_up brk live retries l \<and> A (lk_sim l)) (tool_write (link_port clk) retries off c)
    (\<lambda>_ l. line_up brk live retries l \<and> B (lk_sim l)) (gave_up brk live (\<lambda>d. A d \<or> B d))"
proof -
  let ?off = "put_u32_le (of_nat off)"
  let ?I = "\<lambda>att d. A d \<or> 1 < att \<and> B d"
  let ?Q = "\<lambda>att st data d. B d \<and> (st = result_code BL_OK \<and> data = ?off \<or> (1 :: nat) < att \<and> st = result_code BL_ERR_NOT_ERASED) \<or>
    \<not> live \<and> st = result_code BL_ERR_FLASH_PROGRAM \<and> A d"
  have bytes: "to_bytes 4 off = Inr ?off" using off by (simp add: to_bytes_def put_le_of_nat)
  have "from_bytes ?off = off" using off by (simp add: unat_of_nat)
  then have echo: "from_bytes (take 4 ?off) = off" by simp
  have x: "\<exists>st data d'. exchange BL_CMD_WRITE (?off @ c) d = Some (frame_bytes BL_CMD_WRITE (st # data), d') \<and>
      length data \<le> 511 \<and> ?Q att st data d' \<and> ?I (Suc att) d'" if "1 \<le> att" "?I att d" for att d
    using that(2)
  proof
    assume "A d"
    from first [OF this] obtain st data d' where d': "exchange BL_CMD_WRITE (?off @ c) d = Some (frame_bytes BL_CMD_WRITE (result_code st # data), d')"
      "st = BL_OK \<and> data = ?off \<and> B d' \<or> \<not> live \<and> st = BL_ERR_FLASH_PROGRAM \<and> data = [] \<and> A d'" by blast
    then have "length data \<le> 511" "?Q att (result_code st) data d'" "?I (Suc att) d'" using that(1) by auto
    with d'(1) show ?thesis by blast
  next
    assume "1 < att \<and> B d"
    with again [of d] show ?thesis
      by (elim exE conjE) (rule exI [of _ "result_code BL_ERR_NOT_ERASED"], rule exI [of _ "[]"],
        auto simp del: BL_CMD_WRITE_def result_code.simps)
  qed
  show ?thesis
    unfolding tool_write_def bytes py_lift_Inr py_bind_return cmd_nat [symmetric]
    by (rule py_spec_seq [OF link_transact [where I = ?I and live = live and Q = ?Q]])
      (use x len clk fast_timeout [of clk DEFAULT_TIMEOUT] echo blind in
        \<open>auto simp: gave_up_def py_spec_def py_return_def py_raise_def parser_blind_def simp del: BL_CMD_WRITE_def\<close>)
qed

lemma chunk_spec:
  assumes clk: "live \<Longrightarrow> fast clk" and slot: "slot_is_valid slot" and c: "chunk_ok c" "length pre mod 8 = 0"
    and e: "512 \<le> e" "e mod 8 = 0" and fits: "e + length pre + length c \<le> 0x1B000"
  shows "py_spec (\<lambda>l. line_up brk live retries l \<and> on_slot live slot e pre h0 (Suc k) (lk_sim l))
    (tool_write (link_port clk) retries (e + length pre) c)
    (\<lambda>_ l. line_up brk live retries l \<and> on_slot live slot e (pre @ c) h0 k (lk_sim l)) (gave_up brk live (untouched slot e pl hdr h0))"
proof -
  let ?off = "put_u32_le (of_nat (e + length pre))"
  have first: "\<exists>st data d'. exchange BL_CMD_WRITE (?off @ c) d = Some (frame_bytes BL_CMD_WRITE (result_code st # data), d') \<and>
      (st = BL_OK \<and> data = ?off \<and> on_slot live slot e (pre @ c) h0 k d' \<or>
       \<not> live \<and> st = BL_ERR_FLASH_PROGRAM \<and> data = [] \<and> on_slot live slot e pre h0 (Suc k) d')"
    if d: "on_slot live slot e pre h0 (Suc k) d" for d
  proof -
    have d': "dev_idle d" "staged slot e pre h0 (g_session d) (sim_host d)" using d by (simp_all add: on_slot_def)
    show ?thesis
    proof (cases rule: exchange_write [OF d'(1) slot d'(2) c e fits])
      case (1 x)
      then have "on_slot live slot e (pre @ c) h0 k x" using d by (auto simp: on_slot_def)
      with 1(1) show ?thesis by blast
    next
      case (2 x)
      then have "\<not> live" "on_slot live slot e pre h0 (Suc k) x" using d by (auto simp: on_slot_def host_ready_budget)
      with 2(2) show ?thesis by blast
    qed
  qed
  have again: "\<exists>d'. exchange BL_CMD_WRITE (?off @ c) d = Some (frame_bytes BL_CMD_WRITE [result_code BL_ERR_NOT_ERASED], d') \<and>
      on_slot live slot e (pre @ c) h0 k d'" if d: "on_slot live slot e (pre @ c) h0 k d" for d
  proof -
    have d': "dev_idle d" "staged slot e (pre @ c) h0 (g_session d) (sim_host d)" using d by (simp_all add: on_slot_def)
    show ?thesis
      by (rule exchange_write_again [OF d'(1) slot d'(2) c e fits]) (use d in \<open>auto simp: on_slot_def\<close>)
  qed
  have "e + length pre < 2 ^ 32" "length c \<le> 508" using fits c(1) by (simp_all add: chunk_ok_def)
  note b = this
  show ?thesis
    by (rule py_spec_weaken [OF write_spec [where A = "on_slot live slot e pre h0 (Suc k)" and B = "on_slot live slot e (pre @ c) h0 k",
          OF clk b first again on_slot_blind on_slot_blind]])
      (auto elim!: gave_up_mono dest: on_slot_untouched)
qed

text \<open>The loop over the payload; \<open>n\<close> chunks are left.\<close>

lemma write_payload_spec:
  assumes clk: "live \<Longrightarrow> fast clk" and slot: "slot_is_valid slot" and e: "512 \<le> e" "e mod 8 = 0"
    and pl: "length pl mod 8 = 0" "e + length pl \<le> 0x1B000"
  shows "sent \<le> length pl \<Longrightarrow> sent mod 8 = 0 \<Longrightarrow> length pl \<le> sent + 504 * n \<Longrightarrow>
    py_spec (\<lambda>l. line_up brk live retries l \<and> on_slot live slot e (take sent pl) h0 (n + k) (lk_sim l))
      (write_payload (link_port clk) retries e 504 pl sent)
      (\<lambda>_ l. line_up brk live retries l \<and> on_slot live slot e pl h0 k (lk_sim l)) (gave_up brk live (untouched slot e pl hdr h0))"
proof (induction n arbitrary: sent)
  case 0
  then show ?case by (subst write_payload.simps [abs_def]) (simp add: py_spec_def)
next
  case (Suc n)
  show ?case
  proof (cases "sent < length pl")
    case False
    then have "write_payload (link_port clk) retries e 504 pl sent = py_return ()"
      by (intro ext, subst write_payload.simps) (simp add: py_return_def)
    with False Suc.prems(1) show ?thesis by (auto simp: on_slot_def intro!: py_spec_return)
  next
    case True
    let ?c = "take 504 (drop sent pl)"
    have unfold: "write_payload (link_port clk) retries e 504 pl sent =
        py_bind (tool_write (link_port clk) retries (e + sent) ?c) (\<lambda>_. write_payload (link_port clk) retries e 504 pl (sent + length ?c))"
      by (rule ext, subst write_payload.simps)
        (use True in \<open>auto simp: py_bind_def Let_def intro!: bind_option_cong split: sum.split\<close>)
    have m8: "(length pl - sent) mod 8 = 0" using pl(1) Suc.prems(2) by (simp add: mod_eq_0_iff_dvd)
    then have c: "chunk_ok ?c" using True by (simp add: chunk_ok_def min_def)
    have sent: "length (take sent pl) = sent" using True by simp
    have pre: "length (take sent pl) mod 8 = 0" "e + length (take sent pl) + length ?c \<le> 0x1B000"
      using Suc.prems(2) True pl(2) by (auto simp: min_def)
    have "(sent + length ?c) mod 8 = 0" using Suc.prems(2) c by (simp add: chunk_ok_def mod_eq_0_iff_dvd)
    moreover have "sent + length ?c \<le> length pl" "length pl \<le> sent + length ?c + 504 * n" using Suc.prems(3) True by auto
    ultimately have rest: "py_spec (\<lambda>l. line_up brk live retries l \<and> on_slot live slot e (take (sent + length ?c) pl) h0 (n + k) (lk_sim l))
      (write_payload (link_port clk) retries e 504 pl (sent + length ?c))
      (\<lambda>_ l. line_up brk live retries l \<and> on_slot live slot e pl h0 k (lk_sim l)) (gave_up brk live (untouched slot e pl hdr h0))"
      by (intro Suc.IH)
    have cat: "take sent pl @ ?c = take (sent + length ?c) pl" by (simp add: take_add min_def)
    show ?thesis
      unfolding unfold
      by (rule py_spec_seq [OF chunk_spec [where brk = brk and live = live and ?h0.0 = h0 and k = "n + k", OF clk slot c pre(1) e pre(2), unfolded sent cat]])
        (use rest in simp_all)
  qed
qed

text \<open>The header.\<close>

definition installed :: "bool \<Rightarrow> u8 \<Rightarrow> nat \<Rightarrow> u8 list \<Rightarrow> bl_img_hdr \<Rightarrow> host \<Rightarrow> nat \<Rightarrow> sim \<Rightarrow> bool" where
  "installed live slot e pl hdr h0 k d \<longleftrightarrow>
     untouched slot e pl hdr h0 d \<and> holds slot e pl hdr (host_mem (sim_host d)) \<and> (live \<longrightarrow> k \<le> host_budget (sim_host d)) \<and>
     erased (g_session d) \<and> header_written (g_session d)"

lemma installed_at:
  "installed live slot e pl hdr h0 k d \<Longrightarrow> dev_at (g_session d) (sim_host d) d' \<Longrightarrow> installed live slot e pl hdr h0 k d'"
  by (simp add: installed_def untouched_def dev_at_def)

lemma installed_blind: "parser_blind (installed live slot e pl hdr h0 k)"
  by (auto simp: parser_blind_def installed_def untouched_def dest!: same_but_parser_keeps)

lemma header_spec:
  assumes clk: "live \<Longrightarrow> fast clk" and slot: "slot_is_valid slot" and hdr: "hdr_describes e pl hdr"
    and fits: "e + length pl \<le> 0x1B000"
  shows "py_spec (\<lambda>l. line_up brk live retries l \<and> on_slot live slot e pl h0 (Suc k) (lk_sim l))
    (tool_write (link_port clk) retries 0 (hdr_bytes hdr))
    (\<lambda>_ l. line_up brk live retries l \<and> installed live slot e pl hdr h0 k (lk_sim l)) (gave_up brk live (untouched slot e pl hdr h0))"
proof -
  have len: "length (hdr_bytes hdr) = 40" using hdr by (simp add: hdr_describes_def length_hdr_bytes)
  have first: "\<exists>st data d'. exchange BL_CMD_WRITE (put_u32_le 0 @ hdr_bytes hdr) d =
      Some (frame_bytes BL_CMD_WRITE (result_code st # data), d') \<and>
      (st = BL_OK \<and> data = put_u32_le 0 \<and> installed live slot e pl hdr h0 k d' \<or>
       \<not> live \<and> st = BL_ERR_FLASH_PROGRAM \<and> data = [] \<and> on_slot live slot e pl h0 (Suc k) d')"
    if d: "on_slot live slot e pl h0 (Suc k) d" for d
  proof -
    have d': "dev_idle d" "staged slot e pl h0 (g_session d) (sim_host d)" using d by (simp_all add: on_slot_def)
    show ?thesis
    proof (cases rule: exchange_header [OF d'(1) slot d'(2) hdr fits])
      case (1 x)
      then have "installed live slot e pl hdr h0 k x" using d by (auto simp: on_slot_def installed_def untouched_def holds_def)
      with 1(1) show ?thesis by blast
    next
      case (2 x)
      then have "\<not> live" "on_slot live slot e pl h0 (Suc k) x" using d by (auto simp: on_slot_def host_ready_budget)
      with 2(2) show ?thesis by blast
    qed
  qed
  have again: "\<exists>d'. exchange BL_CMD_WRITE (put_u32_le 0 @ hdr_bytes hdr) d =
      Some (frame_bytes BL_CMD_WRITE [result_code BL_ERR_NOT_ERASED], d') \<and> installed live slot e pl hdr h0 k d'"
    if d: "installed live slot e pl hdr h0 k d" for d
  proof -
    have d': "dev_idle d" "erased (g_session d)" "header_written (g_session d)"
      using d by (simp_all add: installed_def untouched_def)
    show ?thesis
      by (rule exchange_header_again [OF d' len]) (use d in \<open>auto simp: installed_def untouched_def\<close>)
  qed
  have "(0 :: nat) < 2 ^ 32" "length (hdr_bytes hdr) \<le> 508" using len by simp_all
  note b = this
  show ?thesis
    by (rule py_spec_weaken [OF write_spec [where off = 0 and A = "on_slot live slot e pl h0 (Suc k)" and B = "installed live slot e pl hdr h0 k",
          unfolded semiring_1_class.of_nat_0, OF clk b first again on_slot_blind installed_blind]])
      (auto elim!: gave_up_mono dest: on_slot_untouched simp: installed_def)
qed

text \<open>Arming. An answer may be lost, so the slot may be armed several times over.\<close>

definition other_kept :: "u8 \<Rightarrow> host \<Rightarrow> nat \<Rightarrow> sim \<Rightarrow> bool" where
  "other_kept slot h0 retries d \<longleftrightarrow>
     (let m = host_mem (sim_host d); r = layout_slot g_layout ! unat (other_slot slot) in
      dev_idle d \<and> meta_seq_of g_layout m \<le> meta_seq_of g_layout (host_mem h0) + retries \<and>
      (\<forall>x. region_lo r \<le> x \<and> x < region_hi r \<longrightarrow> m x = host_mem h0 x))"

definition armed :: "u8 \<Rightarrow> nat \<Rightarrow> u8 list \<Rightarrow> bl_img_hdr \<Rightarrow> host \<Rightarrow> nat \<Rightarrow> sim \<Rightarrow> bool" where
  "armed slot e pl hdr h0 retries d \<longleftrightarrow>
     other_kept slot h0 retries d \<and> holds slot e pl hdr (host_mem (sim_host d)) \<and>
     boot_status_of g_layout (host_mem (sim_host d)) = Trial slot 0"

text \<open>What giving up leaves: the other slot, and the boot status or a complete image on trial.\<close>

definition spared :: "u8 \<Rightarrow> nat \<Rightarrow> u8 list \<Rightarrow> bl_img_hdr \<Rightarrow> host \<Rightarrow> nat \<Rightarrow> sim \<Rightarrow> bool" where
  "spared slot e pl hdr h0 retries d \<longleftrightarrow>
     other_kept slot h0 retries d \<and> replaced slot e pl hdr h0 (host_mem (sim_host d)) \<and>
     (boot_status_of g_layout (host_mem (sim_host d)) = boot_status_of g_layout (host_mem h0) \<or> armed slot e pl hdr h0 retries d)"

lemma spared_blind: "parser_blind (spared slot e pl hdr h0 retries)"
  by (auto simp: parser_blind_def spared_def armed_def other_kept_def Let_def dest!: same_but_parser_keeps)

lemma untouched_spared:
  assumes "untouched slot e pl hdr h0 d" and slot: "slot_is_valid slot"
  shows "spared slot e pl hdr h0 retries d" and "meta_seq_of g_layout (host_mem (sim_host d)) = meta_seq_of g_layout (host_mem h0)"
proof -
  have "same_outside (layout_slot g_layout ! unat slot) (host_mem h0) (host_mem (sim_host d))" "dev_idle d"
    "replaced slot e pl hdr h0 (host_mem (sim_host d))"
    using assms(1) by (simp_all add: untouched_def)
  with same_outside_other [OF this(1) slot]
  show "spared slot e pl hdr h0 retries d" "meta_seq_of g_layout (host_mem (sim_host d)) = meta_seq_of g_layout (host_mem h0)"
    by (simp_all add: spared_def other_kept_def Let_def boot_status_of_def meta_seq_of_def)
qed

lemma slots_agree_at:
  "slots_agree g_layout m m' \<Longrightarrow> slot_is_valid slot \<Longrightarrow> region_lo (layout_slot g_layout ! unat slot) \<le> x \<Longrightarrow>
   x < region_hi (layout_slot g_layout ! unat slot) \<Longrightarrow> m x = m' x"
  unfolding slots_agree_def by (drule spec [of _ "unat slot"]) (auto simp: slot_is_valid_iff simp del: slot_size)

lemma holds_agree:
  assumes "slots_agree g_layout (host_mem h') (host_mem h)" and "slot_is_valid slot"
    and "holds slot e pl hdr (host_mem h)" and "e + length pl \<le> 0x1B000"
  shows "holds slot e pl hdr (host_mem h')"
proof -
  let ?r = "layout_slot g_layout ! unat slot"
  have "bytes_at (host_mem h') (region_lo ?r + a) n = bytes_at (host_mem h) (region_lo ?r + a) n" if "a + n \<le> 0x1B000" for a n
    using that assms(2) by (intro bytes_at_cong slots_agree_at [OF assms(1,2)]) simp_all
  from this [of 0 40] this [of e "length pl"] assms show ?thesis
    by (simp add: holds_def slots_agree_image)
qed

lemma set_active_spec:
  assumes clk: "live \<Longrightarrow> fast clk" and slot: "slot_is_valid slot" and fits: "e + length pl \<le> 0x1B000"
    and seq: "meta_seq_of g_layout (host_mem h0) + retries < 2 ^ 32"
  shows "py_spec (\<lambda>l. line_up brk live retries l \<and> installed live slot e pl hdr h0 retries (lk_sim l))
    (tool_set_active (link_port clk) retries (unat slot))
    (\<lambda>_ l. line_up brk live retries l \<and> armed slot e pl hdr h0 retries (lk_sim l))
    (gave_up brk live (spared slot e pl hdr h0 retries))"
proof -
  let ?I = "\<lambda>att d. spared slot e pl hdr h0 retries d \<and> holds slot e pl hdr (host_mem (sim_host d)) \<and>
    (live \<longrightarrow> retries < host_budget (sim_host d) + att) \<and>
    meta_seq_of g_layout (host_mem (sim_host d)) < meta_seq_of g_layout (host_mem h0) + att"
  have x: "\<exists>st data d'. exchange BL_CMD_SET_ACTIVE [slot] d = Some (frame_bytes BL_CMD_SET_ACTIVE (result_code st # data), d') \<and>
      length data \<le> 511 \<and> (st = BL_OK \<and> armed slot e pl hdr h0 retries d' \<or> \<not> live \<and> st = BL_ERR_FLASH_PROGRAM) \<and> ?I (Suc att) d'"
    if "1 \<le> att" "att \<le> retries" "?I att d" for att d
  proof -
    have i: "dev_idle d" "is_ok (slot_image g_layout (host_mem (sim_host d)) slot)"
      "meta_seq_of g_layout (host_mem (sim_host d)) < 2 ^ 32 - 1"
      using that seq by (auto simp: spared_def other_kept_def Let_def holds_def)
    obtain st d' where d': "exchange BL_CMD_SET_ACTIVE [slot] d = Some (frame_bytes BL_CMD_SET_ACTIVE [result_code st], d')"
      "dev_idle d'" "slots_agree g_layout (host_mem (sim_host d')) (host_mem (sim_host d))"
      and out: "st = BL_OK \<and> boot_status_of g_layout (host_mem (sim_host d')) = Trial slot 0 \<or>
        \<not> host_ready (sim_host d) \<and> st = BL_ERR_FLASH_PROGRAM \<and>
        boot_status_of g_layout (host_mem (sim_host d')) = boot_status_of g_layout (host_mem (sim_host d))"
      and sq: "meta_seq_of g_layout (host_mem (sim_host d')) \<le> meta_seq_of g_layout (host_mem (sim_host d)) + 1"
      and b: "host_budget (sim_host d) \<le> host_budget (sim_host d') + 1"
      by (rule exchange_set_active [OF i(1) slot i(2,3)])
    have h: "holds slot e pl hdr (host_mem (sim_host d'))" using holds_agree [OF d'(3) slot _ fits] that(3) by simp
    have kept: "other_kept slot h0 retries d'"
      using d'(2) sq that(2,3) slots_agree_at [OF d'(3) conjunct1 [OF other_slot_valid [OF slot]]]
      by (simp add: other_kept_def spared_def Let_def)
    have "st = BL_OK \<and> armed slot e pl hdr h0 retries d' \<or> \<not> live \<and> st = BL_ERR_FLASH_PROGRAM" "spared slot e pl hdr h0 retries d'"
      using out h kept that(2,3) by (auto simp: armed_def spared_def host_ready_budget)
    moreover have "live \<longrightarrow> retries < host_budget (sim_host d') + Suc att" using b that(3) by auto
    ultimately show ?thesis
      using d'(1) h sq that(3) by (intro exI [of _ st] exI [of _ "[]"] exI [of _ d']) (simp del: BL_CMD_SET_ACTIVE_def result_code.simps)
  qed
  have start: "?I 1 d" if "installed live slot e pl hdr h0 retries d" for d
    using that untouched_spared [OF _ slot, of e pl hdr h0 d] by (auto simp: installed_def)
  show ?thesis
    unfolding tool_set_active_def byte_of_slot py_lift_Inr py_bind_return cmd_nat [symmetric]
    by (rule py_spec_seq [OF link_expect_ok [where I = ?I and live = live and Q = "\<lambda>_. armed slot e pl hdr h0 retries"]])
      (use x clk start spared_blind [of slot e pl hdr h0 retries] in
        \<open>auto simp: gave_up_def parser_blind_def intro: py_spec_return dest: same_but_parser_keeps\<close>)
qed

section \<open>The update\<close>

text \<open>The slot the update goes to; \<open>requested\<close> is the argument of \<open>update\<close>.\<close>

definition update_target :: "(nat \<Rightarrow> u8) \<Rightarrow> nat option \<Rightarrow> nat" where
  "update_target m requested = (case requested of None \<Rightarrow> unat (tool_choice m) | Some s \<Rightarrow> s)"

text \<open>The end of the sequence, from the payload, from the verification and from the erase on.\<close>

definition finish_update :: "'d py_port \<Rightarrow> nat \<Rightarrow> nat \<Rightarrow> nat \<Rightarrow> ('d, nat) py" where
  "finish_update P retries slot crc =
     py_bind (tool_verify P retries slot) (\<lambda>stored.
     if si_img_crc32 stored \<noteq> crc then py_raise Bootloader_Error
     else py_bind (tool_set_active P retries slot) (\<lambda>_. py_return slot))"

definition fill_slot :: "'d py_port \<Rightarrow> nat \<Rightarrow> nat \<Rightarrow> nat \<Rightarrow> u8 list \<Rightarrow> u8 list \<Rightarrow> nat \<Rightarrow> nat \<Rightarrow> ('d, nat) py" where
  "fill_slot P retries e chunk_size pl hdr slot crc =
     py_bind (write_payload P retries e chunk_size pl 0) (\<lambda>_.
     py_bind (tool_write P retries 0 hdr) (\<lambda>_. finish_update P retries slot crc))"

definition install_into :: "'d py_port \<Rightarrow> nat \<Rightarrow> u8 list \<Rightarrow> device_info \<Rightarrow> image_header \<Rightarrow> nat \<Rightarrow> ('d, nat) py" where
  "install_into P retries img info header slot =
     (if slot \<ge> di_slot_count info then py_raise Bootloader_Error
      else if slot = di_active_slot info then py_raise Bootloader_Error
      else
        py_bind (tool_erase_slot P retries slot) (\<lambda>_.
        let chunk_size = min (di_max_write info) MAX_WRITE_DATA in
        py_bind (py_lift (py_mod chunk_size (di_write_granularity info))) (\<lambda>remainder.
        if remainder \<noteq> 0 then py_raise Protocol_Error
        else fill_slot P retries (ih_entry_offset header) chunk_size (drop (ih_entry_offset header) img)
               (take HDR_STRUCT_SIZE img) slot (ih_img_crc32 header))))"

lemma tool_update_parts:
  "tool_update P retries img requested =
     py_bind (tool_hello P retries) (\<lambda>info.
     py_bind (py_lift (validate img (Some (di_slot_size info)))) (\<lambda>header.
     py_bind (case requested of None \<Rightarrow> choose_target_slot P retries info | Some s \<Rightarrow> py_return s)
       (install_into P retries img info header)))"
  unfolding tool_update_def install_into_def fill_slot_def finish_update_def Let_def ..

lemma verify_installed_spec:
  assumes clk: "live \<Longrightarrow> fast clk" and slot: "slot_is_valid slot"
  shows "py_spec (\<lambda>l. line_up brk live retries l \<and> installed live slot e pl hdr h0 k (lk_sim l)) (tool_verify (link_port clk) retries (unat slot))
    (\<lambda>r l. r = slot_report hdr \<and> line_up brk live retries l \<and> installed live slot e pl hdr h0 k (lk_sim l))
    (gave_up brk live (untouched slot e pl hdr h0))"
proof (rule py_spec_at)
  fix l0 assume l0: "line_up brk live retries l0 \<and> installed live slot e pl hdr h0 k (lk_sim l0)"
  then have i: "slot_image g_layout (host_mem (sim_host (lk_sim l0))) slot = Inr hdr" "dev_idle (lk_sim l0)"
    by (simp_all add: installed_def holds_def untouched_def)
  show "py_spec (\<lambda>l. l = l0) (tool_verify (link_port clk) retries (unat slot))
    (\<lambda>r l. r = slot_report hdr \<and> line_up brk live retries l \<and> installed live slot e pl hdr h0 k (lk_sim l))
    (gave_up brk live (untouched slot e pl hdr h0))"
    by (rule py_spec_weaken [OF verify_spec [where brk = brk and live = live and s = "g_session (lk_sim l0)", OF clk slot i(1)]])
      (use l0 i(2) installed_at [of live slot e pl hdr h0 k "lk_sim l0"] in \<open>simp_all add: dev_at_def gave_up_def installed_def\<close>)
qed

lemma finish_update_spec:
  assumes clk: "live \<Longrightarrow> fast clk" and slot: "slot_is_valid slot" and fits: "e + length pl \<le> 0x1B000"
    and seq: "meta_seq_of g_layout (host_mem h0) + retries < 2 ^ 32"
  shows "py_spec (\<lambda>l. line_up brk live retries l \<and> installed live slot e pl hdr h0 retries (lk_sim l))
    (finish_update (link_port clk) retries (unat slot) (unat (img_crc32 hdr)))
    (\<lambda>t l. t = unat slot \<and> line_up brk live retries l \<and> armed slot e pl hdr h0 retries (lk_sim l))
    (gave_up brk live (spared slot e pl hdr h0 retries))"
proof -
  have "py_spec (\<lambda>l. line_up brk live retries l \<and> installed live slot e pl hdr h0 retries (lk_sim l))
      (py_bind (tool_set_active (link_port clk) retries (unat slot)) (\<lambda>_. py_return (unat slot)))
      (\<lambda>t l. t = unat slot \<and> line_up brk live retries l \<and> armed slot e pl hdr h0 retries (lk_sim l))
      (gave_up brk live (spared slot e pl hdr h0 retries))"
    by (rule py_spec_seq [OF set_active_spec [where brk = brk and live = live, OF clk slot fits seq]]) (auto intro: py_spec_return)
  then show ?thesis
    unfolding finish_update_def
    by (intro py_spec_seq_eq [OF verify_installed_spec [where brk = brk and live = live, OF clk slot]])
      (auto simp: slot_report_def elim!: gave_up_mono intro: untouched_spared(1) [OF _ slot])
qed

lemma fill_slot_spec:
  assumes clk: "live \<Longrightarrow> fast clk" and slot: "slot_is_valid slot"
    and hdr: "hdr_describes e pl hdr" "length pl mod 8 = 0" and fits: "e + length pl \<le> 0x1B000"
    and seq: "meta_seq_of g_layout (host_mem h0) + retries < 2 ^ 32"
    and budget: "length pl \<le> 504 * n" "live \<Longrightarrow> n + 1 + retries \<le> host_budget h0"
  shows "py_spec (\<lambda>l. line_up brk live retries l \<and> on_slot live slot e [] h0 (host_budget h0) (lk_sim l))
    (fill_slot (link_port clk) retries e 504 pl (hdr_bytes hdr) (unat slot) (unat (img_crc32 hdr)))
    (\<lambda>t l. t = unat slot \<and> line_up brk live retries l \<and> armed slot e pl hdr h0 retries (lk_sim l))
    (gave_up brk live (spared slot e pl hdr h0 retries))"
proof -
  have e: "512 \<le> e" "e mod 512 = 0" using hdr(1) by (simp_all add: hdr_describes_def)
  then have e8: "e mod 8 = 0" using mod_mod_cancel [of 8 512 e] by simp
  have stop: "gave_up brk live (spared slot e pl hdr h0 retries) er l"
    if "gave_up brk live (untouched slot e pl hdr h0) er l" for er l using that untouched_spared(1) [OF _ slot] by (rule gave_up_mono)
  have "py_spec (\<lambda>l. line_up brk live retries l \<and> on_slot live slot e pl h0 (Suc retries) (lk_sim l))
      (py_bind (tool_write (link_port clk) retries 0 (hdr_bytes hdr))
        (\<lambda>_. finish_update (link_port clk) retries (unat slot) (unat (img_crc32 hdr))))
      (\<lambda>t l. t = unat slot \<and> line_up brk live retries l \<and> armed slot e pl hdr h0 retries (lk_sim l))
      (gave_up brk live (spared slot e pl hdr h0 retries))"
    by (rule py_spec_seq [OF header_spec [where brk = brk and live = live, OF clk slot hdr(1) fits]])
      (use stop finish_update_spec [where brk = brk and live = live, OF clk slot fits seq] in auto)
  note rest = this
  show ?thesis
    unfolding fill_slot_def
    by (rule py_spec_seq [OF write_payload_spec [where brk = brk and live = live and ?h0.0 = h0 and sent = 0 and n = n and k = "Suc retries",
            OF clk slot e(1) e8 hdr(2) fits]])
      (use stop rest budget in \<open>auto simp: on_slot_def\<close>)
qed

lemma target_spec:
  assumes clk: "live \<Longrightarrow> fast clk" and "update_target (host_mem h0) requested = t"
  shows "py_spec (\<lambda>l. line_up brk live retries l \<and> dev_at s h0 (lk_sim l))
    (case requested of None \<Rightarrow> choose_target_slot (link_port clk) retries (info_of (host_mem h0)) | Some s \<Rightarrow> py_return s)
    (\<lambda>a l. a = t \<and> line_up brk live retries l \<and> dev_at s h0 (lk_sim l)) (gave_up brk live (dev_at s h0))"
proof (cases requested)
  case None
  then show ?thesis
    using assms(2) by (auto simp: update_target_def intro!: py_spec_weaken [OF choose_spec [where brk = brk and live = live and s = s and h = h0, OF clk]])
next
  case (Some t)
  then show ?thesis using assms(2) by (auto simp: update_target_def intro!: py_spec_return)
qed

lemma update_spec:
  assumes clk: "live \<Longrightarrow> fast clk" and slot: "slot_is_valid slot" "update_target (host_mem h0) requested = unat slot"
    "di_active_slot (info_of (host_mem h0)) \<noteq> unat slot"
    and img: "take 40 img = hdr_bytes hdr" "hdr_describes e (drop e img) hdr" "e = unat (entry_offset hdr)"
      "unat (img_size hdr) mod 8 = 0" "length img \<le> 0x1B000"
    and seq: "meta_seq_of g_layout (host_mem h0) + retries < 2 ^ 32"
    and budget: "live \<Longrightarrow> length img div 504 + 1 + retries \<le> host_budget h0"
  shows "py_spec (\<lambda>l. line_up brk live retries l \<and> dev_at s h0 (lk_sim l)) (tool_update (link_port clk) retries img requested)
    (\<lambda>t l. t = unat slot \<and> line_up brk live retries l \<and> armed slot e (drop e img) hdr h0 retries (lk_sim l))
    (gave_up brk live (spared slot e (drop e img) hdr h0 retries))"
    (is "py_spec ?A _ ?B ?E")
proof -
  let ?m = "host_mem h0" and ?P = "link_port clk" and ?pl = "drop e img"
  have d: "512 \<le> e" "?pl \<noteq> []" "unat (img_size hdr) = length ?pl" using img(2) by (simp_all add: hdr_describes_def)
  have fits: "e + length ?pl \<le> 0x1B000" using img(5) d(2) by simp
  have m8: "length ?pl mod 8 = 0" using img(4) d(3) by simp
  have valid: "validate img (Some (di_slot_size (info_of ?m))) = Inr (header_of hdr)"
    unfolding validate_iff using img by (intro exI [of _ hdr]) (simp add: info_of_def)
  have stop: "gave_up brk live (dev_at s h0) er l \<Longrightarrow> ?E er l" "gave_up brk live (untouched slot e ?pl hdr h0) er l \<Longrightarrow> ?E er l" for er l
    by (auto elim!: gave_up_mono intro!: untouched_spared(1) [OF _ slot(1)] simp: dev_at_def untouched_def)
  have n: "length ?pl \<le> 504 * (length img div 504)"
    using div_mult_mod_eq [of "length img" 504] mod_less_divisor [of 504 "length img"] d(1) unfolding length_drop by linarith
  note fill = fill_slot_spec [where brk = brk and live = live, OF clk slot(1) img(2) m8 fits seq n budget]
  have v: "\<not> unat slot \<ge> di_slot_count (info_of ?m)" "unat slot \<noteq> di_active_slot (info_of ?m)"
    using slot(1,3) by (auto simp: info_of_def slot_is_valid_iff)
  have c: "min (di_max_write (info_of ?m)) MAX_WRITE_DATA = 504" "py_mod 504 (di_write_granularity (info_of ?m)) = Inr 0"
    by (simp_all add: info_of_def py_mod_def)
  have h: "ih_entry_offset (header_of hdr) = e" "take HDR_STRUCT_SIZE img = hdr_bytes hdr" "ih_img_crc32 (header_of hdr) = unat (img_crc32 hdr)"
    using img(1,3) by simp_all
  have "py_spec ?A (install_into ?P retries img (info_of ?m) (header_of hdr) (unat slot)) ?B ?E"
    unfolding install_into_def if_not_P [OF v(1)] if_not_P [OF v(2)] Let_def c h py_lift_Inr py_bind_return
    by (rule py_spec_seq [OF erase_spec [where brk = brk and live = live and e = e, OF clk slot(1)]]) (use stop fill in auto)
  note install = this
  show ?thesis
    unfolding tool_update_parts
    by (rule py_spec_seq_eq [OF hello_spec [where brk = brk and live = live and s = s and h = h0, OF clk]], assumption, assumption, rule stop, assumption,
        unfold valid py_lift_Inr py_bind_return, rule py_spec_seq_eq [OF target_spec [where brk = brk and live = live and s = s, OF clk slot(2)]])
      (use install stop in auto)
qed

end
