(* ===== verification/Bl_Tool_Install.thy ===== *)
theory Bl_Tool_Install
  imports Bl_Tool_Update
begin

text \<open>
  What a run of the updater achieves: on a line that lets one of every \<open>retries\<close> attempts
  through, the image is installed and armed; on any line the device keeps an image it can
  boot; which slot is chosen, and what is refused before anything is erased.
\<close>

section \<open>Installing\<close>

lemma tolerable_unbroken: "tolerable r k fs \<Longrightarrow> \<not> list_ex breaks fs"
  by (induction r k fs rule: tolerable.induct) auto

lemma info_active:
  "di_active_slot (info_of m) = (case nominated (boot_status_of g_layout m) of Some a \<Rightarrow> unat a | None \<Rightarrow> 0xFF)"
  by (auto simp: info_of_def boot_status_of_def split: option.split)

lemma not_nominated:
  "slot_is_valid slot \<Longrightarrow> nominated (boot_status_of g_layout m) \<noteq> Some slot \<Longrightarrow> di_active_slot (info_of m) \<noteq> unat slot"
  by (auto simp: info_active slot_is_valid_iff word_unat_eq_iff split: option.split)

text \<open>The conditions of \<open>update_spec\<close> from an image the tool accepts.\<close>

lemma update_accepted:
  assumes "live \<Longrightarrow> fast clk" and "slot_is_valid slot" and "update_target (dev_mem d) requested = unat slot"
    and "nominated (dev_status d) \<noteq> Some slot" and valid: "validate img (Some 0x1B000) = Inr header"
    and "meta_seq_of g_layout (dev_mem d) + retries < 2 ^ 32" and "live \<Longrightarrow> length img div 504 + 1 + retries \<le> host_budget (sim_host d)"
  obtains hdr where "header = header_of hdr" and "take 40 img = hdr_bytes hdr" and "ih_entry_offset header \<le> length img"
    and "py_spec (\<lambda>l. line_up brk live retries l \<and> dev_at (g_session d) (sim_host d) (lk_sim l))
      (tool_update (link_port clk) retries img requested)
      (\<lambda>t l. t = unat slot \<and> line_up brk live retries l \<and> armed slot (ih_entry_offset header) (drop (ih_entry_offset header) img) hdr (sim_host d) retries (lk_sim l))
      (gave_up brk live (spared slot (ih_entry_offset header) (drop (ih_entry_offset header) img) hdr (sim_host d) retries))"
proof -
  from valid [unfolded validate_iff] obtain hdr where h: "header = header_of hdr" "take 40 img = hdr_bytes hdr"
    "hdr_describes (unat (entry_offset hdr)) (drop (unat (entry_offset hdr)) img) hdr" "unat (img_size hdr) mod 8 = 0" "length img \<le> 0x1B000"
    by (elim exE conjE) (rule that)
  have "drop (unat (entry_offset hdr)) img \<noteq> []" using h(3) by (simp add: hdr_describes_def)
  then have "ih_entry_offset header \<le> length img" by (simp add: h(1))
  with h that [of hdr] update_spec [where brk = brk and live = live and s = "g_session d" and retries = retries,
      OF assms(1-3) not_nominated [OF assms(2,4)] h(2,3) refl h(4,5) assms(6,7)]
  show ?thesis by simp
qed

text \<open>
  C1. The updater installs the image over an unreliable line. Requests and answers may be
  lost or noticeably damaged, as long as one of every \<open>retries\<close> attempts gets through in
  time; the device is idle, its flash takes the writes, and the target is not the slot the
  metadata nominate. Then \<open>update\<close> returns the target; that slot holds the header and the
  payload of the file and is a valid image with the file's header; the boot status is a fresh
  trial of it; and the other slot is what it was.
\<close>

theorem update_installs_image:
  assumes "dev_idle (lk_sim l)" and "slot_is_valid slot"
    and "update_target (host_mem (sim_host (lk_sim l))) requested = unat slot"
    and "nominated (boot_status_of g_layout (host_mem (sim_host (lk_sim l)))) \<noteq> Some slot"
    and "validate img (Some 0x1B000) = Inr header"
    and "meta_seq_of g_layout (host_mem (sim_host (lk_sim l))) + retries < 2 ^ 32"
    and "length img div 504 + 1 + retries \<le> host_budget (sim_host (lk_sim l))"
    and "0 < retries" and "list_all harmless (lk_faults l)" and "tolerable (retries - 1) (retries - 1) (lk_faults l)" and "fast clk"
  shows "\<exists>l' m'. tool_update (link_port clk) retries img requested l = Some (Inr (unat slot), l') \<and>
    m' = host_mem (sim_host (lk_sim l')) \<and>
    bytes_at m' (region_lo (layout_slot g_layout ! unat slot)) 40 = take 40 img \<and>
    bytes_at m' (region_lo (layout_slot g_layout ! unat slot) + ih_entry_offset header) (length img - ih_entry_offset header) =
      drop (ih_entry_offset header) img \<and>
    (\<exists>hdr. slot_image g_layout m' slot = Inr hdr \<and> header_of hdr = header) \<and>
    boot_status_of g_layout m' = Trial slot 0 \<and>
    (\<forall>x. region_lo (layout_slot g_layout ! unat (other_slot slot)) \<le> x \<and> x < region_hi (layout_slot g_layout ! unat (other_slot slot)) \<longrightarrow>
       m' x = host_mem (sim_host (lk_sim l)) x)"
proof -
  obtain hdr where h: "header = header_of hdr" "take 40 img = hdr_bytes hdr"
    and spec: "py_spec (\<lambda>x. line_up False True retries x \<and> dev_at (g_session (lk_sim l)) (sim_host (lk_sim l)) (lk_sim x))
      (tool_update (link_port clk) retries img requested)
      (\<lambda>t x. t = unat slot \<and> line_up False True retries x \<and> armed slot (ih_entry_offset header) (drop (ih_entry_offset header) img) hdr (sim_host (lk_sim l)) retries (lk_sim x))
      (gave_up False True (spared slot (ih_entry_offset header) (drop (ih_entry_offset header) img) hdr (sim_host (lk_sim l)) retries))"
    by (rule update_accepted [where brk = False and live = True, OF assms(11) assms(2-7)])
  have "line_up False True retries l \<and> dev_at (g_session (lk_sim l)) (sim_host (lk_sim l)) (lk_sim l)"
    using assms(1,8-10) tolerable_unbroken [OF assms(10)] by (simp add: line_ok_def dev_at_def)
  with spec show ?thesis
    by (cases rule: py_specD)
      (use h in \<open>auto simp: armed_def other_kept_def Let_def holds_def gave_up_def\<close>)
qed

text \<open>The demonstration device behind a line that loses and damages messages.\<close>

definition noisy_link :: link where
  "noisy_link =
     \<lparr>lk_device = \<lparr>sd_lib = steady, sd_rx = []\<rparr>, lk_clock = 0,
      lk_faults = [Lose_request, Damage_answer (\<lambda>_. []), Deliver, Damage_answer (take 6), Deliver,
        Damage_request (\<lambda>bs. butlast bs @ [xor (last bs) 0xFF]), Deliver,
        Damage_answer (\<lambda>bs. bs[4 := xor (bs ! 4) 1])]\<rparr>"

lemma noisy_link_fields [simp]: "lk_sim noisy_link = steady" "tolerable 2 2 (lk_faults noisy_link)"
  "list_ex breaks (lk_faults noisy_link) = False"
  by (simp_all add: noisy_link_def numeral_2_eq_2)

lemma xor_other: "v \<noteq> 0 \<Longrightarrow> xor b v \<noteq> b" for b v :: u8
proof
  assume "v \<noteq> 0" "xor b v = b"
  then have "xor b (xor b v) = xor b b" by simp
  with \<open>v \<noteq> 0\<close> show False by (simp flip: xor.assoc)
qed

text \<open>A flipped bit in a checksum byte of a request, and in the byte after the length of an answer.\<close>

lemma flipped_tail_unheard:
  assumes "length p \<le> 512" and "v \<noteq> 0"
  shows "unheard (butlast (frame_bytes c p) @ [xor (last (frame_bytes c p)) v])"
proof -
  obtain w x y z where w: "put_u32_le (bl_crc32 0 (frame_body c p)) = [w, x, y, z]" by (simp add: put_u32_le_def)
  have f: "frame_bytes c p = BL_SOF # (frame_body c p @ [w, x, y]) @ [z] @ []"
    unfolding frame_bytes_def w by simp
  have t: "butlast (frame_bytes c p) @ [xor (last (frame_bytes c p)) v] = BL_SOF # (frame_body c p @ [w, x, y]) @ [xor z v] @ []"
    unfolding f by (simp add: butlast_append)
  show ?thesis
    unfolding t by (rule unheard_burst [OF f assms(1)]) (use xor_other [OF assms(2), of z] in \<open>auto simp: frame_body_def\<close>)
qed

lemma flipped_head_mute:
  assumes "length p \<le> 512" and "v \<noteq> 0"
  shows "mute ((frame_bytes c p)[4 := xor (frame_bytes c p ! 4) v])"
proof -
  obtain l0 l1 where l: "put_u16_le (of_nat (length p)) = [l0, l1]" by (simp add: put_u16_le_def)
  obtain b ys where b: "p @ put_u32_le (bl_crc32 0 (frame_body c p)) = b # ys"
    by (cases "p @ put_u32_le (bl_crc32 0 (frame_body c p))") (auto simp: put_u32_le_def)
  have f: "frame_bytes c p = BL_SOF # [c, l0, l1] @ [b] @ ys"
    using b by (simp add: frame_bytes_def frame_body_def l)
  have t: "(frame_bytes c p)[4 := xor (frame_bytes c p ! 4) v] = BL_SOF # [c, l0, l1] @ [xor b v] @ ys"
    unfolding f by (simp add: numeral_eq_Suc)
  show ?thesis
    unfolding t by (rule mute_burst [OF f assms(1)]) (use xor_other [OF assms(2), of b] in \<open>auto simp: l\<close>)
qed

lemma cut_mute: "length p \<le> 512 \<Longrightarrow> mute (take 6 (frame_bytes c p))"
  by (rule mute_truncated) (simp_all add: frame_bytes_def frame_body_def)

lemma noisy_link_harmless [simp]: "list_all harmless (lk_faults noisy_link)"
proof -
  have "unheard (butlast (frame_bytes c p) @ [xor (last (frame_bytes c p)) 0xFF])" if "length p \<le> 512" for c p
    by (rule flipped_tail_unheard [OF that]) simp
  moreover have "mute []" by (simp add: mute_def)
  ultimately show ?thesis
    unfolding noisy_link_def using flipped_head_mute [of _ 1] by (simp add: cut_mute)
qed

lemma steady_status [simp]: "boot_status_of g_layout (host_mem steady_host) = Confirmed 0"
  by (simp add: boot_status_of_def)

lemma steady_choice [simp]: "update_target (host_mem steady_host) None = unat (1 :: u8)"
  by (simp add: update_target_def tool_choice_def other_slot_def)

lemma demo_file [simp]: "validate (image_bytes 2 vectors_b) (Some 0x1B000) = Inr (header_of (image_hdr 2 vectors_b))"
  "length (image_bytes 2 vectors_b) = 520"
  by (simp_all add: validate_packaged vectors_b_def put_u32_le_def)

lemma frozen_clock [simp]: "fast (\<lambda>_. 0)"
  by (simp add: fast_def)

theorem update_installs_image_witness:
  "\<exists>l'. tool_update (link_port (\<lambda>_. 0)) 3 (image_bytes 2 vectors_b) None noisy_link = Some (Inr 1, l') \<and>
     boot_status_of g_layout (host_mem (sim_host (lk_sim l'))) = Trial 1 0"
  using update_installs_image [of noisy_link 1 None "image_bytes 2 vectors_b" "header_of (image_hdr 2 vectors_b)" 3 "\<lambda>_. 0"]
  by (auto simp: slot_is_valid_iff meta_seq_of_def)

section \<open>Giving up\<close>

text \<open>
  C2. No line whose damage is noticed can strand the device. Start an update on an idle
  device with a confirmed, bootable image in the other slot. Let the line lose requests,
  lose answers, damage answers so that no intact frame can be read from them, damage
  requests so that the idle device completes no frame and waits for a start marker again,
  or fail with an \<open>OSError\<close>, in any pattern; let any time pass, and let flash writes fail from
  any point on. (The sequence counter must not wrap.) The updater returns -- with the slot it
  wrote, a timeout after its last attempt, the device's report of the failed write, or the
  \<open>OSError\<close> of a port that raised one -- and if nothing confirms the new image, from the
  fourth power-up on the device runs the old one.
\<close>

theorem update_never_strands_device:
  assumes "dev_idle (lk_sim l)" and "slot_is_valid slot"
    and "update_target (host_mem (sim_host (lk_sim l))) requested = unat slot"
    and "boot_status_of g_layout (host_mem (sim_host (lk_sim l))) = Confirmed (other_slot slot)"
    and "is_ok (slot_image g_layout (host_mem (sim_host (lk_sim l))) (other_slot slot))"
    and "jump_ok (host_mem (sim_host (lk_sim l))) (boot_entry g_layout (host_mem (sim_host (lk_sim l))) (other_slot slot))"
    and "validate img (Some 0x1B000) = Inr header"
    and "meta_seq_of g_layout (host_mem (sim_host (lk_sim l))) + retries + n < 2 ^ 32"
    and "list_all harmless (lk_faults l)"
  shows "\<exists>r l' targets d'. tool_update (link_port clk) retries img requested l = Some (r, l') \<and>
    (r = Inr (unat slot) \<or> r = Inl Bootloader_Timeout \<or> r = Inl Os_Error \<and> list_ex breaks (lk_faults l) \<or>
     (\<exists>cmd. r = Inl (Device_Error cmd (unat (result_code BL_ERR_FLASH_PROGRAM))))) \<and>
    power_cycles n (lk_sim l') = Some (targets, d') \<and>
    (\<forall>i. 3 \<le> i \<and> i < n \<longrightarrow> targets ! i = boot_entry g_layout (host_mem (sim_host (lk_sim l))) (other_slot slot))"
proof -
  let ?m = "host_mem (sim_host (lk_sim l))" and ?a = "other_slot slot"
  have a: "slot_is_valid ?a" "?a \<noteq> slot" "other_slot ?a = slot" using assms(2) by (auto simp: slot_is_valid_iff)
  have seq: "meta_seq_of g_layout ?m + retries < 2 ^ 32" using assms(8) by simp
  have nom: "nominated (dev_status (lk_sim l)) \<noteq> Some slot" using assms(4) a(2) by simp
  obtain hdr where
    spec: "py_spec (\<lambda>x. line_up (list_ex breaks (lk_faults l)) False retries x \<and> dev_at (g_session (lk_sim l)) (sim_host (lk_sim l)) (lk_sim x))
      (tool_update (link_port clk) retries img requested)
      (\<lambda>t x. t = unat slot \<and> line_up (list_ex breaks (lk_faults l)) False retries x \<and> armed slot (ih_entry_offset header) (drop (ih_entry_offset header) img) hdr (sim_host (lk_sim l)) retries (lk_sim x))
      (gave_up (list_ex breaks (lk_faults l)) False (spared slot (ih_entry_offset header) (drop (ih_entry_offset header) img) hdr (sim_host (lk_sim l)) retries))"
    by (rule update_accepted [where brk = "list_ex breaks (lk_faults l)" and live = False, OF FalseE assms(2,3) nom assms(7) seq FalseE])
  have boots: "\<exists>targets d'. power_cycles n x = Some (targets, d') \<and> (\<forall>i. 3 \<le> i \<and> i < n \<longrightarrow> targets ! i = boot_entry g_layout ?m ?a)"
    if x: "spared slot (ih_entry_offset header) (drop (ih_entry_offset header) img) hdr (sim_host (lk_sim l)) retries x" for x
  proof -
    have same: "dev_mem x y = ?m y" if "region_lo (layout_slot g_layout ! unat ?a) \<le> y" "y < region_hi (layout_slot g_layout ! unat ?a)" for y
      using x that by (simp add: spared_def other_kept_def Let_def)
    note keep = slot_bytes_boot [of ?a "dev_mem x" ?m, OF same a(1)]
    have old: "boot_target (dev_mem x) (Confirmed ?a) = boot_entry g_layout ?m ?a"
      using keep assms(5,6) by (simp add: boot_target_def policy_slot_def)
    have st: "dev_status x = Confirmed ?a \<or> dev_status x = Trial slot 0" "meta_seq_of g_layout (dev_mem x) + n < 2 ^ 32"
      using x assms(4,8) by (auto simp: spared_def armed_def other_kept_def Let_def)
    from power_cycles_policy [OF st(2)] st(1) old keep(1) assms(5) show ?thesis
      by (auto simp: policy_run_confirmed policy_run_trial)
  qed
  have "line_up (list_ex breaks (lk_faults l)) False retries l \<and> dev_at (g_session (lk_sim l)) (sim_host (lk_sim l)) (lk_sim l)"
    using assms(1,9) by (simp add: line_ok_def dev_at_def)
  with spec show ?thesis
  proof (cases rule: py_specD)
    case (result t l')
    with boots [of "lk_sim l'"] show ?thesis by (auto simp: spared_def armed_def)
  next
    case (exception er l')
    with boots [of "lk_sim l'"] show ?thesis by (auto simp: gave_up_def line_error_def)
  qed
qed

text \<open>A line that goes dead before the header.\<close>

theorem update_never_strands_device_witness:
  "\<exists>r l' targets d'. tool_update (link_port (\<lambda>i. int i)) 3 (image_bytes 2 vectors_b) None
       (noisy_link\<lparr>lk_faults := [Deliver, Deliver, Deliver, Damage_answer (take 6), Lose_request, Break True]\<rparr>) = Some (r, l') \<and>
     power_cycles 4 (lk_sim l') = Some (targets, d') \<and> targets ! 3 = 0x08009200"
  using update_never_strands_device [of "noisy_link\<lparr>lk_faults := [Deliver, Deliver, Deliver, Damage_answer (take 6), Lose_request, Break True]\<rparr>" 1 None
      "image_bytes 2 vectors_b" "header_of (image_hdr 2 vectors_b)" 3 4 "\<lambda>i. int i"]
  by (auto simp: slot_is_valid_iff meta_seq_of_def other_slot_def cut_mute)

section \<open>Choosing and refusing\<close>

lemma live_start:
  assumes "dev_idle (lk_sim l)" and "0 < retries" and "list_all harmless (lk_faults l)"
    and "tolerable (retries - 1) (retries - 1) (lk_faults l)"
  shows "line_up False True retries l \<and> dev_at (g_session (lk_sim l)) (sim_host (lk_sim l)) (lk_sim l)"
  using assms tolerable_unbroken [OF assms(4)] by (simp add: line_ok_def dev_at_def)

text \<open>
  C13. Which slot the tool overwrites when none is given. Let \<open>a\<close> be the slot the next boot
  runs. The tool spares it exactly in these cases: without metadata, unless both slots hold
  valid images of the same version; with metadata, if the nominated image is valid and is
  not a trial out of attempts with a valid image to fall back to. In every other case it
  picks the slot that would boot.
\<close>

theorem chosen_slot_spares_boot:
  assumes "dev_idle (lk_sim l)" and "0 < retries" and "list_all harmless (lk_faults l)"
    and "tolerable (retries - 1) (retries - 1) (lk_faults l)" and "fast clk"
    and "img = slot_image g_layout (host_mem (sim_host (lk_sim l)))"
    and "status = boot_status_of g_layout (host_mem (sim_host (lk_sim l)))"
    and "policy_slot img (policy_advance (\<lambda>a. is_ok (img a)) status) = Some a"
  shows "\<exists>t l'. py_bind (tool_hello (link_port clk) retries) (choose_target_slot (link_port clk) retries) l = Some (Inr t, l') \<and>
    sim_host (lk_sim l') = sim_host (lk_sim l) \<and>
    (t \<noteq> unat a \<longleftrightarrow>
      (case status of
         No_record \<Rightarrow> \<not> (is_ok (img 0) \<and> is_ok (img 1) \<and> fw_version (projr (img 0)) = fw_version (projr (img 1)))
       | Confirmed b \<Rightarrow> is_ok (img b)
       | Trial b k \<Rightarrow> is_ok (img b) \<and> (k < 3 \<or> \<not> is_ok (img (other_slot b)))))"
proof -
  let ?m = "host_mem (sim_host (lk_sim l))" and ?at = "\<lambda>x. line_up False True retries x \<and> dev_at (g_session (lk_sim l)) (sim_host (lk_sim l)) (lk_sim x)"
  have "py_spec ?at (py_bind (tool_hello (link_port clk) retries) (choose_target_slot (link_port clk) retries))
      (\<lambda>t x. t = unat (tool_choice ?m) \<and> ?at x) (gave_up False True (dev_at (g_session (lk_sim l)) (sim_host (lk_sim l))))"
    by (rule py_spec_seq_eq [OF hello_spec]) (use assms(5) choose_spec in auto)
  then obtain l' where run: "py_bind (tool_hello (link_port clk) retries) (choose_target_slot (link_port clk) retries) l =
      Some (Inr (unat (tool_choice ?m)), l')" "sim_host (lk_sim l') = sim_host (lk_sim l)"
    using live_start [OF assms(1-4)] by (cases rule: py_specD) (auto simp: gave_up_def dev_at_def)
  have "tool_choice ?m \<noteq> a \<longleftrightarrow>
      (case status of
         No_record \<Rightarrow> \<not> (is_ok (img 0) \<and> is_ok (img 1) \<and> fw_version (projr (img 0)) = fw_version (projr (img 1)))
       | Confirmed b \<Rightarrow> is_ok (img b)
       | Trial b k \<Rightarrow> is_ok (img b) \<and> (k < 3 \<or> \<not> is_ok (img (other_slot b))))"
  proof (cases "meta_authoritative g_layout ?m")
    case None
    then show ?thesis
      using assms(6-8)
      by (auto simp: tool_choice_def boot_status_of_def policy_slot_def is_ok_def split: if_splits sum.splits)
  next
    case (Some p)
    then obtain r i where p: "meta_authoritative g_layout ?m = Some (r, i)" by (cases p) simp
    have "slot_is_valid (meta_active_slot r)" using authoritative_slot [OF p] .
    then have "other_slot (other_slot (meta_active_slot r)) = meta_active_slot r" "other_slot (meta_active_slot r) \<noteq> meta_active_slot r"
      by (auto simp: slot_is_valid_iff)
    with p show ?thesis
      using assms(6-8) by (auto simp: tool_choice_def boot_status_of_def policy_slot_def split: if_splits)
  qed
  with run show ?thesis by (simp add: word_unat_eq_iff)
qed

theorem chosen_slot_spares_boot_witness:
  "\<exists>t l'. py_bind (tool_hello (link_port (\<lambda>_. 0)) 3) (choose_target_slot (link_port (\<lambda>_. 0)) 3) noisy_link = Some (Inr t, l') \<and> t \<noteq> 0"
  using chosen_slot_spares_boot [of noisy_link 3 "\<lambda>_. 0" "slot_image g_layout (host_mem steady_host)" "Confirmed 0" 0]
  by (auto simp: policy_slot_def)

text \<open>
  C18. Refusals come before the erase: an image the tool does not accept, a slot the device
  does not have, and the slot its metadata nominate are refused with an exception, and the
  device's flash and session are what they were.
\<close>

theorem update_refuses_before_erasing:
  assumes "dev_idle (lk_sim l)" and "0 < retries" and "list_all harmless (lk_faults l)"
    and "tolerable (retries - 1) (retries - 1) (lk_faults l)" and "fast clk"
    and "case validate img (Some 0x1B000) of
           Inl e \<Rightarrow> error = e
         | Inr _ \<Rightarrow> error = Bootloader_Error \<and> requested = Some s \<and>
             (2 \<le> s \<or> nominated (boot_status_of g_layout (host_mem (sim_host (lk_sim l)))) = Some (of_nat s))"
  shows "\<exists>l'. tool_update (link_port clk) retries img requested l = Some (Inl error, l') \<and>
    sim_host (lk_sim l') = sim_host (lk_sim l) \<and> g_session (lk_sim l') = g_session (lk_sim l)"
proof -
  let ?m = "host_mem (sim_host (lk_sim l))" and ?at = "\<lambda>x. line_up False True retries x \<and> dev_at (g_session (lk_sim l)) (sim_host (lk_sim l)) (lk_sim x)"
  have room: "di_slot_size (info_of ?m) = 0x1B000" "di_slot_count (info_of ?m) = 2" by (simp_all add: info_of_def)
  have active: "s = di_active_slot (info_of ?m)" if "\<not> 2 \<le> s" "nominated (boot_status_of g_layout ?m) = Some (of_nat s)"
    using that by (simp add: info_active unat_of_nat)
  have "py_spec ?at (tool_update (link_port clk) retries img requested) (\<lambda>_ _. False) (\<lambda>e x. e = error \<and> ?at x)"
    unfolding tool_update_def
    by (rule py_spec_seq_eq [OF hello_spec [where live = True]])
      (use assms(5,6) active in \<open>auto simp: gave_up_def room py_spec_def py_simps split: sum.splits\<close>)
  then show ?thesis
    using live_start [OF assms(1-4)] by (cases rule: py_specD) (auto simp: dev_at_def)
qed

theorem update_refuses_before_erasing_witness:
  "\<exists>l'. tool_update (link_port (\<lambda>_. 0)) 3 (image_bytes 2 vectors_b) (Some 0) noisy_link = Some (Inl Bootloader_Error, l') \<and>
     sim_host (lk_sim l') = steady_host"
  using update_refuses_before_erasing [where l = noisy_link and retries = 3 and clk = "\<lambda>_. 0" and img = "image_bytes 2 vectors_b"
      and error = Bootloader_Error and requested = "Some 0" and s = 0] by auto

end
