(* ===== verification/Bl_Command.thy ===== *)
theory Bl_Command
  imports Bl_Tool_Install
begin

text \<open>
  Every command of \<open>blflash\<close> over any line: what a run of \<open>update\<close> leaves of the device,
  whatever its arguments and its result, and what the exit codes of \<open>main\<close> mean.
\<close>

section \<open>Any run of the updater\<close>

text \<open>
  What a run leaves of a device with the host state \<open>h0\<close>: nothing changed, or the slot is
  \<open>spared\<close>; if it returns a slot, the image in it is complete and on trial.
\<close>

definition update_of :: "u8 list \<Rightarrow> nat option \<Rightarrow> host \<Rightarrow> u8 \<Rightarrow> bl_img_hdr \<Rightarrow> bool" where
  "update_of img requested h0 slot hdr \<longleftrightarrow>
     slot_is_valid slot \<and> update_target (host_mem h0) requested = unat slot \<and>
     nominated (boot_status_of g_layout (host_mem h0)) \<noteq> Some slot \<and> validate img (Some 0x1B000) = Inr (header_of hdr)"

definition update_leaves :: "u8 list \<Rightarrow> nat option \<Rightarrow> nat \<Rightarrow> host \<Rightarrow> sim \<Rightarrow> bool" where
  "update_leaves img requested retries h0 d \<longleftrightarrow>
     dev_idle d \<and> (sim_host d = h0 \<or>
       (\<exists>slot hdr. update_of img requested h0 slot hdr \<and>
          spared slot (unat (entry_offset hdr)) (drop (unat (entry_offset hdr)) img) hdr h0 retries d))"

definition update_done :: "u8 list \<Rightarrow> nat option \<Rightarrow> nat \<Rightarrow> host \<Rightarrow> nat \<Rightarrow> sim \<Rightarrow> bool" where
  "update_done img requested retries h0 t d \<longleftrightarrow>
     (\<exists>slot hdr. update_of img requested h0 slot hdr \<and> t = unat slot \<and>
        armed slot (unat (entry_offset hdr)) (drop (unat (entry_offset hdr)) img) hdr h0 retries d)"

lemma update_done_leaves: "update_done img requested retries h0 t d \<Longrightarrow> update_leaves img requested retries h0 d"
proof -
  assume "update_done img requested retries h0 t d"
  then obtain slot hdr where "update_of img requested h0 slot hdr"
    "armed slot (unat (entry_offset hdr)) (drop (unat (entry_offset hdr)) img) hdr h0 retries d"
    by (auto simp: update_done_def)
  moreover from this(2) have "dev_idle d" "spared slot (unat (entry_offset hdr)) (drop (unat (entry_offset hdr)) img) hdr h0 retries d"
    by (auto simp: spared_def armed_def other_kept_def Let_def)
  ultimately show ?thesis by (auto simp: update_leaves_def)
qed

lemma update_leaves_host:
  "update_leaves img requested retries h0 d \<Longrightarrow> dev_idle d' \<Longrightarrow> sim_host d' = sim_host d \<Longrightarrow>
   update_leaves img requested retries h0 d'"
  by (auto simp: update_leaves_def spared_def other_kept_def armed_def Let_def)

lemma update_done_host:
  "update_done img requested retries h0 t d \<Longrightarrow> dev_idle d' \<Longrightarrow> sim_host d' = sim_host d \<Longrightarrow>
   update_done img requested retries h0 t d'"
  by (auto simp: update_done_def other_kept_def armed_def Let_def)

text \<open>The exceptions a run may end with: those \<open>main\<close> catches and, if the port breaks, its \<open>OSError\<close>.\<close>

definition expected :: "bool \<Rightarrow> py_error \<Rightarrow> bool" where
  "expected brk e \<longleftrightarrow> caught e \<or> e = Os_Error \<and> brk"

lemma gave_up_expected: "gave_up brk live A e l \<Longrightarrow> expected brk e \<and> A (lk_sim l)"
  by (auto simp: gave_up_def line_error_def expected_def)

text \<open>The target is a slot the update may overwrite.\<close>

definition free_target :: "(nat \<Rightarrow> u8) \<Rightarrow> nat option \<Rightarrow> bool" where
  "free_target m requested \<longleftrightarrow>
     update_target m requested < 2 \<and> nominated (boot_status_of g_layout m) \<noteq> Some (of_nat (update_target m requested))"

lemma update_refused:
  assumes bad: "\<not> free_target (host_mem h0) requested \<or> validate img (Some 0x1B000) = Inl err"
  shows "py_spec (\<lambda>l. line_up brk False retries l \<and> dev_at s h0 (lk_sim l)) (tool_update (link_port clk) retries img requested)
    (\<lambda>_ _. False) (\<lambda>e l. expected brk e \<and> dev_at s h0 (lk_sim l))"
proof -
  let ?m = "host_mem h0" and ?P = "link_port clk" and ?at = "\<lambda>l. line_up brk False retries l \<and> dev_at s h0 (lk_sim l)"
  have room: "di_slot_size (info_of ?m) = 0x1B000" "di_slot_count (info_of ?m) = 2" by (simp_all add: info_of_def)
  have "update_target ?m requested \<ge> 2 \<or> update_target ?m requested = di_active_slot (info_of ?m)" if "\<not> free_target ?m requested"
    using that by (cases "update_target ?m requested < 2") (auto simp: free_target_def info_active unat_of_nat)
  then have stop: "py_spec ?at (install_into ?P retries img (info_of ?m) header (update_target ?m requested))
      (\<lambda>_ _. False) (\<lambda>e l. expected brk e \<and> dev_at s h0 (lk_sim l))" if "\<not> free_target ?m requested" for header
    using that by (auto simp: install_into_def room py_spec_def py_raise_def expected_def)
  have rest: "py_spec ?at (py_bind (py_lift (validate img (Some (di_slot_size (info_of ?m))))) (\<lambda>header.
     py_bind (case requested of None \<Rightarrow> choose_target_slot ?P retries (info_of ?m) | Some s \<Rightarrow> py_return s)
       (install_into ?P retries img (info_of ?m) header))) (\<lambda>_ _. False) (\<lambda>e l. expected brk e \<and> dev_at s h0 (lk_sim l))"
  proof (cases "validate img (Some 0x1B000)")
    case (Inl e)
    with validate_error [OF Inl] show ?thesis unfolding room by (auto simp: py_spec_def py_bind_def py_lift_def expected_def)
  next
    case (Inr header)
    show ?thesis
      unfolding room Inr py_lift_Inr py_bind_return
      by (rule py_spec_seq_eq [OF target_spec [where brk = brk and live = False and s = s and ?h0.0 = h0]])
        (use bad Inr stop in \<open>auto dest: gave_up_expected\<close>)
  qed
  show ?thesis
    unfolding tool_update_parts
    by (rule py_spec_seq_eq [OF hello_spec [where brk = brk and live = False and s = s and h = h0]]) (use rest in \<open>auto dest: gave_up_expected simp: dev_at_def\<close>)
qed

lemma update_any:
  assumes seq: "meta_seq_of g_layout (host_mem h0) + retries < 2 ^ 32"
  shows "py_spec (\<lambda>l. line_up brk False retries l \<and> dev_at s h0 (lk_sim l)) (tool_update (link_port clk) retries img requested)
    (\<lambda>t l. line_up brk False retries l \<and> update_done img requested retries h0 t (lk_sim l))
    (\<lambda>e l. expected brk e \<and> update_leaves img requested retries h0 (lk_sim l))"
proof (cases "free_target (host_mem h0) requested \<and> (\<exists>header. validate img (Some 0x1B000) = Inr header)")
  case False
  then obtain e where "\<not> free_target (host_mem h0) requested \<or> validate img (Some 0x1B000) = Inl e"
    by (cases "validate img (Some 0x1B000)") auto
  from update_refused [where brk = brk and s = s, OF this] show ?thesis
    by (rule py_spec_weaken) (auto simp: update_leaves_def dev_at_def)
next
  case True
  then obtain header where valid: "validate img (Some 0x1B000) = Inr header" by blast
  define slot :: u8 where "slot = of_nat (update_target (host_mem h0) requested)"
  have t: "slot_is_valid slot" "update_target (host_mem h0) requested = unat slot"
    "nominated (boot_status_of g_layout (host_mem h0)) \<noteq> Some slot"
    using True by (auto simp: free_target_def slot_def slot_is_valid_iff unat_of_nat less_2_cases_iff)
  show ?thesis
  proof (rule py_spec_at)
    fix l0 assume l0: "line_up brk False retries l0 \<and> dev_at s h0 (lk_sim l0)"
    then have d: "sim_host (lk_sim l0) = h0" "g_session (lk_sim l0) = s" by (simp_all add: dev_at_def)
    obtain hdr where h: "header = header_of hdr" and spec: "py_spec (\<lambda>l. line_up brk False retries l \<and> dev_at s h0 (lk_sim l))
        (tool_update (link_port clk) retries img requested)
        (\<lambda>t l. t = unat slot \<and> line_up brk False retries l \<and>
          armed slot (ih_entry_offset header) (drop (ih_entry_offset header) img) hdr h0 retries (lk_sim l))
        (gave_up brk False (spared slot (ih_entry_offset header) (drop (ih_entry_offset header) img) hdr h0 retries))"
      by (rule update_accepted [where brk = brk and live = False and d = "lk_sim l0" and clk = clk, unfolded d, OF FalseE t valid seq FalseE])
    have of: "update_of img requested h0 slot hdr" using t valid by (simp add: update_of_def h)
    have "update_leaves img requested retries h0 d"
      if "spared slot (ih_entry_offset header) (drop (ih_entry_offset header) img) hdr h0 retries d" for d
    proof -
      have "dev_idle d" using that by (simp add: spared_def other_kept_def Let_def)
      with that of show ?thesis unfolding update_leaves_def h by auto
    qed
    moreover have "update_done img requested retries h0 (unat slot) d"
      if "armed slot (ih_entry_offset header) (drop (ih_entry_offset header) img) hdr h0 retries d" for d
      using that of unfolding update_done_def h by auto
    ultimately show "py_spec (\<lambda>l. l = l0) (tool_update (link_port clk) retries img requested)
      (\<lambda>t l. line_up brk False retries l \<and> update_done img requested retries h0 t (lk_sim l))
      (\<lambda>e l. expected brk e \<and> update_leaves img requested retries h0 (lk_sim l))"
      by (intro py_spec_weaken [OF spec]) (use l0 in \<open>auto dest: gave_up_expected\<close>)
  qed
qed

text \<open>The reset request at the end of \<open>blflash flash\<close> touches nothing but the session.\<close>

lemma reset_spec:
  assumes "live \<Longrightarrow> fast clk" and idle: "\<And>d. A d \<Longrightarrow> dev_idle d"
    and same: "\<And>d d'. A d \<Longrightarrow> dev_idle d' \<Longrightarrow> sim_host d' = sim_host d \<Longrightarrow> A d'"
  shows "py_spec (\<lambda>l. line_up brk live retries l \<and> A (lk_sim l)) (tool_reset (link_port clk) retries)
    (\<lambda>_ l. line_up brk live retries l \<and> A (lk_sim l) \<and> reset_requested (g_session (lk_sim l))) (gave_up brk live A)"
proof -
  have x: "\<exists>st data d'. exchange BL_CMD_RESET [] d = Some (frame_bytes BL_CMD_RESET (result_code st # data), d') \<and>
      length data \<le> 511 \<and> (st = BL_OK \<and> (A d' \<and> reset_requested (g_session d')) \<or> \<not> live \<and> st = BL_ERR_FLASH_PROGRAM) \<and> A d'" if "A d" for d
  proof (rule exchange_reset [OF idle [OF that]])
    fix d' assume "exchange BL_CMD_RESET [] d = Some (frame_bytes BL_CMD_RESET [result_code BL_OK], d')"
      "dev_idle d'" "sim_host d' = sim_host d" "reset_requested (g_session d')"
    with same [OF that] show ?thesis
      by (intro exI [of _ BL_OK] exI [of _ "[]"] exI [of _ d']) (simp del: BL_CMD_RESET_def result_code.simps)
  qed
  have parser: "A d'" if "A d" "same_but_parser d d'" for d d'
    using same_but_parser_keeps [OF that(2)] idle [OF that(1)] by (intro same [OF that(1)]) auto
  have cmd: "CMD_RESET = unat BL_CMD_RESET" by simp
  show ?thesis
    unfolding tool_reset_def cmd
    by (rule py_spec_seq [OF link_expect_ok [where I = "\<lambda>_. A" and brk = brk and live = live and Q = "\<lambda>_ d. A d \<and> reset_requested (g_session d)"]])
      (use x assms(1) idle parser in \<open>auto simp: gave_up_def intro: py_spec_return\<close>)
qed

lemma flash_any:
  assumes seq: "meta_seq_of g_layout (host_mem h0) + retries < 2 ^ 32"
  shows "py_spec (\<lambda>l. line_up brk False retries l \<and> dev_at s h0 (lk_sim l)) (cmd_flash (link_port clk) retries (Inr img) requested no_reset)
    (\<lambda>code l. code = 0 \<and> (\<exists>t. update_done img requested retries h0 t (lk_sim l)))
    (\<lambda>e l. expected brk e \<and> update_leaves img requested retries h0 (lk_sim l))"
proof -
  have "py_spec (\<lambda>l. line_up brk False retries l \<and> update_done img requested retries h0 t (lk_sim l))
      (if \<not> no_reset then tool_reset (link_port clk) retries else py_return ())
      (\<lambda>_ l. update_done img requested retries h0 t (lk_sim l))
      (\<lambda>e l. expected brk e \<and> update_leaves img requested retries h0 (lk_sim l))" for t
    by (intro py_spec_if py_spec_weaken [OF reset_spec [where brk = brk and live = False and A = "update_done img requested retries h0 t"]] py_spec_return)
      (auto dest: gave_up_expected intro: update_done_host update_done_leaves, auto simp: update_done_def armed_def other_kept_def Let_def)
  note rst = this
  show ?thesis
    unfolding cmd_flash_def py_lift_Inr py_bind_return
    by (rule py_spec_bind [OF update_any [OF seq]], rule py_spec_bind [OF rst]) (auto intro: py_spec_return)
qed

section \<open>Every command\<close>

text \<open>
  What a command leaves of the device, and what is the case when it ends with the exit code 0;
  \<open>unreadable\<close> is the exception of reading the image file, if it cannot be read.
\<close>

definition command_ok :: "command \<Rightarrow> bool" where
  "command_ok cmd \<longleftrightarrow> (case cmd of Verify slot \<Rightarrow> slot < 2 | _ \<Rightarrow> True)"

definition unreadable :: "command \<Rightarrow> py_error option" where
  "unreadable cmd = (case cmd of Flash (Inl e) _ _ \<Rightarrow> Some e | _ \<Rightarrow> None)"

fun command_leaves :: "command \<Rightarrow> nat \<Rightarrow> host \<Rightarrow> sim \<Rightarrow> bool" where
  "command_leaves (Flash (Inr img) requested no_reset) retries h0 d \<longleftrightarrow> update_leaves img requested retries h0 d"
| "command_leaves _ retries h0 d \<longleftrightarrow> dev_idle d \<and> sim_host d = h0"

fun command_done :: "command \<Rightarrow> nat \<Rightarrow> host \<Rightarrow> sim \<Rightarrow> bool" where
  "command_done (Flash (Inl e) requested no_reset) retries h0 d \<longleftrightarrow> False"
| "command_done (Flash (Inr img) requested no_reset) retries h0 d \<longleftrightarrow> (\<exists>t. update_done img requested retries h0 t d)"
| "command_done Status retries h0 d \<longleftrightarrow> dev_idle d \<and> sim_host d = h0"
| "command_done (Verify slot) retries h0 d \<longleftrightarrow> dev_idle d \<and> sim_host d = h0 \<and> is_ok (slot_image g_layout (host_mem h0) (of_nat slot))"
| "command_done Reset retries h0 d \<longleftrightarrow> dev_idle d \<and> sim_host d = h0 \<and> reset_requested (g_session d)"

lemma command_done_leaves: "command_done cmd retries h0 d \<Longrightarrow> command_leaves cmd retries h0 d"
  by (cases "(cmd, retries, h0, d)" rule: command_done.cases) (auto intro: update_done_leaves)

lemma cmd_status_spec:
  "py_spec (\<lambda>l. line_up brk False retries l \<and> dev_at s h0 (lk_sim l)) (cmd_status (link_port clk) retries)
    (\<lambda>code l. code = 0 \<and> dev_at s h0 (lk_sim l)) (gave_up brk False (dev_at s h0))"
proof -
  have slots: "[0..<di_slot_count (info_of (host_mem h0))] = map unat [0, 1 :: u8]" by (simp add: info_of_def both_slots)
  have v: "list_all slot_is_valid [0, 1]" by (simp add: slot_is_valid_iff)
  show ?thesis
    unfolding cmd_status_def
    by (rule py_spec_seq_eq [OF hello_spec [where brk = brk and live = False and s = s and h = h0]], simp, assumption, assumption,
        unfold slots, rule py_spec_seq [OF slot_statuses_spec [where brk = brk and live = False and s = s and h = h0, OF _ v]])
      (auto intro: py_spec_return)
qed

lemma cmd_verify_spec:
  assumes slot: "slot_is_valid slot"
  shows "py_spec (\<lambda>l. line_up brk False retries l \<and> dev_at s h0 (lk_sim l)) (cmd_verify (link_port clk) retries (unat slot))
    (\<lambda>code l. code = 0 \<and> dev_at s h0 (lk_sim l) \<and> is_ok (slot_image g_layout (host_mem h0) slot))
    (\<lambda>e l. expected brk e \<and> dev_at s h0 (lk_sim l))"
proof -
  have "py_spec (\<lambda>l. line_up brk False retries l \<and> dev_at s h0 (lk_sim l)) (expect_ok (link_port clk) retries CMD_VERIFY [slot] DEFAULT_TIMEOUT)
      (\<lambda>data l. dev_at s h0 (lk_sim l) \<and> is_ok (slot_image g_layout (host_mem h0) slot)) (\<lambda>e l. expected brk e \<and> dev_at s h0 (lk_sim l))"
    unfolding expect_ok_def
    by (rule py_spec_seq [OF verify_transact_spec [where brk = brk and live = False and s = s and h = h0, OF _ slot]])
      (auto simp: py_spec_def py_return_def py_raise_def expected_def verify_answer_def is_ok_def split: sum.splits dest: slot_image_code gave_up_expected)
  then have "py_spec (\<lambda>l. line_up brk False retries l \<and> dev_at s h0 (lk_sim l)) (tool_verify (link_port clk) retries (unat slot))
      (\<lambda>_ l. dev_at s h0 (lk_sim l) \<and> is_ok (slot_image g_layout (host_mem h0) slot)) (\<lambda>e l. expected brk e \<and> dev_at s h0 (lk_sim l))"
    unfolding tool_verify_def byte_of_slot py_lift_Inr py_bind_return
    by (rule py_spec_bind) (auto simp: py_spec_def py_return_def py_raise_def expected_def)
  then show ?thesis
    unfolding cmd_verify_def by (rule py_spec_bind) (auto intro: py_spec_return)
qed

lemma handler_spec:
  assumes "meta_seq_of g_layout (host_mem h0) + retries < 2 ^ 32" and "command_ok cmd"
  shows "py_spec (\<lambda>l. line_up brk False retries l \<and> dev_at s h0 (lk_sim l)) (handler cmd (link_port clk) retries)
    (\<lambda>code l. code = 0 \<and> command_done cmd retries h0 (lk_sim l)) (\<lambda>e l. (expected brk e \<or> unreadable cmd = Some e) \<and> command_leaves cmd retries h0 (lk_sim l))"
proof (cases cmd)
  case (Flash contents requested no_reset)
  show ?thesis
  proof (cases contents)
    case (Inl e)
    then show ?thesis
      by (simp add: Flash unreadable_def cmd_flash_def py_spec_def py_bind_def py_lift_def dev_at_def)
  next
    case (Inr img)
    show ?thesis
      unfolding Flash Inr handler.simps by (rule py_spec_weaken [OF flash_any [OF assms(1)]]) auto
  qed
next
  case Status
  show ?thesis
    unfolding Status handler.simps by (rule py_spec_weaken [OF cmd_status_spec [where brk = brk and s = s]]) (auto simp: dev_at_def dest: gave_up_expected)
next
  case (Verify slot)
  then have v: "slot = unat (of_nat slot :: u8)" "slot_is_valid (of_nat slot)"
    using assms(2) by (auto simp: command_ok_def slot_is_valid_iff less_2_cases_iff)
  show ?thesis
    unfolding Verify handler.simps
    by (subst v(1), rule py_spec_weaken [OF cmd_verify_spec [where brk = brk and s = s, OF v(2)]]) (auto simp: dev_at_def)
next
  case Reset
  show ?thesis
    unfolding Reset handler.simps cmd_reset_def
    by (rule py_spec_seq [OF reset_spec [where brk = brk and live = False and A = "\<lambda>d. dev_idle d \<and> sim_host d = h0"]])
      (auto simp: dev_at_def dest: gave_up_expected intro: py_spec_return)
qed

text \<open>The exit codes.\<close>

lemma main_spec:
  assumes "meta_seq_of g_layout (host_mem h0) + retries < 2 ^ 32" and "command_ok cmd"
  shows "py_spec (\<lambda>l. line_up brk False retries l \<and> dev_at s h0 (lk_sim l)) (tool_main (link_port clk) retries cmd)
    (\<lambda>code l. code = 0 \<and> command_done cmd retries h0 (lk_sim l) \<or> code = 1 \<and> command_leaves cmd retries h0 (lk_sim l))
    (\<lambda>e l. \<not> caught e \<and> (e = Os_Error \<and> brk \<or> unreadable cmd = Some e) \<and> command_leaves cmd retries h0 (lk_sim l))"
  unfolding py_spec_def
proof (intro allI impI)
  fix l assume "line_up brk False retries l \<and> dev_at s h0 (lk_sim l)"
  with handler_spec [OF assms, of brk s clk]
  show "\<exists>r l'. tool_main (link_port clk) retries cmd l = Some (r, l') \<and> (case r of
      Inl e \<Rightarrow> \<not> caught e \<and> (e = Os_Error \<and> brk \<or> unreadable cmd = Some e) \<and> command_leaves cmd retries h0 (lk_sim l')
    | Inr code \<Rightarrow> code = 0 \<and> command_done cmd retries h0 (lk_sim l') \<or> code = 1 \<and> command_leaves cmd retries h0 (lk_sim l'))"
    by (cases rule: py_specD) (auto simp: tool_main_def expected_def)
qed

text \<open>
  C3. An update is all or nothing. Take any file, requested slot and boot status, any pattern of
  flash write failures, and a line that may lose requests or answers, damage them as long as the
  damage is noticed (no intact frame can be read from a damaged answer; a damaged request
  completes no frame and leaves the idle device waiting for a start marker), or fail with an
  \<open>OSError\<close>. If the sequence counter is at least \<open>retries\<close> below its maximum, \<open>update\<close> returns a slot or raises an exception
  that \<open>main\<close> catches or the port's \<open>OSError\<close>, and leaves the device as it was, or has worked
  on the one slot it may overwrite: then the other slot is as it was, the slot
  is as it was, or has no header, or holds exactly the file's image -- it never validates
  with anything else -- and the boot status is the old one or a fresh trial of the complete
  image. If \<open>update\<close> returns a slot, it is on trial with the complete image.
\<close>

theorem update_all_or_nothing:
  assumes "dev_idle (lk_sim l)" and "list_all harmless (lk_faults l)"
    and "meta_seq_of g_layout (host_mem (sim_host (lk_sim l))) + retries < 2 ^ 32"
  shows "\<exists>r l'. tool_update (link_port clk) retries img requested l = Some (r, l') \<and> dev_idle (lk_sim l') \<and>
    (\<forall>ex. r = Inl ex \<longrightarrow> caught ex \<or> ex = Os_Error \<and> list_ex breaks (lk_faults l)) \<and>
    ((\<forall>t. r \<noteq> Inr t) \<and> sim_host (lk_sim l') = sim_host (lk_sim l) \<or>
     (\<exists>slot hdr e pl. update_of img requested (sim_host (lk_sim l)) slot hdr \<and> e = unat (entry_offset hdr) \<and> pl = drop e img \<and>
        (\<forall>x. region_lo (layout_slot g_layout ! unat (other_slot slot)) \<le> x \<and> x < region_hi (layout_slot g_layout ! unat (other_slot slot)) \<longrightarrow>
           host_mem (sim_host (lk_sim l')) x = host_mem (sim_host (lk_sim l)) x) \<and>
        replaced slot e pl hdr (sim_host (lk_sim l)) (host_mem (sim_host (lk_sim l'))) \<and>
        (boot_status_of g_layout (host_mem (sim_host (lk_sim l'))) = boot_status_of g_layout (host_mem (sim_host (lk_sim l))) \<and> (\<forall>t. r \<noteq> Inr t) \<or>
         boot_status_of g_layout (host_mem (sim_host (lk_sim l'))) = Trial slot 0 \<and>
           holds slot e pl hdr (host_mem (sim_host (lk_sim l'))) \<and> (\<forall>t. r = Inr t \<longrightarrow> t = unat slot))))"
proof -
  have "line_up (list_ex breaks (lk_faults l)) False retries l \<and> dev_at (g_session (lk_sim l)) (sim_host (lk_sim l)) (lk_sim l)"
    using assms(1,2) by (simp add: line_ok_def dev_at_def)
  with update_any [OF assms(3), of "list_ex breaks (lk_faults l)" "g_session (lk_sim l)" clk img requested] show ?thesis
  proof (cases rule: py_specD)
    case (result t l')
    then obtain slot hdr where u: "update_of img requested (sim_host (lk_sim l)) slot hdr" "t = unat slot"
      "armed slot (unat (entry_offset hdr)) (drop (unat (entry_offset hdr)) img) hdr (sim_host (lk_sim l)) retries (lk_sim l')"
      by (auto simp: update_done_def)
    show ?thesis
      unfolding result(1)
      by (intro exI [of _ "Inr t"] exI [of _ l'] conjI disjI2 refl exI [of _ slot] exI [of _ hdr] exI)
        (use u in \<open>auto simp: armed_def other_kept_def Let_def\<close>)
  next
    case (exception er l')
    then have "dev_idle (lk_sim l')" by (simp add: update_leaves_def)
    with exception show ?thesis
      by (auto simp: update_leaves_def spared_def armed_def other_kept_def Let_def expected_def)
  qed
qed

theorem update_all_or_nothing_witness:
  "\<exists>r l'. tool_update (link_port (\<lambda>i. int i)) 3 (image_bytes 2 vectors_b) (Some 1)
      (noisy_link\<lparr>lk_faults := [Deliver, Lose_request, Deliver, Lose_request, Lose_request, Lose_request]\<rparr>) = Some (r, l') \<and> dev_idle (lk_sim l')"
  using update_all_or_nothing [of "noisy_link\<lparr>lk_faults := [Deliver, Lose_request, Deliver, Lose_request, Lose_request, Lose_request]\<rparr>" 3
      "\<lambda>i. int i" "image_bytes 2 vectors_b" "Some 1"]
  by (auto simp: meta_seq_of_def)

text \<open>
  C19. The command line, once the port is open and over a line as in C3. Every command returns. It ends
  with an uncaught exception only if \<open>flash\<close> cannot read its file, with that exception, or if the
  port raises an \<open>OSError\<close>, with that one; otherwise with the exit code 0 or 1. With 0 it has done
  its work: \<open>flash\<close> has put the complete image on trial, \<open>verify\<close> means that the slot's image
  is valid, \<open>reset\<close> that the device is about to restart. Whatever the end, \<open>status\<close>, \<open>verify\<close>,
  \<open>reset\<close> and a \<open>flash\<close> without a readable file leave the flash alone, and \<open>flash\<close> leaves what
  an update leaves.
\<close>

theorem tool_exit_codes:
  assumes "dev_idle (lk_sim l)" and "list_all harmless (lk_faults l)" and "command_ok cmd"
    and "meta_seq_of g_layout (host_mem (sim_host (lk_sim l))) + retries < 2 ^ 32"
  shows "\<exists>r l'. tool_main (link_port clk) retries cmd l = Some (r, l') \<and>
    command_leaves cmd retries (sim_host (lk_sim l)) (lk_sim l') \<and>
    (case r of
       Inr code \<Rightarrow> code = 0 \<and> command_done cmd retries (sim_host (lk_sim l)) (lk_sim l') \<or> code = 1
     | Inl e \<Rightarrow> \<not> caught e \<and> (e = Os_Error \<and> list_ex breaks (lk_faults l) \<or> unreadable cmd = Some e))"
proof -
  have "line_up (list_ex breaks (lk_faults l)) False retries l \<and> dev_at (g_session (lk_sim l)) (sim_host (lk_sim l)) (lk_sim l)"
    using assms(1,2) by (simp add: line_ok_def dev_at_def)
  with main_spec [OF assms(4,3), of "list_ex breaks (lk_faults l)" "g_session (lk_sim l)" clk] show ?thesis
    by (cases rule: py_specD) (auto intro: command_done_leaves)
qed

text \<open>A line that never breaks: the exit code is 0 or 1.\<close>

theorem tool_exit_codes_witness:
  "\<exists>code l'. tool_main (link_port (\<lambda>i. int i)) 2 (Verify 1) noisy_link = Some (Inr code, l') \<and> code \<le> 1 \<and>
     sim_host (lk_sim l') = steady_host"
proof -
  obtain r l' where "tool_main (link_port (\<lambda>i. int i)) 2 (Verify 1) noisy_link = Some (r, l')" "sim_host (lk_sim l') = steady_host"
    "case r of Inr code \<Rightarrow> code = 0 \<or> code = 1 | Inl e \<Rightarrow> False"
    using tool_exit_codes [of noisy_link "Verify 1" 2 "\<lambda>i. int i"]
    by (fastforce simp: command_ok_def unreadable_def meta_seq_of_def split: sum.splits)
  then show ?thesis by (cases r) auto
qed

end
