(* ===== verification/Bl_Life.thy ===== *)
theory Bl_Life
  imports Bl_Command
begin

text \<open>
  The life of a device: commands over unreliable lines, power cycles, confirmations by the
  application and flash failures, in any order, as a step relation over the simulated device;
  and the invariant that keeps it bootable.
\<close>

section \<open>Steps\<close>

text \<open>The image is linked for the slot: a stack pointer in SRAM and a reset vector in the slot.\<close>

definition linked_for :: "u8 \<Rightarrow> u8 list \<Rightarrow> bool" where
  "linked_for slot pl \<longleftrightarrow>
     (let msp = unat (get_u32_le (take 4 pl)); pc = unat (get_u32_le (take 4 (drop 4 pl))); r = layout_slot g_layout ! unat slot in
      8 \<le> length pl \<and> 0x20000000 \<le> msp \<and> msp \<le> 0x20010000 \<and> msp mod 4 = 0 \<and>
      odd pc \<and> region_lo r \<le> pc - 1 \<and> pc - 1 < region_hi r)"

definition file_linked :: "u8 list \<Rightarrow> nat \<Rightarrow> bool" where
  "file_linked img slot \<longleftrightarrow>
     (case validate img (Some 0x1B000) of Inl _ \<Rightarrow> True | Inr ih \<Rightarrow> linked_for (of_nat slot) (drop (ih_entry_offset ih) img))"

inductive life_step :: "sim_device \<Rightarrow> sim_device \<Rightarrow> bool" where
  tool: "list_all harmless faults \<Longrightarrow> meta_seq_of g_layout (dev_mem (sd_lib s)) + retries < 2 ^ 32 \<Longrightarrow>
    command_ok cmd \<Longrightarrow> (\<And>img requested no_reset. cmd = Flash (Inr img) requested no_reset \<Longrightarrow>
      file_linked img (update_target (dev_mem (sd_lib s)) requested)) \<Longrightarrow>
    tool_main (link_port clk) retries cmd \<lparr>lk_device = s, lk_clock = i, lk_faults = faults\<rparr> = Some (result, l) \<Longrightarrow>
    life_step s (lk_device l)"
| power_cycle: "sd_boot (sd_reboot s) = Some (target, s') \<Longrightarrow> life_step s s'"
| confirm: "sd_confirm s = Some (code, s') \<Longrightarrow> life_step s s'"
| fail_after: "life_step s (sd_fail_after_n_writes s n)"
| clear_failures: "life_step s (sd_clear_failures s)"

section \<open>The invariant\<close>

text \<open>Every valid image can be started, and the slot the metadata nominate holds one.\<close>

definition settled :: "sim_device \<Rightarrow> bool" where
  "settled s \<longleftrightarrow>
     (let d = sd_lib s; m = dev_mem d in
      dev_idle d \<and>
      (\<forall>a. slot_is_valid a \<longrightarrow> is_ok (slot_image g_layout m a) \<longrightarrow> jump_ok m (boot_entry g_layout m a)) \<and>
      (\<forall>a. nominated (dev_status d) = Some a \<longrightarrow> is_ok (slot_image g_layout m a)))"

lemma holds_jump_ok:
  assumes "holds slot e pl hdr m" and "e = unat (entry_offset hdr)" and "linked_for slot pl" and slot: "slot_is_valid slot"
  shows "jump_ok m (boot_entry g_layout m slot)"
proof -
  let ?r = "layout_slot g_layout ! unat slot"
  have img: "slot_image g_layout m slot = Inr hdr" using assms(1) by (simp add: holds_def)
  note entry = slot_image_entry [OF img slot]
  have len: "8 \<le> length pl" using assms(3) by (simp add: linked_for_def Let_def)
  have b: "bytes_at m (region_lo ?r + e) (length pl) = pl" using assms(1) by (simp add: holds_def)
  have "take 4 pl = bytes_at m (region_lo ?r + e) 4" "take 4 (drop 4 pl) = bytes_at m (region_lo ?r + e + 4) 4"
    using len by (subst b [symmetric], auto intro!: nth_equalityI simp: ac_simps)+
  then have "vector_table_in m (region_lo ?r + e) (region_lo ?r) (region_hi ?r)"
    using assms(2,3) entry slot_lo_bounds [OF slot] slot
    by (simp add: vector_table_in_def linked_for_def Let_def) (auto simp: slot_is_valid_iff g_layout_nth)
  then show ?thesis
    unfolding jump_ok_iff entry(3) assms(2) [symmetric]
    by (intro exI [of _ "unat slot"]) (use slot_is_valid_unat [OF slot] in simp)
qed

text \<open>The slots and the status decide.\<close>

lemma settled_agree:
  assumes "settled s" and "dev_idle (sd_lib s')" and agree: "slots_agree g_layout (dev_mem (sd_lib s')) (dev_mem (sd_lib s))"
    and nom: "\<And>a. nominated (dev_status (sd_lib s')) = Some a \<Longrightarrow> is_ok (slot_image g_layout (dev_mem (sd_lib s)) a)"
  shows "settled s'"
proof -
  have img: "slot_image g_layout (dev_mem (sd_lib s')) a = slot_image g_layout (dev_mem (sd_lib s)) a" if "slot_is_valid a" for a
    by (rule slots_agree_image [OF agree that])
  then have "boot_entry g_layout (dev_mem (sd_lib s')) a = boot_entry g_layout (dev_mem (sd_lib s)) a" if "slot_is_valid a" for a
    using that by (simp add: boot_entry_def)
  with img assms(1,2) nom nominated_valid jump_ok_agree [OF agree] show ?thesis
    unfolding settled_def Let_def by auto
qed

lemma replaced_startable:
  assumes "replaced slot (unat (entry_offset hdr)) pl hdr h0 m" and slot: "slot_is_valid slot" and "linked_for slot pl"
    and old: "is_ok (slot_image g_layout (host_mem h0) slot) \<Longrightarrow> jump_ok (host_mem h0) (boot_entry g_layout (host_mem h0) slot)"
    and ok: "is_ok (slot_image g_layout m slot)"
  shows "jump_ok m (boot_entry g_layout m slot)"
proof -
  consider "\<forall>x. region_lo (layout_slot g_layout ! unat slot) \<le> x \<and> x < region_hi (layout_slot g_layout ! unat slot) \<longrightarrow> m x = host_mem h0 x"
    | "slot_image g_layout m slot = Inl BL_ERR_MAGIC" | "holds slot (unat (entry_offset hdr)) pl hdr m"
    using assms(1) unfolding replaced_def Let_def by blast
  then show ?thesis
  proof cases
    case 1
    note same = slot_bytes_boot [of slot m "host_mem h0", OF _ slot]
    from 1 ok old show ?thesis by (simp add: same)
  qed (use ok assms(3) holds_jump_ok [OF _ refl _ slot] in \<open>auto simp: is_ok_def\<close>)
qed

lemma settled_flash:
  assumes s: "settled s" and leaves: "update_leaves img requested retries (sim_host (sd_lib s)) (sd_lib s')"
    and linked: "file_linked img (update_target (dev_mem (sd_lib s)) requested)"
  shows "settled s'"
proof (cases "sim_host (sd_lib s') = sim_host (sd_lib s)")
  case True
  then show ?thesis using s leaves by (simp add: settled_def update_leaves_def Let_def)
next
  case False
  let ?m = "dev_mem (sd_lib s)" and ?m' = "dev_mem (sd_lib s')"
  from False leaves obtain slot hdr where slot: "slot_is_valid slot" and target: "update_target ?m requested = unat slot"
    and free: "nominated (dev_status (sd_lib s)) \<noteq> Some slot" and valid: "validate img (Some 0x1B000) = Inr (header_of hdr)"
    and spared: "spared slot (unat (entry_offset hdr)) (drop (unat (entry_offset hdr)) img) hdr (sim_host (sd_lib s)) retries (sd_lib s')"
    by (auto simp: update_leaves_def update_of_def)
  let ?pl = "drop (unat (entry_offset hdr)) img"
  have linked: "linked_for slot ?pl" using linked unfolding file_linked_def target valid by simp
  have kept: "?m' x = ?m x" if "region_lo (layout_slot g_layout ! unat (other_slot slot)) \<le> x"
    "x < region_hi (layout_slot g_layout ! unat (other_slot slot))" for x
    using spared that by (simp add: spared_def other_kept_def Let_def)
  note other = slot_bytes_boot [OF kept conjunct1 [OF other_slot_valid [OF slot]]]
  have two: "a = slot \<or> a = other_slot slot" if "slot_is_valid a" for a using slot that by (auto simp: slot_is_valid_iff)
  have startable: "is_ok (slot_image g_layout ?m a) \<Longrightarrow> jump_ok ?m (boot_entry g_layout ?m a)" if "slot_is_valid a" for a
    using s that by (simp add: settled_def Let_def)
  have "replaced slot (unat (entry_offset hdr)) ?pl hdr (sim_host (sd_lib s)) ?m'" using spared by (simp add: spared_def)
  note new = replaced_startable [OF this slot linked startable [OF slot]]
  have "is_ok (slot_image g_layout ?m' a)" if a: "nominated (dev_status (sd_lib s')) = Some a" for a
  proof (cases "a = slot")
    case True
    with a free spared show ?thesis by (auto simp: spared_def armed_def holds_def is_ok_def)
  next
    case False
    then have o: "a = other_slot slot" using two nominated_valid [OF a] by blast
    from a False spared have "nominated (dev_status (sd_lib s)) = Some a" by (auto simp: spared_def armed_def)
    with s o other(1) show ?thesis by (simp add: settled_def Let_def)
  qed
  moreover have "jump_ok ?m' (boot_entry g_layout ?m' a)" if "slot_is_valid a" "is_ok (slot_image g_layout ?m' a)" for a
    using two [OF that(1)] that(2) new other startable [OF that(1)] by auto
  moreover have "dev_idle (sd_lib s')" using leaves by (simp add: update_leaves_def)
  ultimately show ?thesis by (simp add: settled_def Let_def)
qed

lemma idle_booted: "dev_idle d \<Longrightarrow> g_parser d' = g_parser (sim_reboot d) \<Longrightarrow> host_inv (sim_host d') \<Longrightarrow> dev_idle d'"
  by (auto simp: dev_idle_def sim_inv_def sim_reboot_def parser_inv_def bl_frame_parser_init_def)

text \<open>A step other than an update keeps the slots, and nominates what was nominated or a slot that boots.\<close>

definition steady_step :: "sim_device \<Rightarrow> sim_device \<Rightarrow> bool" where
  "steady_step s s' \<longleftrightarrow>
     dev_idle (sd_lib s') \<and> slots_agree g_layout (dev_mem (sd_lib s')) (dev_mem (sd_lib s)) \<and>
     (nominated (dev_status (sd_lib s')) = None \<longleftrightarrow> nominated (dev_status (sd_lib s)) = None) \<and>
     (\<forall>a. nominated (dev_status (sd_lib s')) = Some a \<longrightarrow> is_ok (slot_image g_layout (dev_mem (sd_lib s)) a))"

lemma power_cycle_steady:
  assumes "sd_boot (sd_reboot s) = Some (target, s')" and "settled s"
  shows "steady_step s s'"
proof (rule boot_any [of "sd_lib s"])
  fix d' assume d': "sim_boot (sim_reboot (sd_lib s)) = Some (boot_target (dev_mem (sd_lib s)) (dev_status d'), d')"
    "slots_agree g_layout (dev_mem d') (dev_mem (sd_lib s))"
    "dev_status d' = policy_advance (\<lambda>a. is_ok (slot_image g_layout (dev_mem (sd_lib s)) a)) (dev_status (sd_lib s)) \<or>
      dev_status d' = dev_status (sd_lib s) \<and> meta_seq_of g_layout (dev_mem (sd_lib s)) = 2 ^ 32 - 1"
    "g_parser d' = g_parser (sim_reboot (sd_lib s))" "host_inv (sim_host d')"
  have "dev_idle d'" using assms(2) by (intro idle_booted [OF _ d'(4,5)]) (simp add: settled_def Let_def)
  moreover have "sd_lib s' = d'" using assms(1) d'(1) by (auto simp: sd_boot_def sd_reboot_def)
  ultimately show ?thesis
    unfolding steady_step_def using d'(2,3) assms(2)
    by (cases "dev_status (sd_lib s)") (auto simp: settled_def Let_def split: if_splits)
qed

lemma confirm_steady:
  assumes "sd_confirm s = Some (code, s')" and "settled s"
  shows "steady_step s s'"
proof -
  let ?d = "sd_lib s"
  have inv: "host_inv (sim_host ?d)" using assms(2) by (simp add: settled_def dev_idle_def sim_inv_def Let_def)
  obtain r h' where c: "bl_core_confirm host_port (sim_host ?d) = Some (r, h')" "host_inv h'"
    "slots_agree g_layout (host_mem h') (dev_mem ?d)"
    and nom: "nominated (boot_status_of g_layout (host_mem h')) = nominated (dev_status ?d)"
    by (rule host.confirm_refines [OF inv host_meta_erasable, unfolded host_port_simps]) (cases "dev_status ?d"; auto)
  have "sd_lib s' = ?d\<lparr>sim_host := h'\<rparr>" using assms(1) c(1) by (auto simp: sd_confirm_def sim_confirm_def)
  then show ?thesis
    using nom c(2,3) assms(2) by (simp add: steady_step_def settled_def Let_def dev_idle_def sim_inv_def)
qed

lemma same_flash_steady:
  assumes "settled s" and "dev_idle (sd_lib s')" and "dev_mem (sd_lib s') = dev_mem (sd_lib s)"
  shows "steady_step s s'"
  using assms by (auto simp: steady_step_def settled_def Let_def slots_agree_def)

lemma life_step_cases:
  assumes "life_step s s'" and s: "settled s"
  obtains (update) img requested retries where "update_leaves img requested retries (sim_host (sd_lib s)) (sd_lib s')"
      and "file_linked img (update_target (dev_mem (sd_lib s)) requested)"
    | (other) "steady_step s s'"
  using assms(1)
proof cases
  case (tool faults retries cmd clk i result l)
  let ?h = "sim_host (sd_lib s)"
  have "line_up (list_ex breaks faults) False retries \<lparr>lk_device = s, lk_clock = i, lk_faults = faults\<rparr> \<and>
      dev_at (g_session (sd_lib s)) ?h (lk_sim \<lparr>lk_device = s, lk_clock = i, lk_faults = faults\<rparr>)"
    using tool(2) s by (simp add: line_ok_def dev_at_def settled_def Let_def)
  from py_spec_result [OF main_spec [OF tool(3,4)] this tool(6)]
  have leaves: "command_leaves cmd retries ?h (lk_sim l)" by (cases result) (auto intro: command_done_leaves)
  show ?thesis
  proof (cases "\<exists>img requested no_reset. cmd = Flash (Inr img) requested no_reset")
    case True
    then show ?thesis using leaves tool(1,5) update by auto
  next
    case False
    with leaves have "dev_idle (lk_sim l) \<and> sim_host (lk_sim l) = ?h"
      by (cases "(cmd, retries, ?h, lk_sim l)" rule: command_done.cases) auto
    then show ?thesis using same_flash_steady [OF s] tool(1) other by simp
  qed
next
  case (fail_after n)
  have "host_mem (bl_host_fail_after_n_writes h k) = host_mem h" "host_inv (bl_host_fail_after_n_writes h k) = host_inv h" for h k
    by (simp_all add: bl_host_fail_after_n_writes_def host_mem_def host_inv_def fun_eq_iff)
  with fail_after s show ?thesis
    by (intro other same_flash_steady)
      (simp_all add: settled_def Let_def sd_fail_after_n_writes_def sim_fail_after_n_writes_def dev_idle_def sim_inv_def)
next
  case clear_failures
  have "host_mem (bl_host_clear_failures h) = host_mem h" "host_inv (bl_host_clear_failures h) = host_inv h" for h
    by (simp_all add: bl_host_clear_failures_def host_mem_def host_inv_def fun_eq_iff)
  with clear_failures s show ?thesis
    by (intro other same_flash_steady)
      (simp_all add: settled_def Let_def sd_clear_failures_def sim_clear_failures_def dev_idle_def sim_inv_def)
qed (use other power_cycle_steady [OF _ s] confirm_steady [OF _ s] in auto)

lemma nominated_None [simp]: "nominated st = None \<longleftrightarrow> st = No_record"
  by (cases st) simp_all

lemma settled_step:
  assumes "life_step s s'" and "settled s"
  shows "settled s' \<and> (dev_status (sd_lib s) \<noteq> No_record \<longrightarrow> dev_status (sd_lib s') \<noteq> No_record)"
  using assms
proof (cases rule: life_step_cases)
  case (update img requested retries)
  then have "dev_status (sd_lib s) \<noteq> No_record \<longrightarrow> dev_status (sd_lib s') \<noteq> No_record"
    by (auto simp: update_leaves_def spared_def armed_def)
  with update show ?thesis using settled_flash [OF assms(2)] by blast
next
  case other
  with settled_agree [OF assms(2), of s'] show ?thesis by (auto simp: steady_step_def)
qed

lemma settled_reachable:
  assumes "life_step\<^sup>*\<^sup>* s0 s" and "settled s0"
  shows "settled s \<and> (dev_status (sd_lib s0) \<noteq> No_record \<longrightarrow> dev_status (sd_lib s) \<noteq> No_record)"
  using assms by (induction rule: rtranclp_induct) (auto dest: settled_step)

text \<open>A device fresh from the factory is settled: it has no image and no metadata.\<close>

lemma settled_factory:
  assumes "dev_idle (sd_lib s)"
  shows "settled (sd_factory_reset s)" and "dev_status (sd_lib (sd_factory_reset s)) = No_record"
proof -
  let ?h = "snd (bl_port_init (sim_host (sd_lib s)))"
  have mem: "host_mem ?h x = 0xFF" if "0x08000000 \<le> x" "x < 0x08040000" for x
  proof -
    have "x - 0x08000000 < 0x40000" using that by linarith
    with that show ?thesis by (simp add: bl_port_init_def host_mem_def mem_fill_def)
  qed
  have "slot_image g_layout (host_mem ?h) a = Inl BL_ERR_MAGIC" if "slot_is_valid a" for a
  proof -
    have bytes: "bytes_at (host_mem ?h) (region_lo (layout_slot g_layout ! unat a)) 40 = replicate 40 0xFF"
      using slot_lo_bounds [OF that] mem that by (intro nth_equalityI) (auto simp: slot_is_valid_iff g_layout_nth)
    then show ?thesis by (rule blank_header_invalid)
  qed
  moreover have "bytes_at (host_mem ?h) 0x08008000 16 = replicate 16 0xFF" "bytes_at (host_mem ?h) 0x08008800 16 = replicate 16 0xFF"
    using mem by (auto intro!: nth_equalityI)
  then have "meta_view g_layout (host_mem ?h) 0 = None" "meta_view g_layout (host_mem ?h) 1 = None"
    using region_record_erased by (simp_all add: meta_view_def g_layout_nth)
  then have st: "boot_status_of g_layout (host_mem ?h) = No_record" by (simp add: boot_status_of_def meta_authoritative_def)
  moreover have "dev_idle (sim_init (sd_lib s))"
    using assms host_inv_init [of "sim_host (sd_lib s)"] by (auto simp: dev_idle_def sim_inv_def sim_init_def parser_inv_def bl_frame_parser_init_def)
  ultimately show "settled (sd_factory_reset s)" by (simp add: settled_def Let_def sd_factory_reset_def sim_init_def is_ok_def)
  show "dev_status (sd_lib (sd_factory_reset s)) = No_record" using st by (simp add: sd_factory_reset_def sim_init_def)
qed

text \<open>A power-up of a settled device.\<close>

lemma settled_boots:
  assumes "settled s"
  obtains target s' where "sd_boot (sd_reboot s) = Some (target, s')"
    and "(\<exists>a. slot_is_valid a \<and> is_ok (slot_image g_layout (dev_mem (sd_lib s)) a) \<and>
           target = unat (boot_entry g_layout (dev_mem (sd_lib s)) a)) \<or>
         target = 0 \<and> dev_status (sd_lib s) = No_record \<and> (\<forall>a. slot_is_valid a \<longrightarrow> \<not> is_ok (slot_image g_layout (dev_mem (sd_lib s)) a))"
proof (rule boot_any [of "sd_lib s"])
  let ?img = "slot_image g_layout (dev_mem (sd_lib s))"
  fix d' assume d': "sim_boot (sim_reboot (sd_lib s)) = Some (boot_target (dev_mem (sd_lib s)) (dev_status d'), d')"
    and st: "dev_status d' = policy_advance (\<lambda>a. is_ok (?img a)) (dev_status (sd_lib s)) \<or>
        dev_status d' = dev_status (sd_lib s) \<and> meta_seq_of g_layout (dev_mem (sd_lib s)) = 2 ^ 32 - 1"
  have run: "sd_boot (sd_reboot s) = Some (unat (boot_target (dev_mem (sd_lib s)) (dev_status d')), (sd_reboot s)\<lparr>sd_lib := d'\<rparr>)"
    using d' by (simp add: sd_boot_def sd_reboot_def)
  show ?thesis
  proof (cases "policy_slot ?img (dev_status d')")
    case None
    then have "dev_status (sd_lib s) = No_record" "\<not> is_ok (?img 0)" "\<not> is_ok (?img 1)"
      using st assms
      by (cases "dev_status (sd_lib s)"; auto simp: policy_slot_def settled_def Let_def split: if_splits)+
    with run None show ?thesis by (intro that [OF run]) (auto simp: boot_target_def slot_is_valid_iff)
  next
    case (Some a)
    then have "slot_is_valid a" "is_ok (?img a)"
      using nominated_valid [of g_layout "dev_mem d'"] other_slot_valid policy_slot_valid [OF Some]
      by (auto simp: policy_slot_def slot_is_valid_iff split: option.splits if_splits)
    with run Some assms show ?thesis by (intro that [OF run]) (auto simp: boot_target_def settled_def Let_def)
  qed
qed

section \<open>Never without an image\<close>

text \<open>
  C4. A settled device stays bootable. Start from a settled device: idle, every valid image in
  a slot can be started, and if the metadata nominate a slot, it holds a valid image. (A fresh
  device is settled; one whose nominated slot holds no valid image is not, and the updater may
  erase its only image.) Take any sequence of steps: commands of \<open>blflash\<close>, with any
  result, over lines whose damage is noticed, where a file flashed is linked for the slot it
  goes to and the sequence counter is at least \<open>retries\<close> below its maximum; power
  cycles; confirmations; flash failures switched on and off. At every point the next power-up starts
  a valid image if there is one; and there is one, if the settled device had metadata at the start.
\<close>

theorem never_bricked:
  assumes "settled s0" and "life_step\<^sup>*\<^sup>* s0 s"
  shows "\<exists>target s'. sd_boot (sd_reboot s) = Some (target, s') \<and>
    (if \<exists>a. slot_is_valid a \<and> is_ok (slot_image g_layout (dev_mem (sd_lib s)) a)
     then \<exists>a. slot_is_valid a \<and> is_ok (slot_image g_layout (dev_mem (sd_lib s)) a) \<and> target = unat (boot_entry g_layout (dev_mem (sd_lib s)) a)
     else target = 0) \<and>
    (dev_status (sd_lib s0) \<noteq> No_record \<longrightarrow>
       dev_status (sd_lib s) \<noteq> No_record \<and> (\<exists>a. slot_is_valid a \<and> is_ok (slot_image g_layout (dev_mem (sd_lib s)) a)))"
proof -
  note s = settled_reachable [OF assms(2,1)]
  obtain target s' where "sd_boot (sd_reboot s) = Some (target, s')"
    "(\<exists>a. slot_is_valid a \<and> is_ok (slot_image g_layout (dev_mem (sd_lib s)) a) \<and>
        target = unat (boot_entry g_layout (dev_mem (sd_lib s)) a)) \<or>
      target = 0 \<and> dev_status (sd_lib s) = No_record \<and> (\<forall>a. slot_is_valid a \<longrightarrow> \<not> is_ok (slot_image g_layout (dev_mem (sd_lib s)) a))"
    by (rule settled_boots [OF s [THEN conjunct1]])
  with s show ?thesis by (intro exI [of _ target] exI [of _ s']) auto
qed

lemma settled_steady [simp]: "settled \<lparr>sd_lib = steady, sd_rx = []\<rparr>"
  using steady_idle by (auto simp: settled_def Let_def slot_is_valid_iff is_ok_def)

lemma demo_linked: "file_linked (image_bytes 2 vectors_b) 1"
proof -
  have "linked_for 1 vectors_b"
    by (simp add: linked_for_def Let_def vectors_b_def get_u32_le_def put_u32_le_def g_layout_nth)
  moreover have "drop 512 (image_bytes 2 vectors_b) = vectors_b" by (simp add: image_bytes_def length_hdr_bytes)
  ultimately show ?thesis by (simp add: file_linked_def)
qed

theorem never_bricked_witness:
  "\<exists>s target s'. life_step \<lparr>sd_lib = steady, sd_rx = []\<rparr> s \<and> sd_boot (sd_reboot s) = Some (target, s') \<and>
     (\<exists>a. slot_is_valid a \<and> target = unat (boot_entry g_layout (dev_mem (sd_lib s)) a))"
proof -
  let ?s0 = "\<lparr>sd_lib = steady, sd_rx = []\<rparr>"
  have "line_up (list_ex breaks (lk_faults noisy_link)) False 3 noisy_link \<and> dev_at (g_session steady) steady_host (lk_sim noisy_link)"
    by (simp add: line_ok_def dev_at_def)
  moreover have "meta_seq_of g_layout (host_mem steady_host) + 3 < 2 ^ 32" by (simp add: meta_seq_of_def)
  note main_spec [OF this, of "Flash (Inr (image_bytes 2 vectors_b)) None False" "list_ex breaks (lk_faults noisy_link)" "g_session steady" "\<lambda>_. 0"]
  ultimately obtain r l where run: "tool_main (link_port (\<lambda>_. 0)) 3 (Flash (Inr (image_bytes 2 vectors_b)) None False) noisy_link = Some (r, l)"
    by (auto simp: py_spec_def command_ok_def)
  have step: "life_step ?s0 (lk_device l)"
    by (rule life_step.tool [OF noisy_link_harmless, where retries = 3 and cmd = "Flash (Inr (image_bytes 2 vectors_b)) None False"
          and clk = "\<lambda>_. 0" and i = 0 and result = r])
      (use run demo_linked in \<open>auto simp: meta_seq_of_def noisy_link_def command_ok_def\<close>)
  with never_bricked [OF settled_steady r_into_rtranclp, OF step] show ?thesis by (auto split: if_splits)
qed

section \<open>Never stuck\<close>

text \<open>A run on a live line, with the reset at its end.\<close>

lemma flash_live:
  assumes "dev_idle (lk_sim l)" and "line_up False True retries l" and "fast clk" and "slot_is_valid slot"
    and "update_target (dev_mem (lk_sim l)) requested = unat slot" and "nominated (dev_status (lk_sim l)) \<noteq> Some slot"
    and "validate img (Some 0x1B000) = Inr header" and "meta_seq_of g_layout (dev_mem (lk_sim l)) + retries < 2 ^ 32"
    and "length img div 504 + 1 + retries \<le> host_budget (sim_host (lk_sim l))"
  obtains hdr l' where "header = header_of hdr" and "cmd_flash (link_port clk) retries (Inr img) requested no_reset l = Some (Inr 0, l')"
    and "armed slot (unat (entry_offset hdr)) (drop (unat (entry_offset hdr)) img) hdr (sim_host (lk_sim l)) retries (lk_sim l')"
proof -
  obtain hdr where h: "header = header_of hdr"
    and spec: "py_spec (\<lambda>x. line_up False True retries x \<and> dev_at (g_session (lk_sim l)) (sim_host (lk_sim l)) (lk_sim x))
      (tool_update (link_port clk) retries img requested)
      (\<lambda>t x. t = unat slot \<and> line_up False True retries x \<and>
        armed slot (ih_entry_offset header) (drop (ih_entry_offset header) img) hdr (sim_host (lk_sim l)) retries (lk_sim x))
      (gave_up False True (spared slot (ih_entry_offset header) (drop (ih_entry_offset header) img) hdr (sim_host (lk_sim l)) retries))"
    by (rule update_accepted [where brk = False and live = True, OF assms(3-9)])
  let ?A = "armed slot (unat (entry_offset hdr)) (drop (unat (entry_offset hdr)) img) hdr (sim_host (lk_sim l)) retries"
  have "py_spec (\<lambda>x. line_up False True retries x \<and> ?A (lk_sim x)) (if \<not> no_reset then tool_reset (link_port clk) retries else py_return ())
      (\<lambda>_ x. ?A (lk_sim x)) (\<lambda>_ _. False)"
    by (intro py_spec_if py_spec_weaken [OF reset_spec [where brk = False and live = True and A = ?A]] py_spec_return)
      (use assms(3) in \<open>auto simp: gave_up_def armed_def other_kept_def Let_def\<close>)
  note rst = this
  have "py_spec (\<lambda>x. line_up False True retries x \<and> dev_at (g_session (lk_sim l)) (sim_host (lk_sim l)) (lk_sim x))
      (cmd_flash (link_port clk) retries (Inr img) requested no_reset) (\<lambda>code x. code = 0 \<and> ?A (lk_sim x)) (\<lambda>_ _. False)"
    unfolding cmd_flash_def py_lift_Inr py_bind_return
    by (rule py_spec_seq_eq [OF spec], assumption, simp add: gave_up_def, rule py_spec_seq [OF rst])
      (auto simp: h intro: py_spec_return)
  moreover have "line_up False True retries l \<and> dev_at (g_session (lk_sim l)) (sim_host (lk_sim l)) (lk_sim l)"
    using assms(1,2) by (simp add: dev_at_def)
  ultimately show ?thesis by (cases rule: py_specD) (use h that in auto)
qed

lemma tool_choice_nominated: "nominated (boot_status_of g_layout m) = Some a \<Longrightarrow> tool_choice m = other_slot a"
  by (auto simp: tool_choice_def boot_status_of_def split: option.splits if_splits)

lemma tool_choice_free: "nominated (boot_status_of g_layout m) \<noteq> Some (tool_choice m)"
proof (cases "meta_authoritative g_layout m")
  case (Some p)
  then obtain r i where p: "meta_authoritative g_layout m = Some (r, i)" by (cases p) simp
  then have "slot_is_valid (meta_active_slot r)" by (rule authoritative_slot)
  with p show ?thesis by (auto simp: tool_choice_def boot_status_of_def slot_is_valid_iff)
qed (simp add: boot_status_of_def)

text \<open>An armed image that can be started is started by the next power-up.\<close>

lemma armed_boots:
  assumes "armed slot (unat (entry_offset hdr)) pl hdr h0 retries (sd_lib s)" and "slot_is_valid slot" and "linked_for slot pl"
  shows "\<exists>s'. sd_boot (sd_reboot s) = Some (sd_slot_base (unat slot) + unat (entry_offset hdr), s')"
proof (rule boot_any [of "sd_lib s"])
  let ?m = "dev_mem (sd_lib s)"
  have a: "holds slot (unat (entry_offset hdr)) pl hdr ?m" "slot_image g_layout ?m slot = Inr hdr" "dev_status (sd_lib s) = Trial slot 0"
    using assms(1) by (simp_all add: armed_def holds_def)
  note jump = holds_jump_ok [OF a(1) refl assms(3,2)]
  fix d' assume d': "sim_boot (sim_reboot (sd_lib s)) = Some (boot_target ?m (dev_status d'), d')"
    "dev_status d' = policy_advance (\<lambda>a. is_ok (slot_image g_layout ?m a)) (dev_status (sd_lib s)) \<or>
      dev_status d' = dev_status (sd_lib s) \<and> meta_seq_of g_layout ?m = 2 ^ 32 - 1"
  have "boot_target ?m (dev_status d') = boot_entry g_layout ?m slot"
    using d'(2) a(2,3) jump by (auto simp: boot_target_def policy_slot_def is_ok_def)
  moreover have "unat (boot_entry g_layout ?m slot) = sd_slot_base (unat slot) + unat (entry_offset hdr)"
    using slot_image_entry(3) [OF a(2) assms(2)] assms(2)
    by (auto simp: sd_slot_base_def sim_slot_base_def slot_is_valid_iff bl_port_layout_def word_le_nat_alt)
  ultimately show ?thesis using d'(1) by (simp add: sd_boot_def sd_reboot_def)
qed

text \<open>
  C5. A device is never stuck. After any sequence of steps, power the device up and run
  \<open>blflash flash\<close> once over a line that lets one of every \<open>retries\<close> attempts through: whatever
  happened before -- updates cut off anywhere, failed writes, images that never confirmed --
  the command ends with the exit code 0 and the next power-up starts the new image, in the
  slot that was not nominated, with a fresh trial behind it.
\<close>

theorem always_updatable:
  assumes "settled s0" and "life_step\<^sup>*\<^sup>* s0 s" and "sd_boot (sd_reboot s) = Some (target, s1)"
    and "validate img (Some 0x1B000) = Inr header" and "file_linked img (unat (tool_choice (dev_mem (sd_lib s1))))"
    and "list_all harmless faults" and "tolerable (retries - 1) (retries - 1) faults" and "0 < retries" and "retries < 2 ^ 31" and "fast clk"
    and "meta_seq_of g_layout (dev_mem (sd_lib s1)) + retries < 2 ^ 32"
  shows "\<exists>l s2 slot. tool_main (link_port clk) retries (Flash (Inr img) None no_reset) \<lparr>lk_device = s1, lk_clock = i, lk_faults = faults\<rparr> = Some (Inr 0, l) \<and>
    slot_is_valid slot \<and> nominated (dev_status (sd_lib s1)) \<noteq> Some slot \<and> dev_status (lk_sim l) = Trial slot 0 \<and>
    sd_boot (sd_reboot (lk_device l)) = Some (sd_slot_base (unat slot) + ih_entry_offset header, s2)"
proof -
  let ?l = "\<lparr>lk_device = s1, lk_clock = i, lk_faults = faults\<rparr>" and ?slot = "tool_choice (dev_mem (sd_lib s1))"
  have "life_step s s1" using assms(3) by (rule life_step.power_cycle)
  with settled_reachable [OF assms(2,1)] settled_step have idle: "dev_idle (sd_lib s1)" by (auto simp: settled_def Let_def)
  have "sim_boot (sim_reboot (sd_lib s)) = Some (of_nat target, sd_lib s1)"
    using assms(3) by (auto simp: sd_boot_def sd_reboot_def elim!: bind_SomeE)
  note budget = booted_budget [OF this]
  have "length img \<le> 0x1B000" using assms(4) by (auto simp: validate_iff)
  then have "length img div 504 \<le> 0x1B000 div 504" by (rule div_le_mono)
  then have room: "length img div 504 + 1 + retries \<le> host_budget (sim_host (sd_lib s1))" using budget assms(9) by simp
  obtain hdr l where h: "header = header_of hdr" and run: "cmd_flash (link_port clk) retries (Inr img) None no_reset ?l = Some (Inr 0, l)"
    and armed: "armed ?slot (unat (entry_offset hdr)) (drop (unat (entry_offset hdr)) img) hdr (sim_host (sd_lib s1)) retries (lk_sim l)"
    by (rule flash_live [of ?l retries clk ?slot None img header no_reset])
      (use idle assms(4,6-11) room tool_choice_valid tool_choice_free tolerable_unbroken [OF assms(7)] in \<open>auto simp: line_ok_def update_target_def\<close>)
  have linked: "linked_for ?slot (drop (unat (entry_offset hdr)) img)" using assms(5) by (simp add: file_linked_def assms(4) h)
  have main: "tool_main (link_port clk) retries (Flash (Inr img) None no_reset) ?l = Some (Inr 0, l)" using run by (simp add: tool_main_def)
  have "dev_status (lk_sim l) = Trial ?slot 0" using armed by (simp add: armed_def)
  with main armed_boots [OF armed tool_choice_valid linked] tool_choice_valid tool_choice_free show ?thesis by (auto simp: h)
qed

theorem always_updatable_witness:
  "\<exists>target s1 l s2. sd_boot (sd_reboot \<lparr>sd_lib = steady, sd_rx = []\<rparr>) = Some (target, s1) \<and>
     tool_main (link_port (\<lambda>_. 0)) 3 (Flash (Inr (image_bytes 2 vectors_b)) None False)
       \<lparr>lk_device = s1, lk_clock = 0, lk_faults = lk_faults noisy_link\<rparr> = Some (Inr 0, l) \<and>
     sd_boot (sd_reboot (lk_device l)) = Some (0x08024200, s2)"
proof (rule boot_any [of steady])
  fix d' assume d': "sim_boot (sim_reboot steady) = Some (boot_target (dev_mem steady) (dev_status d'), d')"
    "dev_status d' = policy_advance (\<lambda>a. is_ok (slot_image g_layout (dev_mem steady) a)) (dev_status steady) \<or>
      dev_status d' = dev_status steady \<and> meta_seq_of g_layout (dev_mem steady) = 2 ^ 32 - 1"
    "meta_seq_of g_layout (dev_mem d') \<le> meta_seq_of g_layout (dev_mem steady) + 1"
  have st: "dev_status d' = Confirmed 0" using d'(2) by auto
  let ?s1 = "\<lparr>sd_lib = d', sd_rx = []\<rparr>"
  have boot: "sd_boot (sd_reboot \<lparr>sd_lib = steady, sd_rx = []\<rparr>) = Some (unat (boot_target (dev_mem steady) (dev_status d')), ?s1)"
    using d'(1) by (simp add: sd_boot_def sd_reboot_def)
  have slot: "tool_choice (dev_mem d') = 1" using tool_choice_nominated [of "dev_mem d'" 0] st by (simp add: other_slot_def)
  have "meta_seq_of g_layout (dev_mem d') + 3 < 2 ^ 32" using d'(3) by (simp add: meta_seq_of_def)
  from always_updatable [OF settled_steady rtranclp.rtrancl_refl boot, of "image_bytes 2 vectors_b" "header_of (image_hdr 2 vectors_b)"
      "lk_faults noisy_link" 3 "\<lambda>_. 0" False 0] this slot st demo_linked
  obtain l s2 slot' where r: "tool_main (link_port (\<lambda>_. 0)) 3 (Flash (Inr (image_bytes 2 vectors_b)) None False)
      \<lparr>lk_device = ?s1, lk_clock = 0, lk_faults = lk_faults noisy_link\<rparr> = Some (Inr 0, l)"
    "slot_is_valid slot'" "slot' \<noteq> 0" "sd_boot (sd_reboot (lk_device l)) = Some (sd_slot_base (unat slot') + 512, s2)"
    by auto
  then have "sd_slot_base (unat slot') + 512 = 0x08024200"
    by (auto simp: slot_is_valid_iff sd_slot_base_def sim_slot_base_def bl_port_layout_def g_layout_nth word_le_nat_alt)
  with boot r show ?thesis by auto
qed

section \<open>A second update before the first is confirmed\<close>

lemma update_live:
  assumes "dev_idle (lk_sim l)" and "lk_faults l = []" and "0 < retries" and "fast clk" and "slot_is_valid a"
    and nom: "nominated (dev_status (lk_sim l)) = Some a" and valid: "validate img (Some 0x1B000) = Inr header"
    and "meta_seq_of g_layout (dev_mem (lk_sim l)) + retries < 2 ^ 32"
    and "length img div 504 + 1 + retries \<le> host_budget (sim_host (lk_sim l))"
  obtains hdr l' where "header = header_of hdr" and "tool_update (link_port clk) retries img None l = Some (Inr (unat (other_slot a)), l')"
    and "armed (other_slot a) (unat (entry_offset hdr)) (drop (unat (entry_offset hdr)) img) hdr (sim_host (lk_sim l)) retries (lk_sim l')"
proof -
  have b: "slot_is_valid (other_slot a)" "other_slot a \<noteq> a" using assms(5) by (auto simp: slot_is_valid_iff)
  have target: "update_target (dev_mem (lk_sim l)) None = unat (other_slot a)" "nominated (dev_status (lk_sim l)) \<noteq> Some (other_slot a)"
    using nom b(2) by (simp_all add: update_target_def tool_choice_nominated)
  obtain hdr where h: "header = header_of hdr"
    and spec: "py_spec (\<lambda>x. line_up False True retries x \<and> dev_at (g_session (lk_sim l)) (sim_host (lk_sim l)) (lk_sim x))
      (tool_update (link_port clk) retries img None)
      (\<lambda>t x. t = unat (other_slot a) \<and> line_up False True retries x \<and>
        armed (other_slot a) (ih_entry_offset header) (drop (ih_entry_offset header) img) hdr (sim_host (lk_sim l)) retries (lk_sim x))
      (gave_up False True (spared (other_slot a) (ih_entry_offset header) (drop (ih_entry_offset header) img) hdr (sim_host (lk_sim l)) retries))"
    by (rule update_accepted [where brk = False and live = True, OF assms(4) b(1) target valid assms(8,9)])
  have "line_up False True retries l \<and> dev_at (g_session (lk_sim l)) (sim_host (lk_sim l)) (lk_sim l)"
    using assms(1-3) by (simp add: line_ok_def dev_at_def)
  with spec show ?thesis by (cases rule: py_specD) (use h that in \<open>auto simp: gave_up_def\<close>)
qed

text \<open>An armed image that never confirms: the device ends on the other slot, confirmed.\<close>

lemma armed_rolls_back:
  assumes "armed a e pl hdr h0 retries d" and "slot_is_valid a" and img: "is_ok (slot_image g_layout (host_mem h0) (other_slot a))"
    and "jump_ok (host_mem h0) (boot_entry g_layout (host_mem h0) (other_slot a))" and seq: "meta_seq_of g_layout (host_mem h0) + retries + n < 2 ^ 32"
  shows "\<exists>targets d'. power_cycles n d = Some (targets, d') \<and>
    (\<forall>i. 3 \<le> i \<and> i < n \<longrightarrow> targets ! i = boot_entry g_layout (host_mem h0) (other_slot a)) \<and>
    (4 \<le> n \<longrightarrow> dev_status d' = Confirmed (other_slot a))"
proof -
  have same: "dev_mem d x = host_mem h0 x"
    if "region_lo (layout_slot g_layout ! unat (other_slot a)) \<le> x" "x < region_hi (layout_slot g_layout ! unat (other_slot a))" for x
    using assms(1) that by (simp add: armed_def other_kept_def Let_def)
  note keep = slot_bytes_boot [OF same conjunct1 [OF other_slot_valid [OF assms(2)]]]
  have old: "boot_target (dev_mem d) (Confirmed (other_slot a)) = boot_entry g_layout (host_mem h0) (other_slot a)"
    using keep assms(3,4) by (simp add: boot_target_def policy_slot_def)
  have st: "dev_status d = Trial a 0" "meta_seq_of g_layout (dev_mem d) + n < 2 ^ 32"
    using assms(1) seq by (auto simp: armed_def other_kept_def Let_def)
  have run: "policy_run (\<lambda>a. is_ok (slot_image g_layout (dev_mem d) a)) n (Trial a 0) =
      map (\<lambda>i. if i < 3 then Trial a (i + 1) else Confirmed (other_slot a)) [0..<n]"
    using policy_run_trial [of "\<lambda>a. is_ok (slot_image g_layout (dev_mem d) a)" a n 0] keep(1) img by simp
  from power_cycles_policy [OF st(2)] obtain d' where
    p: "power_cycles n d = Some (map (boot_target (dev_mem d)) (policy_run (\<lambda>a. is_ok (slot_image g_layout (dev_mem d) a)) n (dev_status d)), d')"
    by blast
  have "dev_status d' = Confirmed (other_slot a)" if "4 \<le> n"
    using power_cycles_status [OF st(2) p] that by (simp add: st(1) run last_map)
  with p old show ?thesis by (simp add: st(1) run)
qed

text \<open>
  C25. Confirmed without a confirmation. On a confirmed device, install a first image and
  power it up once; before the application confirms, install a second image. It goes to the
  slot of the image that was confirmed. If it does not confirm either, from the fourth
  power-up on the device runs the first image, and its boot status is confirmed.
\<close>

theorem second_update_confirms_first:
  assumes "dev_idle (lk_sim l)" and "slot_is_valid a" and "boot_status_of g_layout (host_mem (sim_host (lk_sim l))) = Confirmed a"
    and "lk_faults l = []" and "0 < retries" and "fast clk"
    and "validate img1 (Some 0x1B000) = Inr h1" and "validate img2 (Some 0x1B000) = Inr h2" and "file_linked img1 (unat (other_slot a))"
    and "length img1 div 504 + 1 + retries \<le> host_budget (sim_host (lk_sim l))"
    and "meta_seq_of g_layout (host_mem (sim_host (lk_sim l))) + 2 * retries + n + 1 < 2 ^ 32"
    and "e1 = region_base (layout_slot g_layout ! unat (other_slot a)) + of_nat (ih_entry_offset h1)"
  shows "\<exists>l1 d1 l2 targets d2.
    tool_update (link_port clk) retries img1 None l = Some (Inr (unat (other_slot a)), l1) \<and>
    sim_boot (sim_reboot (lk_sim l1)) = Some (e1, d1) \<and>
    tool_update (link_port clk) retries img2 None (l\<lparr>lk_device := \<lparr>sd_lib = d1, sd_rx = []\<rparr>\<rparr>) = Some (Inr (unat a), l2) \<and>
    power_cycles n (lk_sim l2) = Some (targets, d2) \<and>
    (\<forall>i. 3 \<le> i \<and> i < n \<longrightarrow> targets ! i = e1) \<and>
    (4 \<le> n \<longrightarrow> boot_status_of g_layout (host_mem (sim_host d2)) = Confirmed (other_slot a))"
proof -
  let ?b = "other_slot a"
  have b: "slot_is_valid ?b" "other_slot ?b = a" using assms(2) by (auto simp: slot_is_valid_iff)
  have seq: "meta_seq_of g_layout (dev_mem (lk_sim l)) + retries < 2 ^ 32" using assms(11) by simp
  obtain hdr l1 where h: "h1 = header_of hdr"
    and run1: "tool_update (link_port clk) retries img1 None l = Some (Inr (unat ?b), l1)"
    and armed: "armed ?b (unat (entry_offset hdr)) (drop (unat (entry_offset hdr)) img1) hdr (sim_host (lk_sim l)) retries (lk_sim l1)"
    by (rule update_live [OF assms(1,4-6,2) _ assms(7) seq assms(10)]) (use assms(3) in simp)
  let ?m1 = "dev_mem (lk_sim l1)"
  have st1: "dev_idle (lk_sim l1)" "dev_status (lk_sim l1) = Trial ?b 0" "slot_image g_layout ?m1 ?b = Inr hdr"
    "meta_seq_of g_layout ?m1 \<le> meta_seq_of g_layout (dev_mem (lk_sim l)) + retries"
    using armed by (simp_all add: armed_def other_kept_def holds_def Let_def)
  have e1: "boot_entry g_layout ?m1 ?b = e1" using st1(3) by (simp add: boot_entry_def assms(12) h)
  have "linked_for ?b (drop (unat (entry_offset hdr)) img1)" using assms(9) by (simp add: file_linked_def assms(7) h)
  then have jump: "jump_ok ?m1 e1"
    using armed holds_jump_ok [OF _ refl _ b(1), of hdr "drop (unat (entry_offset hdr)) img1" ?m1] by (simp add: e1 armed_def)
  obtain d1 where d1: "sim_boot (sim_reboot (lk_sim l1)) = Some (boot_target ?m1 (dev_status d1), d1)"
    "slots_agree g_layout (dev_mem d1) ?m1" "dev_status d1 = Trial ?b 1" "meta_seq_of g_layout (dev_mem d1) \<le> meta_seq_of g_layout ?m1 + 1"
    "g_parser d1 = g_parser (sim_reboot (lk_sim l1))" "host_inv (sim_host d1)"
    by (rule boot_any [of "lk_sim l1"]) (use st1 assms(11) in auto)
  note idle = idle_booted [OF st1(1) d1(5,6)]
  have target: "boot_target ?m1 (dev_status d1) = e1" using st1(3) jump by (simp add: d1(3) boot_target_def policy_slot_def is_ok_def e1)
  let ?l = "l\<lparr>lk_device := \<lparr>sd_lib = d1, sd_rx = []\<rparr>\<rparr>"
  have budget: "length img2 div 504 + 1 + retries \<le> host_budget (sim_host d1)"
  proof -
    have "length img2 \<le> 0x1B000" using assms(8) by (auto simp: validate_iff)
    then have "length img2 div 504 \<le> 0x1B000 div 504" by (rule div_le_mono)
    moreover note booted_budget [OF d1(1)]
    ultimately show ?thesis using assms(11) by simp
  qed
  have seq1: "meta_seq_of g_layout (dev_mem d1) + retries < 2 ^ 32" using assms(11) d1(4) st1(4) by simp
  obtain hdr2 l2 where run2: "tool_update (link_port clk) retries img2 None ?l = Some (Inr (unat a), l2)"
    and armed2: "armed a (unat (entry_offset hdr2)) (drop (unat (entry_offset hdr2)) img2) hdr2 (sim_host d1) retries (lk_sim l2)"
    by (rule update_live [of ?l retries clk ?b img2 h2]) (use idle assms(4-6,8) b d1(3) seq1 budget in auto)
  have "is_ok (slot_image g_layout (dev_mem d1) ?b)" "boot_entry g_layout (dev_mem d1) ?b = e1" "jump_ok (dev_mem d1) e1"
    using slots_agree_image [OF d1(2) b(1)] jump_ok_agree [OF d1(2) b(1)] st1(3) jump e1 by (simp_all add: boot_entry_def is_ok_def)
  moreover have "meta_seq_of g_layout (dev_mem d1) + retries + n < 2 ^ 32" using assms(11) d1(4) st1(4) by simp
  ultimately show ?thesis
    using run1 d1(1) target run2 b(2) armed_rolls_back [OF armed2 assms(2), of n] by (auto simp: b(2))
qed

theorem second_update_confirms_first_witness:
  "\<exists>l1 d1 l2 targets d2.
     tool_update (link_port (\<lambda>_. 0)) 3 (image_bytes 2 vectors_b) None (noisy_link\<lparr>lk_faults := []\<rparr>) = Some (Inr 1, l1) \<and>
     sim_boot (sim_reboot (lk_sim l1)) = Some (0x08024200, d1) \<and>
     tool_update (link_port (\<lambda>_. 0)) 3 (image_bytes 2 vectors_b) None (noisy_link\<lparr>lk_faults := [], lk_device := \<lparr>sd_lib = d1, sd_rx = []\<rparr>\<rparr>) =
       Some (Inr 0, l2) \<and>
     power_cycles 5 (lk_sim l2) = Some (targets, d2) \<and> targets ! 3 = 0x08024200 \<and>
     boot_status_of g_layout (host_mem (sim_host d2)) = Confirmed 1"
  using second_update_confirms_first [of "noisy_link\<lparr>lk_faults := []\<rparr>" 0 3 "\<lambda>_. 0" "image_bytes 2 vectors_b"
      "header_of (image_hdr 2 vectors_b)" "image_bytes 2 vectors_b" "header_of (image_hdr 2 vectors_b)" 5 "0x08024200"] demo_linked
  by (fastforce simp: slot_is_valid_iff meta_seq_of_def other_slot_def g_layout_nth)

end
