(* ===== verification/Spec2Isabelle.thy ===== *)
theory Spec2Isabelle
  imports Bl_Life
begin

text \<open>
  A verification development for the dual-slot STM32 bootloader: its hardware-independent
  core, the host port it is tested on, the simulated device, and the Python tools that
  package images and install them.

  \<^bold>\<open>The program.\<close> The device has two firmware slots and two metadata regions. On a
  boot (\<open>bl_core_boot\<close>) the core reads the newest valid metadata record, spends an
  attempt if the active image is on trial, falls back to the other slot when the attempts
  are used up, validates the selected image and asks the port to jump. An update arrives
  as frames: the parser (\<open>bl_frame_feed\<close>) delivers requests to
  \<open>bl_core_handle_frame\<close>, which erases a slot, programs it, validates it and arms it for
  a trial; the application confirms itself through the service table. All hardware access
  goes through the functions of \<open>bl_port.h\<close>. On the host, \<open>mkimage.py\<close> packages a binary and
  \<open>blflash.py\<close> sends it: each request is repeated until it is answered, the payload goes
  first and the header last, and the slot is verified and armed at the end. \<open>blsim.py\<close>
  presents the simulated device to it as a serial port.

  \<^bold>\<open>Theories and sources.\<close>
  \<^item> \<open>Bl_Prelude\<close>: words, little-endian access, byte ranges of a memory.
  \<^item> \<open>Bl_Proto\<close> (\<open>core/include/bl_proto.h\<close>): constants, result codes, the image header as
    a record with its byte layout and both round trips.
  \<^item> \<open>Bl_Crc32\<close> (\<open>core/src/bl_crc32.c\<close>): the bitwise checksum at 32 bits; equality with the
    catalogue form of CRC-32/ISO-HDLC, composition of running values, the residue, and
    detection of every change of up to four consecutive bytes.
  \<^item> \<open>Bl_Frame\<close> (\<open>core/src/bl_frame.c\<close>): the parser as a state machine over the source's
    record and the encoder into a caller's buffer. \<open>frame_consumed\<close> relates a parser state
    to the bytes since the start marker; from it follow acceptance of exactly the frames
    of the format, rejection of damaged ones and the bound of the payload index.
    \<open>Bl_Resync\<close>: how far behind a parser in any state is after noise, and how much a false
    start marker swallows.
  \<^item> \<open>Bl_Port\<close> (\<open>core/include/bl_port.h\<close>): the seam as a record of functions, and the
    header's contract as four locales, each extending the one before: \<open>flash_port\<close> (a failing
    write or erase may leave anything in its range, a read may fail), \<open>readable_flash_port\<close> (reads
    inside flash succeed), \<open>atomic_flash_port\<close> (a failed program changes nothing, erases
    succeed) and \<open>reliable_flash_port\<close> (with a predicate saying that the next program
    succeeds).
  \<^item> \<open>Bl_Port_Host\<close> (\<open>port/host/bl_port_host.c\<close>): the file-scope state as one record, every
    port function and test hook, and the interpretations of the four locales on it. A
    failing \<open>BL_HOST_ASSERT\<close> is the value \<open>None\<close>.
  \<^item> \<open>Bl_Meta\<close> (\<open>core/src/bl_meta.c\<close>): reading, selecting, committing and erasing the
    ping-pong records; inside the locales: a commit returns, changes one region, keeps the
    authoritative record if it can read it, and, on an atomic port, is all or nothing.
  \<^item> \<open>Bl_Image\<close>, \<open>Bl_Boot\<close>, \<open>Bl_Session\<close> (\<open>core/src/bl_core.c\<close>): validation and
    selection with the specification \<open>slot_image\<close>; the trial logic with the abstract boot
    status, the policy functions and the refinement of boot, arming and confirming; the
    command handlers with the session invariant, the guards on unbounded numbers and
    \<open>served\<close>, the states reachable by requests and power cycles of a host that keeps the header
    write apart from the payload. Here and in the theories on boot and images
    everything about results assumes that reads succeed.
  \<^item> \<open>Bl_Api\<close> (\<open>core/src/bl_api.c\<close>): the published table as bytes and its lookup, for every
    pointer width of whole bytes.
  \<^item> \<open>Bl_Sim\<close> (\<open>sim/bl_sim.c\<close>): the simulated device; feeding a frame byte by byte serves the
    request, and power cycles follow the boot policy.
  \<^item> \<open>Bl_Examples\<close>: the concrete devices the theorems are applied to.
  \<^item> \<open>Bl_Host_Contract\<close>, \<open>Bl_Device\<close>, \<open>Bl_Protocol\<close>: the correctness statements of the
    host port, over every sequence of its calls (\<open>host_calls\<close>); of metadata, images, arming and
    confirming; of the update protocol, and of everything that can happen to a device
    (\<open>device_run\<close>: requests of any host, boots, confirmations, power cycles, failures).
    \<open>Bl_Device\<close> also shows what a failed read costs: the commit takes the region for empty and
    may erase the only record (\<open>failed_read_loses_record\<close>).
  \<^item> \<open>Bl_Update\<close>: the device's answer to each request of an update and to its repetition,
    over the wire; \<open>Bl_Recovery\<close>: interrupted updates and corrupted flash.
  \<^item> \<open>Bl_Tool_Proto\<close> (\<open>tools/blproto.py\<close>), \<open>Bl_Tool_Image\<close> (\<open>tools/blimage.py\<close>,
    \<open>tools/mkimage.py\<close>): the second implementation of the wire and image formats, with
    exceptions as a sum; proved to agree with the device's on every input.
  \<^item> \<open>Bl_Flash_Tool\<close> (\<open>tools/blflash.py\<close>, \<open>tools/blsim.py\<close>): the updater's transport, protocol,
    command and update layers over an arbitrary port, and the simulated port.
  \<^item> \<open>Bl_Tool_Link\<close>: a calculus of total correctness with exceptions (\<open>py_spec\<close>); the locale
    \<open>serial_port\<close> with what the updater relies on of a port, and its interpretation on the
    simulated device behind a line that loses and damages messages or fails with an \<open>OSError\<close>.
    \<open>Bl_Tool_Update\<close>: every command and the update sequence over that line.
    \<open>Bl_Tool_Install\<close>: what a run of the updater achieves and what it leaves when it gives up.
  \<^item> \<open>Bl_Command\<close>: any run of the updater is all or nothing, and what the exit codes of the
    command line mean. \<open>Bl_Life\<close>: the life of a device as a step relation over the simulated
    device (commands over any line, power cycles, confirmations, flash failures), its
    invariant \<open>settled\<close>, which a fresh device has, and the reachable states; what a second
    update before the first is confirmed does.
  \<^item> This theory: the boot path.

  \<^bold>\<open>How the code is modelled.\<close> C integers are words of their width, so every wrap-around is
  the code's. A function with effects takes the state it uses and returns it; one that can
  trip a contract check returns an option; a result code with an output parameter is a sum
  whose right side is the output, and pointers that may be null are options or flags. The
  core is parameterised by a port, as the C is by the linked implementation. Bytes of flash
  are a function on offsets; array bounds are theorems of \<open>Bl_Host_Contract\<close>, not types.
  Structures copied to and from flash are records with explicit little-endian layouts, as
  the static assertions of the headers fix them.

  A Python method is a function of the port and the state behind it that returns a value or
  an exception; integers that may be any size are \<open>nat\<close> or \<open>int\<close>, \<open>bytes\<close> are lists.

  \<^bold>\<open>Loops and bounds.\<close> No fuel is used: the payload checksum and \<open>sim_corrupt\<close> recurse on
  the remaining length with a termination proof, every other C loop on a list. The \<open>while\<close>
  loops of the updater are partial functions into \<open>option\<close>; that they return is part of
  every \<open>py_spec\<close>.

  \<^bold>\<open>Assumptions of the theorems.\<close> Statements on the host port need only \<open>host_inv\<close>, which
  every reachable state satisfies. Metadata theorems about new records exclude the sequence
  number \<open>2^32 - 1\<close>, where the code's counter wraps (\<open>Bl_Device\<close>). The session theorems
  assume that the header write and the payload writes are kept apart, which the handler's
  guards do not enforce (\<open>Bl_Update\<close>).

  The theorems on the updater assume an idle device and a line whose damage is noticed
  (\<open>harmless\<close>): a request may be lost, or damaged so that the idle device completes no frame and
  waits for a start marker again (\<open>unheard\<close>); an answer may be damaged so that no intact frame
  can be read from it (\<open>mute\<close>); and writing may raise an \<open>OSError\<close>. Noise without a start
  marker, a truncated answer, and an answer with up to four consecutive bytes after the marker changed
  but not its length, are proved to be mute; such noise and a request changed like that, unheard; damage that forges a frame with
  a correct checksum is excluded, and so is a request cut inside a frame, after which the device
  takes the start of the next request for the rest of this one (C24). Flash
  writes may fail at any point; only success assumes that they do not (\<open>host_budget\<close>), that
  one of every \<open>retries\<close> attempts gets through and the port does not break (\<open>tolerable\<close>), and that
  the clock leaves the answers their time (\<open>fast\<close>).
  In \<open>never_bricked\<close> the flashed files are linked for the slot they go to (\<open>file_linked\<close>),
  which neither the tool nor the device checks before the jump, and the device is settled at the
  start: a nominated slot without a valid image is a state from which the updater can erase the only image.

  \<^bold>\<open>Not modelled.\<close> The unit tests and the third-party test framework; \<open>check_sync.py\<close>, which
  compares constants textually, \<open>demo.py\<close>, and the argument parsing, opening and closing of the
  port and printing of the command-line tools (reading the image file is an argument of
  \<open>Flash\<close>: the contents or the exception); the register-level target port, which is not part of
  the repository; the section attribute and linker placement of the service table; the
  message \<open>BL_HOST_ASSERT\<close> prints.
\<close>

section \<open>Booting\<close>

text \<open>
  C6. An image on trial that never confirms itself is started exactly three times; from
  the fourth power cycle on the device runs the image of the other slot. The theorem
  covers any number \<open>n\<close> of power cycles of the simulated device; \<open>power_cycles\<close> returns
  the addresses control was transferred to. Both slots hold valid images with usable
  vector tables, and fewer than \<open>2^32\<close> metadata records have been written.
\<close>

theorem trial_then_rollback:
  assumes "boot_status_of g_layout (host_mem (sim_host d)) = Trial a 0"
    and "is_ok (slot_image g_layout (host_mem (sim_host d)) a)"
    and "is_ok (slot_image g_layout (host_mem (sim_host d)) (other_slot a))"
    and "jump_ok (host_mem (sim_host d)) (boot_entry g_layout (host_mem (sim_host d)) a)"
    and "jump_ok (host_mem (sim_host d)) (boot_entry g_layout (host_mem (sim_host d)) (other_slot a))"
    and "meta_seq_of g_layout (host_mem (sim_host d)) + n < 2 ^ 32"
  shows "\<exists>d'. power_cycles n d =
    Some (map (\<lambda>i. boot_entry g_layout (host_mem (sim_host d)) (if i < 3 then a else other_slot a)) [0..<n], d')"
proof -
  let ?m = "host_mem (sim_host d)"
  have t: "boot_target ?m (Trial a k) = boot_entry g_layout ?m a" for k
    using assms(2,4) by (simp add: boot_target_def policy_slot_def)
  have c: "boot_target ?m (Confirmed (other_slot a)) = boot_entry g_layout ?m (other_slot a)"
    using assms(3,5) by (simp add: boot_target_def policy_slot_def)
  show ?thesis
    using power_cycles_policy [OF assms(6)] assms(1,3)
    by (auto simp: policy_run_trial comp_def t c if_distrib [of "boot_target ?m"]
        if_distrib [of "boot_entry g_layout ?m"] cong: if_cong)
qed

theorem trial_then_rollback_witness:
  "\<exists>d'. power_cycles 5 demo =
     Some ([0x08024200, 0x08024200, 0x08024200, 0x08009200, 0x08009200], d')"
  using trial_then_rollback [of demo 1 5] by (simp add: upt_rec)

text \<open>
  C8. One boot, under any injected flash failure: it returns, leaves both slots as they
  are, makes the boot status what the policy says -- or leaves it as it was, which
  happens only when the metadata could not be programmed or the sequence number is
  exhausted -- and then either jumps to the entry point of the slot the policy selects
  from that status, or reports that no slot holds a valid image.
\<close>

theorem boot_follows_policy:
  assumes "host_inv h"
  shows "\<exists>r h1 h'. bl_core_boot host_port h = Some (r, h') \<and> advance_trial_state host_port h = Some h1 \<and>
    host_inv h' \<and> slots_agree g_layout (host_mem h') (host_mem h) \<and>
    (boot_status_of g_layout (host_mem h') =
       policy_advance (\<lambda>a. is_ok (slot_image g_layout (host_mem h) a)) (boot_status_of g_layout (host_mem h)) \<or>
     boot_status_of g_layout (host_mem h') = boot_status_of g_layout (host_mem h) \<and>
       (\<not> host_ready h \<or> meta_seq_of g_layout (host_mem h) = 2 ^ 32 - 1)) \<and>
    (case policy_slot (slot_image g_layout (host_mem h)) (boot_status_of g_layout (host_mem h')) of
       None \<Rightarrow> r = BL_ERR_NO_VALID_IMAGE \<and> h' = h1
     | Some a \<Rightarrow> r = BL_ERR_JUMP_REFUSED \<and> h' = bl_jump_to_app h1 (boot_entry g_layout (host_mem h) a))"
  by (rule host.boot_refines [OF assms host_meta_erasable, unfolded host_port_simps], intro exI conjI; assumption)

theorem boot_follows_policy_witness:
  "\<exists>r h'. bl_core_boot host_port demo_host = Some (r, h') \<and>
     (boot_status_of g_layout (host_mem h') = Trial 1 1 \<or> \<not> host_ready demo_host)"
  using boot_follows_policy [of demo_host] by auto

text \<open>
  C12. Selection: the slot handed to the boot path is exactly what the policy picks from
  the metadata record and the two slots' contents, and there is one whenever a slot
  holds a valid image.
\<close>

theorem select_slot_policy:
  assumes "host_inv h"
  shows "\<exists>res. bl_core_select_slot host_port False False h = Some res \<and>
    (case res of
       Inl e \<Rightarrow> e = BL_ERR_NO_VALID_IMAGE \<and> \<not> is_ok (slot_image g_layout (host_mem h) 0) \<and>
                \<not> is_ok (slot_image g_layout (host_mem h) 1)
     | Inr (slot, hdr) \<Rightarrow>
         slot_image g_layout (host_mem h) slot = Inr hdr \<and>
         policy_slot (slot_image g_layout (host_mem h)) (boot_status_of g_layout (host_mem h)) = Some slot)"
proof (cases "policy_slot (slot_image g_layout (host_mem h)) (boot_status_of g_layout (host_mem h))")
  case None
  then show ?thesis
    using host.select_slot_eq [OF assms] host.boot_selects_iff [of h h] by (simp add: select_spec_policy)
next
  case (Some a)
  then show ?thesis
    using host.select_slot_eq [OF assms] policy_slot_valid [OF Some] by (auto simp: select_spec_policy is_ok_iff)
qed

theorem select_slot_policy_witness:
  "\<exists>hdr. bl_core_select_slot host_port False False demo_host = Some (Inr (1, hdr))"
proof -
  from select_slot_policy [OF demo_host_inv] obtain res where
    "bl_core_select_slot host_port False False demo_host = Some res" and
    "case res of Inl e \<Rightarrow> e = BL_ERR_NO_VALID_IMAGE \<and> \<not> is_ok (slot_image g_layout (host_mem demo_host) 0) \<and>
        \<not> is_ok (slot_image g_layout (host_mem demo_host) 1)
      | Inr (slot, hdr) \<Rightarrow> slot_image g_layout (host_mem demo_host) slot = Inr hdr \<and>
        policy_slot (slot_image g_layout (host_mem demo_host))
          (boot_status_of g_layout (host_mem demo_host)) = Some slot" by blast
  then show ?thesis by (cases res) (auto simp: policy_slot_def)
qed

end
